(* ===== verification/C_Prelude.thy ===== *)
theory C_Prelude
  imports Main "HOL-Library.Word" "HOL-Library.Monad_Syntax" "HOL-Library.Signed_Division"
begin

text \<open>
  The C fragment the audio code is written in, shared by every component theory.

  A C integer is an \<open>int\<close> kept inside the range of its type. A conversion to a narrower or
  unsigned type is written out (\<open>s16\<close>, \<open>s32\<close>, \<open>u16\<close>, \<open>u32\<close>: reduction modulo the
  width). Arithmetic on signed types is checked: \<open>chk32 e\<close> is \<open>Some e\<close> when the value
  of \<open>e\<close> is representable and \<open>None\<close> otherwise, and so are division
  (\<open>div32\<close>, \<open>rem32\<close>), left shift (\<open>shl32\<close>) and array access (\<open>rd\<close>, \<open>wr\<close>).
  A computation is a value of the option monad; \<open>None\<close> means that the C execution has
  undefined behaviour (signed overflow, division by zero, an invalid shift, an access
  outside an array) or does not return. A right shift of a signed value is the arithmetic
  shift \<open>x div 2 ^ n\<close>, as on every target the code supports.

  \<open>runs m P\<close> is the total-correctness judgement "\<open>m\<close> is free of undefined behaviour,
  returns, and its result satisfies \<open>P\<close>"; its rules are rewrite rules collected in
  \<open>runs_simps\<close>.
\<close>

unbundle bit_operations_syntax

named_theorems runs_simps \<open>weakest preconditions of the checked operations\<close>
named_theorems c_ranges \<open>the ranges of the C integer types\<close>

section \<open>Integer types\<close>

definition in_s16 :: "int \<Rightarrow> bool" where
  [c_ranges]: "in_s16 x \<longleftrightarrow> -32768 \<le> x \<and> x \<le> 32767"

definition in_s32 :: "int \<Rightarrow> bool" where
  [c_ranges]: "in_s32 x \<longleftrightarrow> -2147483648 \<le> x \<and> x \<le> 2147483647"

definition in_s64 :: "int \<Rightarrow> bool" where
  [c_ranges]: "in_s64 x \<longleftrightarrow> -9223372036854775808 \<le> x \<and> x \<le> 9223372036854775807"

definition in_u8 :: "int \<Rightarrow> bool" where
  [c_ranges]: "in_u8 x \<longleftrightarrow> 0 \<le> x \<and> x \<le> 255"

definition in_u16 :: "int \<Rightarrow> bool" where
  [c_ranges]: "in_u16 x \<longleftrightarrow> 0 \<le> x \<and> x \<le> 65535"

definition in_u32 :: "int \<Rightarrow> bool" where
  [c_ranges]: "in_u32 x \<longleftrightarrow> 0 \<le> x \<and> x \<le> 4294967295"

text \<open>The conversions \<open>(int16_t)x\<close>, \<open>(int32_t)x\<close>, \<open>(uint16_t)x\<close>, \<open>(uint32_t)x\<close>.\<close>

definition s16 :: "int \<Rightarrow> int" where
  "s16 x = (x + 32768) mod 65536 - 32768"

definition s32 :: "int \<Rightarrow> int" where
  "s32 x = (x + 2147483648) mod 4294967296 - 2147483648"

definition u8 :: "int \<Rightarrow> int" where
  "u8 x = x mod 256"

definition u16 :: "int \<Rightarrow> int" where
  "u16 x = x mod 65536"

definition u32 :: "int \<Rightarrow> int" where
  "u32 x = x mod 4294967296"

lemma s16_range [simp]: "in_s16 (s16 x)"
  using pos_mod_bound [of 65536 "x + 32768"] pos_mod_sign [of 65536 "x + 32768"]
  by (simp add: s16_def in_s16_def)

lemma s32_range [simp]: "in_s32 (s32 x)"
  using pos_mod_bound [of 4294967296 "x + 2147483648"] pos_mod_sign [of 4294967296 "x + 2147483648"]
  by (simp add: s32_def in_s32_def)

lemma u16_range [simp]: "in_u16 (u16 x)"
  using pos_mod_bound [of 65536 x] pos_mod_sign [of 65536 x]
  by (simp add: u16_def in_u16_def)

lemma u32_range [simp]: "in_u32 (u32 x)"
  using pos_mod_bound [of 4294967296 x] pos_mod_sign [of 4294967296 x]
  by (simp add: u32_def in_u32_def)

lemma s16_bounds [simp]: "-32768 \<le> s16 x" "s16 x \<le> 32767"
  using s16_range [of x] by (simp_all add: in_s16_def)

lemma s32_bounds [simp]: "-2147483648 \<le> s32 x" "s32 x \<le> 2147483647"
  using s32_range [of x] by (simp_all add: in_s32_def)

lemma u16_bounds [simp]: "0 \<le> u16 x" "u16 x \<le> 65535"
  using u16_range [of x] by (simp_all add: in_u16_def)

lemma u32_bounds [simp]: "0 \<le> u32 x" "u32 x \<le> 4294967295"
  using u32_range [of x] by (simp_all add: in_u32_def)

lemma s16_id: "in_s16 x \<Longrightarrow> s16 x = x"
  by (simp add: s16_def in_s16_def)

lemma s32_id: "in_s32 x \<Longrightarrow> s32 x = x"
  by (simp add: s32_def in_s32_def)

lemma u16_id: "in_u16 x \<Longrightarrow> u16 x = x"
  by (simp add: u16_def in_u16_def)

lemma u32_id: "in_u32 x \<Longrightarrow> u32 x = x"
  by (simp add: u32_def in_u32_def)

lemma s16_small: "-32768 \<le> x \<Longrightarrow> x \<le> 32767 \<Longrightarrow> s16 x = x"
  by (simp add: s16_id in_s16_def)

lemma s32_small: "-2147483648 \<le> x \<Longrightarrow> x \<le> 2147483647 \<Longrightarrow> s32 x = x"
  by (simp add: s32_id in_s32_def)

lemma s32_u32 [simp]: "s32 (u32 x) = s32 x"
  by (simp add: s32_def u32_def mod_simps)

lemma s16_s32 [simp]: "s16 (s32 x) = s16 x"
proof -
  have "s32 x + 32768 = x + 32768 + 65536 * (- 65536 * ((x + 2147483648) div 4294967296))"
    unfolding s32_def using div_mult_mod_eq [of "x + 2147483648" 4294967296] by linarith
  then show ?thesis
    unfolding s16_def by (simp only: mod_mult_self2)
qed

text \<open>The conversions are the two's complement readings of machine words.\<close>

lemma s32_eq_sint: "s32 x = sint (word_of_int x :: 32 word)"
  by (simp add: s32_def sint_sbintrunc' signed_take_bit_eq_take_bit_shift take_bit_eq_mod)

lemma s16_eq_sint: "s16 x = sint (word_of_int x :: 16 word)"
  by (simp add: s16_def sint_sbintrunc' signed_take_bit_eq_take_bit_shift take_bit_eq_mod)

lemma u32_eq_uint: "u32 x = uint (word_of_int x :: 32 word)"
  by (simp add: u32_def uint_word_of_int)

lemma in_s32I: "-2147483648 \<le> x \<Longrightarrow> x \<le> 2147483647 \<Longrightarrow> in_s32 x"
  by (simp add: in_s32_def)

section \<open>Checked operations\<close>

definition chk32 :: "int \<Rightarrow> int option" where
  "chk32 x = (if in_s32 x then Some x else None)"

definition chk64 :: "int \<Rightarrow> int option" where
  "chk64 x = (if in_s64 x then Some x else None)"

text \<open>C division truncates towards zero; a zero divisor and \<open>INT_MIN / -1\<close> are undefined.\<close>

definition div32 :: "int \<Rightarrow> int \<Rightarrow> int option" where
  "div32 a b = (if b = 0 then None else chk32 (a sdiv b))"

definition rem32 :: "int \<Rightarrow> int \<Rightarrow> int option" where
  "rem32 a b = (if b = 0 \<or> \<not> in_s32 (a sdiv b) then None else Some (a smod b))"

text \<open>
  A left shift of a negative value, by a count outside the width, or whose result is not
  representable is undefined.
\<close>

definition shl32 :: "int \<Rightarrow> int \<Rightarrow> int option" where
  "shl32 x n = (if 0 \<le> x \<and> 0 \<le> n \<and> n < 32 then chk32 (x * 2 ^ nat n) else None)"

text \<open>A right shift by a computed count; the count must lie inside the width.\<close>

definition sar32 :: "int \<Rightarrow> int \<Rightarrow> int option" where
  "sar32 x n = (if 0 \<le> n \<and> n < 32 then Some (x div 2 ^ nat n) else None)"

text \<open>Array access.\<close>

definition rd :: "'a list \<Rightarrow> int \<Rightarrow> 'a option" where
  "rd xs i = (if 0 \<le> i \<and> i < int (length xs) then Some (xs ! nat i) else None)"

definition wr :: "'a list \<Rightarrow> int \<Rightarrow> 'a \<Rightarrow> 'a list option" where
  "wr xs i v = (if 0 \<le> i \<and> i < int (length xs) then Some (xs[nat i := v]) else None)"

text \<open>A block of \<open>n\<close> elements read from offset \<open>i\<close> (a \<open>memcpy\<close> source or a sub-array).\<close>

definition rd_block :: "'a list \<Rightarrow> nat \<Rightarrow> nat \<Rightarrow> 'a list option" where
  "rd_block xs i n = (if i + n \<le> length xs then Some (take n (drop i xs)) else None)"

text \<open>A counting loop over the elements of a list, threading the loop's variables.\<close>

primrec foldM :: "('b \<Rightarrow> 's \<Rightarrow> 's option) \<Rightarrow> 'b list \<Rightarrow> 's \<Rightarrow> 's option" where
  "foldM f [] s = Some s"
| "foldM f (x # xs) s = do { s' \<leftarrow> f x s; foldM f xs s' }"

text \<open>A loop that computes one array element per iteration.\<close>

primrec mapM :: "('a \<Rightarrow> 'b option) \<Rightarrow> 'a list \<Rightarrow> 'b list option" where
  "mapM f [] = Some []"
| "mapM f (x # xs) = do { y \<leftarrow> f x; ys \<leftarrow> mapM f xs; Some (y # ys) }"

section \<open>Total correctness\<close>

definition runs :: "'a option \<Rightarrow> ('a \<Rightarrow> bool) \<Rightarrow> bool" where
  "runs m P \<longleftrightarrow> (\<exists>x. m = Some x \<and> P x)"

lemma runs_Some [runs_simps]: "runs (Some x) P \<longleftrightarrow> P x"
  by (simp add: runs_def)

lemma runs_None [runs_simps]: "\<not> runs None P"
  by (simp add: runs_def)

lemma runs_bind [runs_simps]: "runs (Option.bind m f) P \<longleftrightarrow> runs m (\<lambda>x. runs (f x) P)"
  by (cases m) (auto simp: runs_def)

lemma runs_chk32 [runs_simps]: "runs (chk32 x) P \<longleftrightarrow> in_s32 x \<and> P x"
  by (simp add: runs_def chk32_def)

lemma runs_chk64 [runs_simps]: "runs (chk64 x) P \<longleftrightarrow> in_s64 x \<and> P x"
  by (simp add: runs_def chk64_def)

lemma runs_div32 [runs_simps]: "runs (div32 a b) P \<longleftrightarrow> b \<noteq> 0 \<and> in_s32 (a sdiv b) \<and> P (a sdiv b)"
  by (simp add: div32_def runs_simps)

lemma runs_rem32 [runs_simps]: "runs (rem32 a b) P \<longleftrightarrow> b \<noteq> 0 \<and> in_s32 (a sdiv b) \<and> P (a smod b)"
  by (simp add: rem32_def runs_simps)

lemma runs_shl32 [runs_simps]:
  "runs (shl32 x n) P \<longleftrightarrow> 0 \<le> x \<and> 0 \<le> n \<and> n < 32 \<and> in_s32 (x * 2 ^ nat n) \<and> P (x * 2 ^ nat n)"
  by (auto simp: shl32_def runs_simps)

lemma runs_sar32 [runs_simps]:
  "runs (sar32 x n) P \<longleftrightarrow> 0 \<le> n \<and> n < 32 \<and> P (x div 2 ^ nat n)"
  by (auto simp: sar32_def runs_simps)

lemma runs_rd [runs_simps]:
  "runs (rd xs i) P \<longleftrightarrow> 0 \<le> i \<and> i < int (length xs) \<and> P (xs ! nat i)"
  by (auto simp: rd_def runs_simps)

lemma runs_wr [runs_simps]:
  "runs (wr xs i v) P \<longleftrightarrow> 0 \<le> i \<and> i < int (length xs) \<and> P (xs[nat i := v])"
  by (auto simp: wr_def runs_simps)

lemma runs_rd_block [runs_simps]:
  "runs (rd_block xs i n) P \<longleftrightarrow> i + n \<le> length xs \<and> P (take n (drop i xs))"
  by (simp add: rd_block_def runs_simps)

lemma runs_if [runs_simps]:
  "runs (if b then m else n) P \<longleftrightarrow> (b \<longrightarrow> runs m P) \<and> (\<not> b \<longrightarrow> runs n P)"
  by simp

lemma runs_let [runs_simps]: "runs (let x = e in f x) P \<longleftrightarrow> runs (f e) P"
  by simp

lemma runs_prod [runs_simps]: "runs (case p of (x, y) \<Rightarrow> f x y) P \<longleftrightarrow> runs (f (fst p) (snd p)) P"
  by (simp add: case_prod_beta)

lemma runs_mono: "runs m P \<Longrightarrow> (\<And>x. P x \<Longrightarrow> Q x) \<Longrightarrow> runs m Q"
  by (auto simp: runs_def)

text \<open>Sequencing by contracts: the intermediate assertion \<open>Q\<close> hides how \<open>m\<close> computed its value.\<close>

lemma runs_seq: "runs m Q \<Longrightarrow> (\<And>x. Q x \<Longrightarrow> runs (f x) P) \<Longrightarrow> runs (Option.bind m f) P"
  by (auto simp: runs_def)

lemma runs_chk32I: "in_s32 x \<Longrightarrow> P x \<Longrightarrow> runs (chk32 x) P"
  by (simp add: runs_chk32)

lemma runs_conj: "runs m P \<Longrightarrow> runs m Q \<Longrightarrow> runs m (\<lambda>x. P x \<and> Q x)"
  by (auto simp: runs_def)

lemma runsD: "runs m P \<Longrightarrow> m = Some x \<Longrightarrow> P x"
  by (auto simp: runs_def)

lemma runsE: "runs m P \<Longrightarrow> (\<And>x. m = Some x \<Longrightarrow> P x \<Longrightarrow> R) \<Longrightarrow> R"
  by (auto simp: runs_def)

lemma runs_not_None: "runs m P \<Longrightarrow> m \<noteq> None"
  by (auto simp: runs_def)

text \<open>The loop rules: an assertion indexed by the iterations done so far.\<close>

lemma foldM_append: "foldM f (xs @ ys) s = do { s' \<leftarrow> foldM f xs s; foldM f ys s' }"
  by (induction xs arbitrary: s) simp_all

lemma runs_foldM_index:
  assumes "I 0 s"
    and "\<And>i s. i < length xs \<Longrightarrow> I i s \<Longrightarrow> runs (f (xs ! i) s) (I (Suc i))"
  shows "runs (foldM f xs s) (I (length xs))"
  using assms
proof (induction xs arbitrary: s I)
  case Nil
  then show ?case by (simp add: runs_simps)
next
  case (Cons x xs)
  have "runs (f x s) (I (Suc 0))"
    using Cons.prems(2)[of 0 s] Cons.prems(1) by simp
  moreover have "runs (foldM f xs s') (I (Suc (length xs)))" if "I (Suc 0) s'" for s'
    using that
  proof (rule Cons.IH [where I = "\<lambda>i. I (Suc i)"])
    show "runs (f (xs ! i) t) (I (Suc (Suc i)))" if "i < length xs" "I (Suc i) t" for i t
      using Cons.prems(2)[of "Suc i" t] that by simp
  qed
  ultimately show ?case
    by (auto intro: runs_seq)
qed

lemma runs_foldM:
  assumes "I s" and "\<And>x s. x \<in> set xs \<Longrightarrow> I s \<Longrightarrow> runs (f x s) I"
  shows "runs (foldM f xs s) I"
  using assms runs_foldM_index [of "\<lambda>_. I" s xs f] by simp

lemma runs_mapM:
  assumes "\<And>x. x \<in> set xs \<Longrightarrow> runs (f x) Q"
  shows "runs (mapM f xs) (\<lambda>ys. length ys = length xs \<and> (\<forall>y \<in> set ys. Q y))"
  using assms
proof (induction xs)
  case Nil
  then show ?case by (simp add: runs_simps)
next
  case (Cons x xs)
  have "runs (f x) Q" using Cons.prems by simp
  moreover have "runs (mapM f xs) (\<lambda>ys. length ys = length xs \<and> (\<forall>y \<in> set ys. Q y))"
    using Cons by simp
  ultimately show ?case
    by (auto simp: runs_def)
qed

lemma mapM_Some: "(\<And>x. x \<in> set xs \<Longrightarrow> f x = Some (g x)) \<Longrightarrow> mapM f xs = Some (map g xs)"
  by (induction xs) simp_all

lemma mapM_length: "mapM f xs = Some ys \<Longrightarrow> length ys = length xs"
  by (induction xs arbitrary: ys) (auto split: bind_splits)

lemma mapM_nth: "mapM f xs = Some ys \<Longrightarrow> i < length xs \<Longrightarrow> f (xs ! i) = Some (ys ! i)"
  by (induction xs arbitrary: ys i) (auto split: bind_splits simp: nth_Cons split: nat.splits)

section \<open>Streams of frames\<close>

text \<open>A component called once per frame, run over a sequence of frames.\<close>

primrec stream :: "('i \<Rightarrow> 's \<Rightarrow> ('s \<times> 'o) option) \<Rightarrow> 'i list \<Rightarrow> 's \<Rightarrow> ('s \<times> 'o list) option" where
  "stream step [] s = Some (s, [])"
| "stream step (i # is) s = do {
     (s, out) \<leftarrow> step i s;
     (s, outs) \<leftarrow> stream step is s;
     Some (s, out # outs)
   }"

text \<open>
  The contract of such a component: a frame that meets \<open>good\<close>, on a state that meets \<open>inv\<close>, gives such a state
  and an output related to the frame by \<open>post\<close>. The second locale adds that the call always returns.
\<close>

locale frame_processor =
  fixes step :: "'i \<Rightarrow> 's \<Rightarrow> ('s \<times> 'o) option" and inv :: "'s \<Rightarrow> bool"
    and good :: "'i \<Rightarrow> bool" and post :: "'i \<Rightarrow> 'o \<Rightarrow> bool"
  assumes step_post: "inv s \<Longrightarrow> good i \<Longrightarrow> step i s = Some (s', out) \<Longrightarrow> inv s' \<and> post i out"
begin

lemma stream_post:
  "inv s \<Longrightarrow> \<forall>i \<in> set is. good i \<Longrightarrow> stream step is s = Some (s', outs) \<Longrightarrow> inv s' \<and> list_all2 post is outs"
proof (induction "is" arbitrary: s outs)
  case (Cons i "is")
  then obtain s1 out outs1 where "step i s = Some (s1, out)" "stream step is s1 = Some (s', outs1)" "outs = out # outs1"
    by (auto split: bind_splits)
  with step_post [of s i s1 out] Cons show ?case by auto
qed simp

end

locale total_frame_processor = frame_processor +
  assumes step_total: "inv s \<Longrightarrow> good i \<Longrightarrow> step i s \<noteq> None"
begin

lemma stream_total:
  "inv s \<Longrightarrow> \<forall>i \<in> set is. good i \<Longrightarrow> runs (stream step is s) (\<lambda>r. inv (fst r) \<and> list_all2 post is (snd r))"
proof (induction "is" arbitrary: s)
  case (Cons i "is")
  then obtain s1 out where s1: "step i s = Some (s1, out)" using step_total [of s i] by auto
  with step_post [of s i s1 out] Cons have "inv s1" "post i out"
      "runs (stream step is s1) (\<lambda>r. inv (fst r) \<and> list_all2 post is (snd r))" by auto
  with s1 show ?case by (auto simp: runs_def)
qed (simp add: runs_simps)

end

section \<open>Generic arithmetic\<close>

text \<open>Masks as remainders.\<close>

lemma and_low_mask: "x AND (2 ^ n - 1) = x mod (2 ^ n)" for x :: int
  by (simp add: take_bit_eq_mask mask_eq_exp_minus_1 flip: take_bit_eq_mod)

lemma and_0xFFFF: "x AND 65535 = x mod 65536" for x :: int
  using and_low_mask [of x 16] by simp

lemma and_0x3FFF: "x AND 16383 = x mod 16384" for x :: int
  using and_low_mask [of x 14] by simp

lemma and_0x1FFF: "x AND 8191 = x mod 8192" for x :: int
  using and_low_mask [of x 13] by simp

lemma and_0x7FFFFFFF: "x AND 2147483647 = x mod 2147483648" for x :: int
  using and_low_mask [of x 31] by simp

lemma and_masks_left: "65535 AND x = x mod 65536" "8191 AND x = x mod 8192" for x :: int
  using and_0xFFFF [of x] and_0x1FFF [of x] by (simp_all only: and.commute)

lemmas and_masks = and_0xFFFF and_0x3FFF and_0x1FFF and_0x7FFFFFFF

lemma and_high_mask: "x AND (2 ^ m - 1) * 2 ^ n = (x div 2 ^ n) mod 2 ^ m * 2 ^ n" for x :: int
proof -
  have "x AND push_bit n (mask m) = push_bit n (drop_bit n x AND mask m)"
    by (rule bit_eqI) (auto simp: bit_simps)
  then show ?thesis
    by (simp add: push_bit_eq_mult drop_bit_eq_div mask_eq_exp_minus_1 flip: take_bit_eq_mod)
      (simp add: take_bit_eq_mask mask_eq_exp_minus_1)
qed

lemma sdiv_nonneg: "0 \<le> a \<Longrightarrow> 0 < b \<Longrightarrow> (a::int) sdiv b = a div b"
  by (simp add: signed_divide_int_def sgn_if)

lemma sdiv_neg: "a < 0 \<Longrightarrow> 0 < b \<Longrightarrow> (a::int) sdiv b = - (- a div b)"
  by (simp add: signed_divide_int_def)

lemma sdiv_le: "a \<le> c * b \<Longrightarrow> 0 \<le> c \<Longrightarrow> 0 < b \<Longrightarrow> (a::int) sdiv b \<le> c"
proof (cases "0 \<le> a")
  case True
  assume "a \<le> c * b" "0 < b"
  then have "a div b \<le> (c * b) div b" by (intro zdiv_mono1) auto
  with True \<open>0 < b\<close> show ?thesis by (simp add: sdiv_nonneg)
next
  case False
  assume "0 \<le> c" "0 < b"
  moreover have "0 \<le> - a div b" using False \<open>0 < b\<close> by (simp add: pos_imp_zdiv_nonneg_iff)
  ultimately show ?thesis using False by (simp add: sdiv_neg)
qed

lemma sdiv_ge: "- c * b \<le> a \<Longrightarrow> 0 \<le> c \<Longrightarrow> 0 < b \<Longrightarrow> - c \<le> (a::int) sdiv b"
proof (cases "0 \<le> a")
  case True
  assume "0 \<le> c" "0 < b"
  moreover have "0 \<le> a div b" using True \<open>0 < b\<close> by (simp add: pos_imp_zdiv_nonneg_iff)
  ultimately show ?thesis using True by (simp add: sdiv_nonneg)
next
  case False
  assume "- c * b \<le> a" "0 < b"
  then have "- a div b \<le> (c * b) div b" by (intro zdiv_mono1) auto
  with False \<open>0 < b\<close> show ?thesis by (simp add: sdiv_neg)
qed

lemma div_window: "0 < m \<Longrightarrow> m * (a div m) \<le> a \<and> a < m * (a div m) + m" for a :: int
  using mult_div_mod_eq [of m a] pos_mod_bound [of m a] pos_mod_sign [of m a] by linarith

text \<open>The split product: 16 high and 16 low bits multiplied apart give the exact product's high part.\<close>

lemma split_mult_div:
  "(b div m) * a + (b mod m * a) div m = (b * a) div (m::int)" if "0 < m"
proof -
  have "b * a = (b div m * a) * m + b mod m * a"
    by (metis (no_types, lifting) div_mult_mod_eq mult.assoc mult.commute ring_class.ring_distribs(2))
  then have "(b * a) div m = ((b div m * a) * m + b mod m * a) div m"
    by simp
  also have "\<dots> = b div m * a + (b mod m * a) div m"
    using that by simp
  finally show ?thesis by simp
qed

lemma div_power_bounds: "0 \<le> x \<Longrightarrow> x \<le> b \<Longrightarrow> 0 \<le> x div 2 ^ n \<and> x div 2 ^ n \<le> (b::int)"
  using zdiv_mono2 [of x 1 "2 ^ n"] by (simp add: pos_imp_zdiv_nonneg_iff)

lemma abs_div_power_le: "\<bar>x div 2 ^ n\<bar> \<le> \<bar>x::int\<bar>"
proof (cases "0 \<le> x")
  case True
  then show ?thesis using div_power_bounds [of x x n] by simp
next
  case False
  then show ?thesis
    using zdiv_mono2_neg [of x 1 "2 ^ n"] div_neg_pos_less0 [of x "2 ^ n"] by simp
qed

lemma abs_mult_le: "\<bar>a\<bar> \<le> A \<Longrightarrow> \<bar>b\<bar> \<le> B \<Longrightarrow> \<bar>a * b\<bar> \<le> A * (B::int)"
  by (simp add: abs_mult mult_mono')

lemma square_bounds: "- k \<le> x \<Longrightarrow> x \<le> k \<Longrightarrow> x * x \<le> k * (k::int)"
  by (metis abs_le_iff abs_mult_self_eq mult_mono' abs_ge_zero minus_le_iff)

lemma div_bounds: "- k * m \<le> x \<Longrightarrow> x \<le> k * m + (m - 1) \<Longrightarrow> 0 < m \<Longrightarrow> - k \<le> x div m \<and> x div m \<le> (k::int)"
proof
  assume "- k * m \<le> x" "0 < m"
  then have "(- k * m) div m \<le> x div m" by (intro zdiv_mono1) auto
  with \<open>0 < m\<close> show "- k \<le> x div m"
    using nonzero_mult_div_cancel_right [of m "- k"] by simp
next
  assume "x \<le> k * m + (m - 1)" "0 < m"
  then have "x div m \<le> (k * m + (m - 1)) div m" by (intro zdiv_mono1) auto
  also have "\<dots> = k" using \<open>0 < m\<close> by simp
  finally show "x div m \<le> k" .
qed

end
