(* ===== verification/Spl.thy ===== *)
theory Spl
  imports C_Prelude "HOL-Library.Log_Nat"
begin

text \<open>
  The signal processing library the gain control is built on:
  \<^verbatim>\<open>src/digital_agc/signal_processing_library.h\<close> (bit counting, saturation, the
  multiply-accumulate macros) and \<^verbatim>\<open>src/digital_agc/signal_processing_library.c\<close>
  (guarded division, square root, the two-channel allpass downsampler, the scaled dot
  product). \<^verbatim>\<open>src/common_audio/signal_processing_library.c\<close> is the same file with another
  include line.

  The results: leading-zero counts normalise; saturating conversion is clamping; the
  square root has no undefined behaviour on any input and returns a value of at most 46340;
  the allpass chain of the downsampler has an inductive bound on its state, so the filter
  never overflows however long it runs; the unrolled dot product equals the plain
  saturated sum.
\<close>

section \<open>Bit counting and saturation\<close>

text \<open>\<open>__builtin_clz\<close> counts the zero bits above the highest one bit of a 32-bit value.\<close>

definition WebRtcSpl_CountLeadingZeros32 :: "int \<Rightarrow> int" where
  "WebRtcSpl_CountLeadingZeros32 n = (if n = 0 then 32 else 32 - bitlen n)"

definition WebRtcSpl_NormW32 :: "int \<Rightarrow> int" where
  "WebRtcSpl_NormW32 a =
     (if a = 0 then 0
      else s16 (WebRtcSpl_CountLeadingZeros32 (u32 (if a < 0 then NOT a else a)) - 1))"

definition WebRtcSpl_NormU32 :: "int \<Rightarrow> int" where
  "WebRtcSpl_NormU32 a = (if a = 0 then 0 else s16 (WebRtcSpl_CountLeadingZeros32 a))"

definition WebRtcSpl_SatW32ToW16 :: "int \<Rightarrow> int" where
  "WebRtcSpl_SatW32ToW16 value32 =
     (if value32 > 32767 then 32767 else if value32 < -32768 then -32768 else s16 value32)"

definition WebRtcSpl_AddSatW16 :: "int \<Rightarrow> int \<Rightarrow> int" where
  "WebRtcSpl_AddSatW16 a b = WebRtcSpl_SatW32ToW16 (a + b)"

section \<open>Macros\<close>

definition WEBRTC_SPL_WORD32_MAX :: int where "WEBRTC_SPL_WORD32_MAX = 0x7fffffff"

definition WEBRTC_SPL_WORD32_MIN :: int where "WEBRTC_SPL_WORD32_MIN = - 0x80000000"

text \<open>\<open>WEBRTC_SPL_ABS_W32\<close>: the negation of the least value overflows.\<close>

definition WEBRTC_SPL_ABS_W32 :: "int \<Rightarrow> int option" where
  "WEBRTC_SPL_ABS_W32 a = (if s32 a \<ge> 0 then Some (s32 a) else chk32 (- s32 a))"

definition WEBRTC_SPL_UMUL_32_16 :: "int \<Rightarrow> int \<Rightarrow> int" where
  "WEBRTC_SPL_UMUL_32_16 a b = u32 (u32 a * u16 b)"

definition WEBRTC_SPL_UMUL :: "int \<Rightarrow> int \<Rightarrow> int" where
  "WEBRTC_SPL_UMUL a b = u32 (u32 a * u32 b)"

definition WEBRTC_SPL_MUL_16_U16 :: "int \<Rightarrow> int \<Rightarrow> int option" where
  "WEBRTC_SPL_MUL_16_U16 a b = chk32 (s16 a * u16 b)"

text \<open>\<open>WEBRTC_SPL_SHIFT_W32\<close>: a positive count multiplies by \<open>1 << c\<close>, a negative one shifts right.\<close>

definition WEBRTC_SPL_SHIFT_W32 :: "int \<Rightarrow> int \<Rightarrow> int option" where
  "WEBRTC_SPL_SHIFT_W32 x c =
     (if c \<ge> 0 then do { m \<leftarrow> shl32 1 c; chk32 (x * m) } else sar32 x (- c))"

text \<open>
  \<open>WEBRTC_SPL_SCALEDIFF32\<close>, as assigned to an \<open>int32_t\<close>: the low product and the final sum
  are unsigned.
\<close>

definition WEBRTC_SPL_SCALEDIFF32 :: "int \<Rightarrow> int \<Rightarrow> int \<Rightarrow> int option" where
  "WEBRTC_SPL_SCALEDIFF32 A B C = do {
     hi \<leftarrow> chk32 ((B div 2 ^ 16) * A);
     acc \<leftarrow> chk32 (C + hi);
     Some (s32 (u32 (acc + u32 (u32 (B AND 0x0000FFFF) * A) div 2 ^ 16)))
   }"

definition kResampleAllpass1 :: "int list" where "kResampleAllpass1 = [3284, 24441, 49528]"

definition kResampleAllpass2 :: "int list" where "kResampleAllpass2 = [12199, 37471, 60255]"

section \<open>Guarded division\<close>

definition WebRtcSpl_DivW32W16ResW16 :: "int \<Rightarrow> int \<Rightarrow> int option" where
  "WebRtcSpl_DivW32W16ResW16 num den =
     (if den \<noteq> 0 then do { q \<leftarrow> div32 num den; Some (s16 q) } else Some 0x7FFF)"

definition WebRtcSpl_DivW32W16 :: "int \<Rightarrow> int \<Rightarrow> int option" where
  "WebRtcSpl_DivW32W16 num den = (if den \<noteq> 0 then div32 num den else Some 0x7FFFFFFF)"

section \<open>Square root\<close>

definition WebRtcSpl_SqrtLocal :: "int \<Rightarrow> int option" where
  "WebRtcSpl_SqrtLocal inp = do {
     B \<leftarrow> div32 inp 2;
     B \<leftarrow> chk32 (B - 0x40000000);
     let x_half = s16 (B div 2 ^ 16);
     B \<leftarrow> chk32 (B + 0x40000000);
     B \<leftarrow> chk32 (B + 0x40000000);
     x2 \<leftarrow> chk32 (x_half * x_half);
     x2 \<leftarrow> chk32 (x2 * 2);
     A \<leftarrow> chk32 (- x2);
     B \<leftarrow> chk32 (B + A div 2);
     let A = A div 2 ^ 16;
     A \<leftarrow> chk32 (A * A);
     A \<leftarrow> chk32 (A * 2);
     let t16 = s16 (A div 2 ^ 16);
     p \<leftarrow> chk32 (-20480 * t16);
     p \<leftarrow> chk32 (p * 2);
     B \<leftarrow> chk32 (B + p);
     A \<leftarrow> chk32 (x_half * t16);
     A \<leftarrow> chk32 (A * 2);
     let t16 = s16 (A div 2 ^ 16);
     p \<leftarrow> chk32 (28672 * t16);
     p \<leftarrow> chk32 (p * 2);
     B \<leftarrow> chk32 (B + p);
     let t16 = s16 (x2 div 2 ^ 16);
     A \<leftarrow> chk32 (x_half * t16);
     A \<leftarrow> chk32 (A * 2);
     B \<leftarrow> chk32 (B + A div 2);
     chk32 (B + 32768)
   }"

text \<open>The absolute value the square root works on: the least value is mapped to the greatest.\<close>

definition sqrt_magnitude :: "int \<Rightarrow> int option" where
  "sqrt_magnitude A =
     (if A < 0 then (if A = WEBRTC_SPL_WORD32_MIN then Some WEBRTC_SPL_WORD32_MAX else chk32 (- A))
      else Some A)"

definition sqrt_normalized :: "int \<Rightarrow> int \<Rightarrow> int option" where
  "sqrt_normalized A sh = do {
     A \<leftarrow> shl32 A sh;
     A \<leftarrow> (if A < WEBRTC_SPL_WORD32_MAX - 32767 then chk32 (A + 32768)
          else Some WEBRTC_SPL_WORD32_MAX);
     Some (s16 (A div 2 ^ 16))
   }"

text \<open>The scaling by \<open>1/sqrt 2\<close> for an even shift and the removal of the normalisation.\<close>

definition sqrt_finish :: "int \<Rightarrow> int \<Rightarrow> int \<Rightarrow> int option" where
  "sqrt_finish A sh nshift = do {
     A \<leftarrow> (if 2 * nshift = sh then do {
            let t16 = s16 (A div 2 ^ 16);
            A \<leftarrow> chk32 (23170 * t16);
            A \<leftarrow> chk32 (A * 2);
            A \<leftarrow> chk32 (A + 32768);
            let A = A AND 0x7fff0000;
            Some (A div 2 ^ 15)
          } else Some (A div 2 ^ 16));
     let A = A AND 0x0000ffff;
     sar32 A nshift
   }"

definition WebRtcSpl_Sqrt :: "int \<Rightarrow> int option" where
  "WebRtcSpl_Sqrt value = do {
     A \<leftarrow> sqrt_magnitude value;
     if A = 0 then Some 0
     else do {
       let sh = WebRtcSpl_NormW32 A;
       x_norm \<leftarrow> sqrt_normalized A sh;
       let nshift = s16 (sh sdiv 2);
       if nshift < 0 then Some (-1)
       else do {
         A \<leftarrow> shl32 x_norm 16;
         A \<leftarrow> WEBRTC_SPL_ABS_W32 A;
         A \<leftarrow> WebRtcSpl_SqrtLocal A;
         sqrt_finish A sh nshift
       }
     }
   }"

section \<open>Memory and the allpass downsampler\<close>

definition WebRtcSpl_MemSetW32 :: "int list \<Rightarrow> int \<Rightarrow> nat \<Rightarrow> int list option" where
  "WebRtcSpl_MemSetW32 ptr set_value len = foldM (\<lambda>j arr. wr arr (int j) set_value) [0..<len] ptr"

text \<open>
  One allpass channel of the downsampler: three first-order sections in cascade. The four
  registers hold the previous input and the previous output of each section; the previous
  output of a section is the previous input of the next.
\<close>

type_synonym allpass_state = "int \<times> int \<times> int \<times> int"

fun allpass_channel :: "int list \<Rightarrow> allpass_state \<Rightarrow> int \<Rightarrow> allpass_state option" where
  "allpass_channel k (state0, state1, state2, state3) in32 = do {
     k0 \<leftarrow> rd k 0; k1 \<leftarrow> rd k 1; k2 \<leftarrow> rd k 2;
     diff \<leftarrow> chk32 (in32 - state1);
     tmp1 \<leftarrow> WEBRTC_SPL_SCALEDIFF32 k0 diff state0;
     diff \<leftarrow> chk32 (tmp1 - state2);
     tmp2 \<leftarrow> WEBRTC_SPL_SCALEDIFF32 k1 diff state1;
     diff \<leftarrow> chk32 (tmp2 - state3);
     out \<leftarrow> WEBRTC_SPL_SCALEDIFF32 k2 diff state2;
     Some (in32, tmp1, tmp2, out)
   }"

text \<open>One iteration: two input samples, one output sample.\<close>

definition downsample_iter ::
  "int \<Rightarrow> int \<Rightarrow> allpass_state \<times> allpass_state \<Rightarrow> (int \<times> allpass_state \<times> allpass_state) option" where
  "downsample_iter in0 in1 st = do {
     x0 \<leftarrow> chk32 (in0 * 1024);
     lower \<leftarrow> allpass_channel kResampleAllpass2 (fst st) x0;
     x1 \<leftarrow> chk32 (in1 * 1024);
     upper \<leftarrow> allpass_channel kResampleAllpass1 (snd st) x1;
     acc \<leftarrow> chk32 (snd (snd (snd lower)) + snd (snd (snd upper)));
     acc \<leftarrow> chk32 (acc + 1024);
     Some (WebRtcSpl_SatW32ToW16 (acc div 2 ^ 11), lower, upper)
   }"

text \<open>The loop over \<open>len >> 1\<close> pairs; the input pointer advances by destructuring the input.\<close>

fun downsample_loop ::
  "nat \<Rightarrow> int list \<Rightarrow> allpass_state \<times> allpass_state
   \<Rightarrow> (int list \<times> allpass_state \<times> allpass_state) option" where
  "downsample_loop 0 inp st = Some ([], st)"
| "downsample_loop (Suc i) (in0 # in1 # inp) st = do {
     (out, st') \<leftarrow> downsample_iter in0 in1 st;
     (outs, st'') \<leftarrow> downsample_loop i inp st';
     Some (out # outs, st'')
   }"
| "downsample_loop (Suc i) inp st = None"

fun WebRtcSpl_DownsampleBy2 :: "int list \<Rightarrow> nat \<Rightarrow> int list \<Rightarrow> (int list \<times> int list) option" where
  "WebRtcSpl_DownsampleBy2 inp len [s0, s1, s2, s3, s4, s5, s6, s7] = do {
     (outs, (t0, t1, t2, t3), (t4, t5, t6, t7)) \<leftarrow>
       downsample_loop (len div 2) inp ((s0, s1, s2, s3), (s4, s5, s6, s7));
     Some (outs, [t0, t1, t2, t3, t4, t5, t6, t7])
   }"
| "WebRtcSpl_DownsampleBy2 inp len filtState = None"

section \<open>Dot product\<close>

definition dot_term :: "int list \<Rightarrow> int list \<Rightarrow> int \<Rightarrow> nat \<Rightarrow> int \<Rightarrow> int option" where
  "dot_term vector1 vector2 scaling i acc = do {
     a \<leftarrow> rd vector1 (int i);
     b \<leftarrow> rd vector2 (int i);
     p \<leftarrow> chk32 (a * b);
     p \<leftarrow> sar32 p scaling;
     chk64 (acc + p)
   }"

text \<open>The loop unrolled four times; it returns the index where it stopped.\<close>

function dot_unrolled :: "int list \<Rightarrow> int list \<Rightarrow> nat \<Rightarrow> int \<Rightarrow> nat \<Rightarrow> int \<Rightarrow> (nat \<times> int) option" where
  "dot_unrolled vector1 vector2 len scaling i acc =
     (if i + 3 < len then do {
        acc \<leftarrow> dot_term vector1 vector2 scaling (i + 0) acc;
        acc \<leftarrow> dot_term vector1 vector2 scaling (i + 1) acc;
        acc \<leftarrow> dot_term vector1 vector2 scaling (i + 2) acc;
        acc \<leftarrow> dot_term vector1 vector2 scaling (i + 3) acc;
        dot_unrolled vector1 vector2 len scaling (i + 4) acc
      } else Some (i, acc))"
  by pat_completeness auto
termination
  by (relation "measure (\<lambda>(_, _, len, _, i, _). len - i)") auto

declare dot_unrolled.simps [simp del]

definition WebRtcSpl_DotProductWithScale :: "int list \<Rightarrow> int list \<Rightarrow> nat \<Rightarrow> int \<Rightarrow> int option" where
  "WebRtcSpl_DotProductWithScale vector1 vector2 len scaling = do {
     (i, acc) \<leftarrow> dot_unrolled vector1 vector2 len scaling 0 0;
     acc \<leftarrow> foldM (dot_term vector1 vector2 scaling) [i..<len] acc;
     Some (if acc > WEBRTC_SPL_WORD32_MAX then WEBRTC_SPL_WORD32_MAX
           else if acc < WEBRTC_SPL_WORD32_MIN then WEBRTC_SPL_WORD32_MIN
           else s32 acc)
   }"


section \<open>Bit counting lemmas\<close>

lemma bitlen_range:
  assumes "0 < n" "n < 2 ^ w"
  shows "1 \<le> bitlen n" "bitlen n \<le> int w"
  using assms bitlen_le_iff_power [of n "int w"] bitlen_eq_zero_iff [of n] bitlen_nonneg [of n]
  by auto

lemma bitlen_normalizes:
  assumes "0 < n" "n < 2 ^ w"
  shows "2 ^ w \<le> 2 * (n * 2 ^ nat (int w - bitlen n))" "n * 2 ^ nat (int w - bitlen n) < 2 ^ w"
proof -
  define b where "b = nat (bitlen n)"
  have b: "1 \<le> b" "b \<le> w" "bitlen n = int b"
    using bitlen_range [OF assms] by (auto simp: b_def)
  have lo: "2 ^ (b - 1) \<le> n" and hi: "n < 2 ^ b"
    using bitlen_bounds [OF assms(1)] b by (auto simp: nat_diff_distrib')
  have w: "nat (int w - bitlen n) = w - b"
    using b by simp
  have "(2::int) ^ w = 2 * (2 ^ (b - 1) * 2 ^ (w - b))"
    using b by (simp flip: power_add power_Suc)
  also have "\<dots> \<le> 2 * (n * 2 ^ (w - b))"
    using lo by simp
  finally show "2 ^ w \<le> 2 * (n * 2 ^ nat (int w - bitlen n))"
    using w by simp
  have "n * 2 ^ (w - b) < 2 ^ b * 2 ^ (w - b)"
    using hi by simp
  also have "\<dots> = 2 ^ w"
    using b by (simp flip: power_add)
  finally show "n * 2 ^ nat (int w - bitlen n) < 2 ^ w"
    using w by simp
qed

lemma NormU32_eq: "0 < a \<Longrightarrow> a \<le> 4294967295 \<Longrightarrow> WebRtcSpl_NormU32 a = 32 - bitlen a"
  using bitlen_range [of a 32]
  by (simp add: WebRtcSpl_NormU32_def WebRtcSpl_CountLeadingZeros32_def s16_id in_s16_def)

lemma NormU32_bounds:
  assumes "0 < a" "a \<le> 4294967295"
  shows "0 \<le> WebRtcSpl_NormU32 a" "WebRtcSpl_NormU32 a \<le> 31"
    "2147483648 \<le> a * 2 ^ nat (WebRtcSpl_NormU32 a)" "a * 2 ^ nat (WebRtcSpl_NormU32 a) \<le> 4294967295"
  using bitlen_range [of a 32] bitlen_normalizes [of a 32] assms by (auto simp: NormU32_eq)

lemma NormU32_small:
  assumes "0 < a" "a < 2 ^ w" "w \<le> 32"
  shows "32 - int w \<le> WebRtcSpl_NormU32 a"
proof -
  have "a \<le> 4294967295"
    using assms power_increasing [of w 32 "2::int"] by simp
  with assms bitlen_range [of a w] show ?thesis
    by (simp add: NormU32_eq)
qed

lemma NormW32_pos_eq: "0 < a \<Longrightarrow> a \<le> 2147483647 \<Longrightarrow> WebRtcSpl_NormW32 a = 31 - bitlen a"
  using bitlen_range [of a 31]
  by (simp add: WebRtcSpl_NormW32_def WebRtcSpl_CountLeadingZeros32_def s16_id in_s16_def
      u32_id in_u32_def)

lemma NormW32_pos:
  assumes "0 < a" "a \<le> 2147483647"
  shows "0 \<le> WebRtcSpl_NormW32 a" "WebRtcSpl_NormW32 a \<le> 30"
    "1073741824 \<le> a * 2 ^ nat (WebRtcSpl_NormW32 a)" "a * 2 ^ nat (WebRtcSpl_NormW32 a) \<le> 2147483647"
  using bitlen_range [of a 31] bitlen_normalizes [of a 31] assms by (auto simp: NormW32_pos_eq)

lemma NormW32_abs:
  assumes "1 < \<bar>a\<bar>" "in_s32 a"
  shows "0 \<le> WebRtcSpl_NormW32 a" "WebRtcSpl_NormW32 a \<le> 30"
    "1073741824 \<le> \<bar>a\<bar> * 2 ^ nat (WebRtcSpl_NormW32 a)" "in_s32 (a * 2 ^ nat (WebRtcSpl_NormW32 a))"
proof -
  define z where "z = WebRtcSpl_NormW32 a"
  have "0 \<le> z \<and> z \<le> 30 \<and> 1073741824 \<le> \<bar>a\<bar> * 2 ^ nat z \<and> in_s32 (a * 2 ^ nat z)"
  proof (cases "0 < a")
    case True
    with NormW32_pos [of a] assms show ?thesis
      by (auto simp: z_def in_s32_def)
  next
    case False
    define n where "n = - a - 1"
    have n: "0 < n" "n \<le> 2147483647" using False assms by (auto simp: n_def in_s32_def)
    have z: "z = WebRtcSpl_NormW32 n"
      using False n assms(1) by (simp add: z_def WebRtcSpl_NormW32_def n_def not_eq_complement)
    define b where "b = nat (bitlen n)"
    have b: "bitlen n = int b" "b \<le> 31" "n < 2 ^ b"
      using bitlen_range [of n 31] bitlen_bounds [of n] n by (auto simp: b_def)
    have "n + 1 \<le> 2 ^ b" using b by simp
    then have "(n + 1) * 2 ^ (31 - b) \<le> 2 ^ b * 2 ^ (31 - b)" by (intro mult_right_mono) auto
    also have "\<dots> = 2147483648" using b by (simp flip: power_add)
    finally have "(n + 1) * 2 ^ nat z \<le> 2147483648"
      using z b n NormW32_pos_eq [of n] by (simp add: nat_diff_distrib')
    moreover define P where "P = (2::int) ^ nat z"
    ultimately have "- a * P \<le> 2147483648" "1073741824 \<le> n * P" "0 < P"
      using NormW32_pos [OF n] z by (simp_all add: n_def P_def)
    moreover have "n * P \<le> - a * P" using \<open>0 < P\<close> by (simp add: n_def algebra_simps)
    moreover have "0 \<le> - a * P" using \<open>0 < P\<close> False by (intro mult_nonneg_nonneg) auto
    ultimately show ?thesis
      using NormW32_pos [OF n] False by (simp add: P_def [symmetric] in_s32_def) (simp add: z)
  qed
  then show "0 \<le> WebRtcSpl_NormW32 a" "WebRtcSpl_NormW32 a \<le> 30"
    "1073741824 \<le> \<bar>a\<bar> * 2 ^ nat (WebRtcSpl_NormW32 a)" "in_s32 (a * 2 ^ nat (WebRtcSpl_NormW32 a))"
    by (simp_all add: z_def)
qed

lemma SatW32ToW16_clamp: "WebRtcSpl_SatW32ToW16 x = max (-32768) (min 32767 x)"
  by (auto simp: WebRtcSpl_SatW32ToW16_def s16_id in_s16_def)

lemma SatW32ToW16_range [simp]: "in_s16 (WebRtcSpl_SatW32ToW16 x)"
  by (auto simp: SatW32ToW16_clamp in_s16_def)

section \<open>Square root lemmas\<close>

text \<open>
  The polynomial for an argument \<open>x_norm * 2 ^ 16\<close> with \<open>x_norm\<close> normalised: no step
  overflows, and the result is again an \<open>int32_t\<close> whose high half is positive.
\<close>

lemma SqrtLocal_runs:
  assumes "16384 \<le> x" "x \<le> 32767"
  shows "runs (WebRtcSpl_SqrtLocal (x * 65536)) (\<lambda>r. 1073741824 \<le> r \<and> r \<le> 2147483647)"
proof -
  define h where "h = (x - 32768) div 2"
  have h: "-8192 \<le> h" "h \<le> -1"
    using assms by (auto simp: h_def)
  have div2: "(x * 65536) sdiv 2 = x * 32768"
    using assms by (simp add: sdiv_nonneg)
  have hdiv: "(x * 32768 - 1073741824) div 65536 = h"
    unfolding h_def using div_mult_mult2 [of 32768 "x - 32768" 2] by (simp add: left_diff_distrib)
  have h2: "x - 32768 - 1 \<le> 2 * h" "2 * h \<le> x - 32768"
    unfolding h_def by linarith+
  have h16: "s16 h = h"
    using h by (simp add: s16_id in_s16_def)
  define q where "q = h * h"
  have q: "1 \<le> q" "q \<le> 67108864"
    using h square_bounds [of 8192 h] zero_less_mult_iff [of h h] by (auto simp: q_def)
  have xq: "x * 32768 \<le> 1073741824 + h * 65536 + 32768"
    using h2 by linarith
  define a where "a = - (q * 2) div 65536"
  have a: "-2048 \<le> a" "a \<le> -1"
    using q by (auto simp: a_def)
  define s where "s = a * a"
  have s: "0 \<le> s" "s \<le> 4194304"
    using a square_bounds [of 2048 a] by (auto simp: s_def)
  define t where "t = s div 32768"
  have t: "0 \<le> t" "t \<le> 128"
    using s by (auto simp: t_def pos_imp_zdiv_nonneg_iff)
  have ht: "-1048576 \<le> h * t" "h * t \<le> 0"
    using h t mult_mono [of "- h" 8192 t 128] by (auto simp: mult_nonpos_nonneg)
  define t2 where "t2 = h * t div 32768"
  have t2: "-32 \<le> t2" "t2 \<le> 0"
    using ht by (auto simp: t2_def)
  define t3 where "t3 = q div 32768"
  have t3: "0 \<le> t3" "t3 \<le> 2048"
    using q by (auto simp: t3_def)
  have ht3: "-16777216 \<le> h * t3" "h * t3 \<le> 0"
    using h t3 mult_mono [of "- h" 8192 t3 2048] by (auto simp: mult_nonpos_nonneg)
  have qd: "- (q * 2) div 2 = - q"
    by simp
  have s16s: "s16 t = t" "s16 t2 = t2" "s16 t3 = t3"
    using t t2 t3 by (simp_all add: s16_id in_s16_def)
  show ?thesis
    unfolding WebRtcSpl_SqrtLocal_def
    by (simp add: runs_simps div2 hdiv h16 a_def [symmetric] s_def [symmetric] q_def [symmetric]
        t_def [symmetric] t2_def [symmetric] t3_def [symmetric] s16s qd)
      (use assms h q xq s t ht t2 t3 ht3 in \<open>simp add: in_s32_def\<close>)
qed

lemma sqrt_magnitude_runs:
  "in_s32 v \<Longrightarrow> runs (sqrt_magnitude v) (\<lambda>A. 0 \<le> A \<and> A \<le> 2147483647 \<and> (A = 0 \<longleftrightarrow> v = 0))"
  by (auto simp: sqrt_magnitude_def runs_simps WEBRTC_SPL_WORD32_MIN_def WEBRTC_SPL_WORD32_MAX_def
      in_s32_def)

lemma sqrt_normalized_runs:
  assumes "0 < A" "A \<le> 2147483647"
  shows "runs (sqrt_normalized A (WebRtcSpl_NormW32 A)) (\<lambda>x. 16384 \<le> x \<and> x \<le> 32767)"
proof -
  define B where "B = A * 2 ^ nat (WebRtcSpl_NormW32 A)"
  have B: "1073741824 \<le> B" "B \<le> 2147483647"
    using NormW32_pos [OF assms] by (simp_all add: B_def)
  define C where "C = (if B < 2147450880 then B + 32768 else 2147483647)"
  have C: "1073741824 \<le> C" "C \<le> 2147483647"
    using B by (simp_all add: C_def)
  then have x: "16384 \<le> C div 65536" "C div 65536 \<le> 32767"
    by linarith+
  have "runs (shl32 A (WebRtcSpl_NormW32 A)) (\<lambda>r. r = B)"
    using NormW32_pos [OF assms] assms by (simp add: runs_simps in_s32_def B_def)
  moreover have "runs (if B < WEBRTC_SPL_WORD32_MAX - 32767 then chk32 (B + 32768)
      else Some WEBRTC_SPL_WORD32_MAX) (\<lambda>r. r = C)"
    using B by (simp add: runs_simps in_s32_def WEBRTC_SPL_WORD32_MAX_def C_def)
  moreover have "s16 (C div 65536) = C div 65536"
    using x by (intro s16_small) auto
  ultimately show ?thesis
    using x unfolding sqrt_normalized_def by (auto intro!: runs_seq simp: runs_Some)
qed

lemma and_0x7fff0000: "0 \<le> x \<Longrightarrow> x \<le> 2147483647 \<Longrightarrow> x AND 2147418112 = x div 65536 * 65536" for x :: int
  using and_high_mask [of x 15 16] by simp

lemma sqrt_finish_runs:
  assumes "1073741824 \<le> A" "A \<le> 2147483647" "0 \<le> nshift" "nshift < 32"
  shows "runs (sqrt_finish A sh nshift) (\<lambda>r. 0 \<le> r \<and> r \<le> 46338)"
proof -
  define t where "t = A div 65536"
  have t: "16384 \<le> t" "t \<le> 32767"
    using assms by (auto simp: t_def)
  then have s16t: "s16 t = t"
    by (simp add: s16_small)
  have q: "0 \<le> (46340 * t + 32768) div 65536" "(46340 * t + 32768) div 65536 \<le> 23169"
    using t by linarith+
  have last: "runs (let A = A AND 65535 in sar32 A nshift) (\<lambda>r. 0 \<le> r \<and> r \<le> 46338)"
    if "0 \<le> A \<and> A \<le> 46338" for A
    using that assms div_power_bounds [of A 46338 "nat nshift"] by (simp add: runs_simps and_masks)
  show ?thesis
    unfolding sqrt_finish_def
  proof (rule runs_seq [OF _ last])
    show "runs (if 2 * nshift = sh then do {
            let t16 = s16 (A div 2 ^ 16);
            A \<leftarrow> chk32 (23170 * t16);
            A \<leftarrow> chk32 (A * 2);
            A \<leftarrow> chk32 (A + 32768);
            let A = A AND 0x7fff0000;
            Some (A div 2 ^ 15)
          } else Some (A div 2 ^ 16)) (\<lambda>r. 0 \<le> r \<and> r \<le> 46338)"
      using t s16t q by (simp add: runs_simps t_def [symmetric] in_s32_def and_0x7fff0000)
  qed
qed

lemma Sqrt_runs:
  assumes "in_s32 v"
  shows "runs (WebRtcSpl_Sqrt v) (\<lambda>r. 0 \<le> r \<and> r \<le> 46338)"
  unfolding WebRtcSpl_Sqrt_def
proof (rule runs_seq [OF sqrt_magnitude_runs [OF assms]], goal_cases)
  case (1 A)
  show ?case
  proof (cases "A = 0")
    case True
    then show ?thesis by (simp add: runs_simps)
  next
    case False
    with 1 have A: "0 < A" "A \<le> 2147483647" by auto
    define sh where "sh = WebRtcSpl_NormW32 A"
    have sh: "0 \<le> sh" "sh \<le> 30"
      using NormW32_pos [OF A] by (simp_all add: sh_def)
    define n where "n = s16 (sh sdiv 2)"
    have n: "0 \<le> n" "n < 32"
      using sh s16_small [of "sh div 2"] by (simp_all add: n_def sdiv_nonneg)
    have x: "runs (sqrt_normalized A sh) (\<lambda>x. 16384 \<le> x \<and> x \<le> 32767)"
      using sqrt_normalized_runs [OF A] by (simp add: sh_def)
    have "runs (do { A \<leftarrow> shl32 x 16; A \<leftarrow> WEBRTC_SPL_ABS_W32 A; A \<leftarrow> WebRtcSpl_SqrtLocal A;
            sqrt_finish A sh n }) (\<lambda>r. 0 \<le> r \<and> r \<le> 46338)"
      if "16384 \<le> x \<and> x \<le> 32767" for x
      using that n SqrtLocal_runs [of x]
      by (auto simp: runs_simps WEBRTC_SPL_ABS_W32_def s32_small in_s32_def
          intro!: sqrt_finish_runs elim!: runs_mono)
    then show ?thesis
      using False n by (auto simp: sh_def [symmetric] n_def [symmetric] intro!: runs_seq [OF x])
  qed
qed

section \<open>The allpass sections\<close>

text \<open>
  The multiply-accumulate of a section computes \<open>C + floor (A * B / 2 ^ 16)\<close> exactly as long
  as its signed intermediate values fit.
\<close>

lemma SCALEDIFF32_runs:
  assumes A: "0 \<le> A" "A < 65536"
    and hi: "in_s32 ((B div 65536) * A)" "in_s32 (C + (B div 65536) * A)"
    and res: "in_s32 (C + (B * A) div 65536)"
  shows "runs (WEBRTC_SPL_SCALEDIFF32 A B C) (\<lambda>r. r = C + (B * A) div 65536)"
proof -
  have m: "0 \<le> B mod 65536" "B mod 65536 \<le> 65535"
    using pos_mod_bound [of 65536 B] by auto
  have p: "0 \<le> B mod 65536 * A" "B mod 65536 * A \<le> 65535 * 65535"
    using m A mult_mono [of "B mod 65536" 65535 A 65535] by auto
  then have u: "u32 (B mod 65536 * A) = B mod 65536 * A"
    by (intro u32_id) (simp add: in_u32_def)
  have v: "u32 (B mod 65536) = B mod 65536"
    using m by (intro u32_id) (simp add: in_u32_def)
  have "C + (B div 65536) * A + (B mod 65536 * A) div 65536 = C + (B * A) div 65536"
    using split_mult_div [of 65536 B A] by simp
  then have "s32 (C + (B div 65536) * A + (B mod 65536 * A) div 65536) = C + (B * A) div 65536"
    by (simp only: s32_id [OF res])
  with hi show ?thesis
    by (simp add: WEBRTC_SPL_SCALEDIFF32_def runs_simps and_masks u v)
qed

text \<open>
  The state \<open>(x, y)\<close> of a section: its previous input and output. The third conjunct bounds
  the section's internal memory; it is what makes the bound on \<open>y\<close> inductive.
\<close>

definition section_inv :: "int \<Rightarrow> int \<Rightarrow> int \<Rightarrow> int \<Rightarrow> int \<Rightarrow> int \<Rightarrow> bool" where
  "section_inv A M V K x y \<longleftrightarrow> \<bar>x\<bar> \<le> M \<and> \<bar>y\<bar> \<le> K \<and> \<bar>65536 * x - A * y\<bar> \<le> V"

locale allpass_section =
  fixes A M V K :: int
  assumes coefficient: "0 < A" "A < 65536"
    and bounds_nonneg: "0 \<le> M" "0 \<le> V" "0 \<le> K"
    and contraction: "(65536 * 65536 - A * A) * M + A * V + 65536 * A \<le> 65536 * V"
    and gain: "A * M + V \<le> 65536 * K"
    and headroom: "2 * M + K + 131072 \<le> 2147483647"
begin

lemma diff_fits: "section_inv A M V K x y \<Longrightarrow> \<bar>x'\<bar> \<le> M \<Longrightarrow> in_s32 (x' - y)"
  using headroom bounds_nonneg by (auto simp: section_inv_def in_s32_def abs_le_iff)

lemma high_product_fits:
  assumes "\<bar>d\<bar> \<le> M + K"
  shows "\<bar>d div 65536 * A\<bar> \<le> M + K + 65536"
proof -
  define q where "q = d div 65536"
  have q: "65536 * q \<le> d" "d < 65536 * q + 65536"
    unfolding q_def by linarith+
  have "\<bar>q * A\<bar> \<le> \<bar>q\<bar> * 65536"
    using coefficient mult_left_mono [of A 65536 "\<bar>q\<bar>"] by (simp add: abs_mult)
  also have "\<dots> \<le> M + K + 65536"
    using q assms by linarith
  finally show ?thesis by (simp add: q_def)
qed

text \<open>The new output and the new memory, from the old memory \<open>v\<close> and the new input \<open>x'\<close>.\<close>

lemma memory_bound:
  assumes "\<bar>x'\<bar> \<le> M" "\<bar>v\<bar> \<le> V" "y' = (A * x' + v) div 65536"
  shows "\<bar>y'\<bar> \<le> K" "\<bar>65536 * x' - A * y'\<bar> \<le> V"
proof -
  have ax: "\<bar>A * x'\<bar> \<le> A * M"
    using coefficient assms(1) by (simp add: abs_mult)
  show "\<bar>y'\<bar> \<le> K"
    using div_bounds [of K 65536 "A * x' + v"] ax assms(2,3) gain by (auto simp: abs_le_iff)
  define e where "e = A * x' + v - 65536 * y'"
  have e: "0 \<le> e" "e \<le> 65535"
    unfolding e_def assms(3) by linarith+
  have "65536 * (65536 * x' - A * y') = (65536 * 65536 - A * A) * x' - A * v + A * e"
    by (simp add: e_def algebra_simps)
  moreover have "\<bar>(65536 * 65536 - A * A) * x'\<bar> \<le> (65536 * 65536 - A * A) * M"
  proof -
    have "A * A \<le> 65536 * 65536"
      using coefficient by (intro mult_mono) auto
    then show ?thesis
      using assms(1) by (simp add: abs_mult mult_left_mono)
  qed
  moreover have "\<bar>A * v\<bar> \<le> A * V"
    using coefficient assms(2) by (simp add: abs_mult)
  moreover have "0 \<le> A * e" "A * e \<le> A * 65536"
    using coefficient e by (auto intro: mult_left_mono)
  ultimately have "\<bar>65536 * (65536 * x' - A * y')\<bar> \<le> 65536 * V"
    using contraction by linarith
  then show "\<bar>65536 * x' - A * y'\<bar> \<le> V"
    by (simp add: abs_mult)
qed

lemma section_step:
  assumes inv: "section_inv A M V K x y" and x': "\<bar>x'\<bar> \<le> M"
  shows "runs (WEBRTC_SPL_SCALEDIFF32 A (x' - y) x) (section_inv A M V K x')"
proof -
  have x: "\<bar>x\<bar> \<le> M" and y: "\<bar>y\<bar> \<le> K" and v: "\<bar>65536 * x - A * y\<bar> \<le> V"
    using inv by (auto simp: section_inv_def)
  define y' where "y' = x + (x' - y) * A div 65536"
  have eq: "y' = (A * x' + (65536 * x - A * y)) div 65536"
    using div_mult_self2 [of 65536 "(x' - y) * A" x] by (simp add: y'_def algebra_simps)
  note new = memory_bound [OF x' v eq]
  have hi: "\<bar>(x' - y) div 65536 * A\<bar> \<le> M + K + 65536"
    using x' y by (intro high_product_fits) auto
  have "runs (WEBRTC_SPL_SCALEDIFF32 A (x' - y) x) (\<lambda>r. r = x + (x' - y) * A div 65536)"
  proof (rule SCALEDIFF32_runs)
    show "in_s32 (x + (x' - y) * A div 65536)"
      using new(1) headroom bounds_nonneg unfolding y'_def [symmetric] by (auto simp: in_s32_def)
  qed (use hi x headroom coefficient bounds_nonneg in \<open>auto simp: in_s32_def\<close>)
  then show ?thesis
    by (rule runs_mono) (use new x' in \<open>simp add: section_inv_def y'_def\<close>)
qed

end

text \<open>
  The six sections of the downsampler. An input sample is scaled by \<open>2 ^ 10\<close>, so \<open>2 ^ 25\<close>
  bounds the first input of a channel; each section's output bound is the next one's input
  bound.
\<close>

interpretation lower0: allpass_section 12199 33554432 2608353786510 46046209
  by unfold_locales simp_all

interpretation lower1: allpass_section 37471 46046209 4743081937964 98701164
  by unfold_locales simp_all

interpretation lower2: allpass_section 60255 98701164 12415718868475 280196496
  by unfold_locales simp_all

interpretation upper0: allpass_section 3284 33554432 2309216013698 36917249
  by unfold_locales simp_all

interpretation upper1: allpass_section 24441 36917249 3321703352251 64453092
  by unfold_locales simp_all

interpretation upper2: allpass_section 49528 64453092 7416230780654 161872308
  by unfold_locales simp_all

fun lower_inv :: "allpass_state \<Rightarrow> bool" where
  "lower_inv (s0, s1, s2, s3) \<longleftrightarrow>
     section_inv 12199 33554432 2608353786510 46046209 s0 s1
   \<and> section_inv 37471 46046209 4743081937964 98701164 s1 s2
   \<and> section_inv 60255 98701164 12415718868475 280196496 s2 s3"

fun upper_inv :: "allpass_state \<Rightarrow> bool" where
  "upper_inv (s0, s1, s2, s3) \<longleftrightarrow>
     section_inv 3284 33554432 2309216013698 36917249 s0 s1
   \<and> section_inv 24441 36917249 3321703352251 64453092 s1 s2
   \<and> section_inv 49528 64453092 7416230780654 161872308 s2 s3"

lemma section_inv_output: "section_inv A M V K x y \<Longrightarrow> \<bar>y\<bar> \<le> K"
  by (simp add: section_inv_def)

lemma lower_channel_runs:
  assumes "lower_inv st" "\<bar>x\<bar> \<le> 33554432"
  shows "runs (allpass_channel kResampleAllpass2 st x) lower_inv"
proof (cases st)
  case (fields s0 s1 s2 s3)
  with assms have inv: "section_inv 12199 33554432 2608353786510 46046209 s0 s1"
      "section_inv 37471 46046209 4743081937964 98701164 s1 s2"
      "section_inv 60255 98701164 12415718868475 280196496 s2 s3" by auto
  show ?thesis
    unfolding fields
    by (auto simp: runs_simps kResampleAllpass2_def lower0.diff_fits [OF inv(1) assms(2)]
        intro!: runs_mono [OF lower0.section_step [OF inv(1) assms(2)]]
        lower1.diff_fits [OF inv(2)] runs_mono [OF lower1.section_step [OF inv(2)]]
        lower2.diff_fits [OF inv(3)] runs_mono [OF lower2.section_step [OF inv(3)]]
        dest: section_inv_output)
qed

lemma upper_channel_runs:
  assumes "upper_inv st" "\<bar>x\<bar> \<le> 33554432"
  shows "runs (allpass_channel kResampleAllpass1 st x) upper_inv"
proof (cases st)
  case (fields s0 s1 s2 s3)
  with assms have inv: "section_inv 3284 33554432 2309216013698 36917249 s0 s1"
      "section_inv 24441 36917249 3321703352251 64453092 s1 s2"
      "section_inv 49528 64453092 7416230780654 161872308 s2 s3" by auto
  show ?thesis
    unfolding fields
    by (auto simp: runs_simps kResampleAllpass1_def upper0.diff_fits [OF inv(1) assms(2)]
        intro!: runs_mono [OF upper0.section_step [OF inv(1) assms(2)]]
        upper1.diff_fits [OF inv(2)] runs_mono [OF upper1.section_step [OF inv(2)]]
        upper2.diff_fits [OF inv(3)] runs_mono [OF upper2.section_step [OF inv(3)]]
        dest: section_inv_output)
qed

text \<open>The whole filter state, and a bound on what one iteration may add up.\<close>

fun downsample_inv :: "int list \<Rightarrow> bool" where
  "downsample_inv [s0, s1, s2, s3, s4, s5, s6, s7] \<longleftrightarrow>
     lower_inv (s0, s1, s2, s3) \<and> upper_inv (s4, s5, s6, s7)"
| "downsample_inv _ = False"

lemma downsample_inv_zero: "downsample_inv (replicate 8 0)"
  by (simp add: eval_nat_numeral section_inv_def)

lemma downsample_inv_length: "downsample_inv fs \<Longrightarrow> length fs = 8"
  by (cases fs rule: downsample_inv.cases) auto

declare lower_inv.simps [simp del] upper_inv.simps [simp del]

lemma channel_sum_fits:
  assumes "lower_inv (a, b, c, lo)" "upper_inv (d, e, f, up)"
  shows "in_s32 (lo + up)" "in_s32 (lo + up + 1024)"
  using assms by (auto simp: lower_inv.simps upper_inv.simps section_inv_def in_s32_def abs_le_iff)

lemma downsample_iter_runs:
  assumes "in_s16 a" "in_s16 b" "lower_inv (fst st)" "upper_inv (snd st)"
  shows "runs (downsample_iter a b st)
    (\<lambda>(y, st'). in_s16 y \<and> lower_inv (fst st') \<and> upper_inv (snd st'))"
proof -
  have a: "in_s32 (a * 1024)" "\<bar>a * 1024\<bar> \<le> 33554432" and b: "in_s32 (b * 1024)" "\<bar>b * 1024\<bar> \<le> 33554432"
    using assms(1,2) by (auto simp: in_s16_def in_s32_def)
  show ?thesis
    unfolding downsample_iter_def
    by (auto simp: runs_simps a(1) b(1) intro: channel_sum_fits
        intro!: runs_mono [OF lower_channel_runs [OF assms(3) a(2)]]
        runs_mono [OF upper_channel_runs [OF assms(4) b(2)]])
qed

lemma downsample_loop_runs:
  assumes "lower_inv (fst st)" "upper_inv (snd st)" "\<forall>x \<in> set inp. in_s16 x" "2 * i \<le> length inp"
  shows "runs (downsample_loop i inp st)
    (\<lambda>(ys, st'). length ys = i \<and> (\<forall>y \<in> set ys. in_s16 y) \<and> lower_inv (fst st') \<and> upper_inv (snd st'))"
  using assms
proof (induction i inp st rule: downsample_loop.induct)
  case (2 i a b inp st)
  have iter: "runs (downsample_iter a b st)
      (\<lambda>(y, st'). in_s16 y \<and> lower_inv (fst st') \<and> upper_inv (snd st'))"
    using 2 by (intro downsample_iter_runs) auto
  have rest: "runs (downsample_loop i inp st')
      (\<lambda>(ys, st''). length ys = i \<and> (\<forall>y \<in> set ys. in_s16 y) \<and> lower_inv (fst st'') \<and> upper_inv (snd st''))"
    if "downsample_iter a b st = Some (y, st')" "lower_inv (fst st')" "upper_inv (snd st')" for y st'
    using "2.IH" [OF that(1) refl that(2,3)] "2.prems" by simp
  from iter obtain y st' where y: "downsample_iter a b st = Some (y, st')" "in_s16 y"
      "lower_inv (fst st')" "upper_inv (snd st')"
    by (auto simp: runs_def)
  then show ?case
    using rest [OF y(1,3,4)] by (auto simp: runs_def)
qed (auto simp: runs_simps)

text \<open>The contract of the downsampler, on the state array its callers keep.\<close>

lemma DownsampleBy2_runs:
  assumes "downsample_inv fs" "\<forall>x \<in> set inp. in_s16 x" "2 * (len div 2) \<le> length inp"
  shows "runs (WebRtcSpl_DownsampleBy2 inp len fs)
    (\<lambda>(ys, fs'). length ys = len div 2 \<and> (\<forall>y \<in> set ys. in_s16 y) \<and> downsample_inv fs')"
  using assms
proof (induction inp len fs rule: WebRtcSpl_DownsampleBy2.induct)
  case (1 inp len s0 s1 s2 s3 s4 s5 s6 s7)
  then have "runs (downsample_loop (len div 2) inp ((s0, s1, s2, s3), (s4, s5, s6, s7)))
    (\<lambda>(ys, st'). length ys = len div 2 \<and> (\<forall>y \<in> set ys. in_s16 y)
      \<and> lower_inv (fst st') \<and> upper_inv (snd st'))"
    by (intro downsample_loop_runs) auto
  then show ?case
    by (auto simp: runs_def)
qed simp_all

section \<open>The dot product is the saturated sum\<close>

text \<open>The unrolled loop does what a plain loop over the same indices does.\<close>

lemma dot_unrolled_foldM:
  "do { (i', s) \<leftarrow> dot_unrolled v w len sc i acc; foldM (dot_term v w sc) [i'..<len] s }
   = foldM (dot_term v w sc) [i..<len] acc"
proof (induction v w len sc i acc rule: dot_unrolled.induct)
  case (1 v w len sc i acc)
  show ?case
  proof (cases "i + 3 < len")
    case True
    then have "[i..<len] = i # Suc i # Suc (Suc i) # Suc (Suc (Suc i)) # [i + 4..<len]"
      by (simp add: upt_conv_Cons eval_nat_numeral)
    then show ?thesis
      using True 1 [OF True]
      by (subst dot_unrolled.simps) (auto split: bind_split simp: eval_nat_numeral)
  next
    case False
    then show ?thesis
      by (subst dot_unrolled.simps) simp
  qed
qed

lemma dot_foldM_runs:
  assumes "length v = n" "length w = n" "\<forall>x \<in> set v. in_s16 x" "\<forall>x \<in> set w. in_s16 x"
    and "0 \<le> sc" "sc < 32" "n \<le> 1073741824" "k \<le> n"
  shows "runs (foldM (dot_term v w sc) [0..<k] 0)
    (\<lambda>s. s = (\<Sum>i<k. v ! i * w ! i div 2 ^ nat sc) \<and> \<bar>s\<bar> \<le> int k * 1073741824)"
  using \<open>k \<le> n\<close>
proof (induction k)
  case 0
  then show ?case by (simp add: runs_simps)
next
  case (Suc k)
  have vw: "in_s16 (v ! k)" "in_s16 (w ! k)"
    using assms(1-4) Suc.prems by auto
  then have p: "\<bar>v ! k * w ! k\<bar> \<le> 32768 * 32768"
    by (intro abs_mult_le) (auto simp: in_s16_def)
  define t where "t = v ! k * w ! k div 2 ^ nat sc"
  have t: "\<bar>t\<bar> \<le> 1073741824"
    using abs_div_power_le [of "v ! k * w ! k" "nat sc"] p by (simp add: t_def)
  have step: "runs (dot_term v w sc k s) (\<lambda>s'. s' = s + t)" if "\<bar>s\<bar> \<le> int k * 1073741824" for s
    using that assms(1,2,5-7) Suc.prems p t
    by (auto simp: dot_term_def runs_simps t_def [symmetric] in_s32_def in_s64_def abs_le_iff)
  have "runs (dot_term v w sc k s) (\<lambda>s'. s' = (\<Sum>i<Suc k. v ! i * w ! i div 2 ^ nat sc)
      \<and> \<bar>s'\<bar> \<le> int (Suc k) * 1073741824)"
    if "s = (\<Sum>i<k. v ! i * w ! i div 2 ^ nat sc) \<and> \<bar>s\<bar> \<le> int k * 1073741824" for s
    using that t step [of s] by (auto elim!: runs_mono simp: t_def [symmetric] algebra_simps)
  with Suc show ?case
    by (auto simp: foldM_append runs_simps elim!: runs_mono)
qed

lemma DotProductWithScale_runs:
  assumes "length v = n" "length w = n" "\<forall>x \<in> set v. in_s16 x" "\<forall>x \<in> set w. in_s16 x"
    and "0 \<le> sc" "sc < 32" "n \<le> 1073741824"
  shows "runs (WebRtcSpl_DotProductWithScale v w n sc)
    (\<lambda>r. r = max (-2147483648) (min 2147483647 (\<Sum>i<n. v ! i * w ! i div 2 ^ nat sc)))"
proof -
  have "runs (foldM (dot_term v w sc) [0..<n] 0) (\<lambda>s. s = (\<Sum>i<n. v ! i * w ! i div 2 ^ nat sc))"
    using dot_foldM_runs [OF assms order_refl] by (rule runs_mono) simp
  then have "runs (do { (i', s) \<leftarrow> dot_unrolled v w n sc 0 0; foldM (dot_term v w sc) [i'..<n] s })
      (\<lambda>s. s = (\<Sum>i<n. v ! i * w ! i div 2 ^ nat sc))"
    by (simp only: dot_unrolled_foldM)
  then show ?thesis
    by (auto simp: WebRtcSpl_DotProductWithScale_def runs_simps WEBRTC_SPL_WORD32_MAX_def
        WEBRTC_SPL_WORD32_MIN_def s32_id in_s32_def case_prod_beta elim!: runs_mono)
qed

section \<open>Memory\<close>

lemma MemSetW32_runs:
  "n \<le> length xs \<Longrightarrow> WebRtcSpl_MemSetW32 xs v n = Some (replicate n v @ drop n xs)"
proof (induction n)
  case 0
  then show ?case by (simp add: WebRtcSpl_MemSetW32_def)
next
  case (Suc n)
  have "WebRtcSpl_MemSetW32 xs v n = Some (replicate n v @ drop n xs)"
    using Suc by simp
  moreover have "wr (replicate n v @ drop n xs) (int n) v = Some (replicate (Suc n) v @ drop (Suc n) xs)"
    using Suc.prems by (simp add: wr_def list_update_append Cons_nth_drop_Suc [symmetric]
        replicate_append_same)
  ultimately show ?case
    by (simp add: WebRtcSpl_MemSetW32_def foldM_append)
qed

section \<open>Properties\<close>

text \<open>The downsampler as a component called block by block.\<close>

definition downsample_step :: "int list \<Rightarrow> int list \<Rightarrow> (int list \<times> int list) option" where
  "downsample_step b fs = do { (ys, fs') \<leftarrow> WebRtcSpl_DownsampleBy2 b (length b) fs; Some (fs', ys) }"

definition even_block :: "int list \<Rightarrow> bool" where
  "even_block b \<longleftrightarrow> even (length b) \<and> (\<forall>x \<in> set b. in_s16 x)"

definition half_block :: "int list \<Rightarrow> int list \<Rightarrow> bool" where
  "half_block b ys \<longleftrightarrow> length ys = length b div 2 \<and> (\<forall>y \<in> set ys. in_s16 y)"

lemma downsample_step_runs:
  assumes "downsample_inv fs" "even_block b"
  shows "runs (downsample_step b fs) (\<lambda>r. downsample_inv (fst r) \<and> half_block b (snd r))"
proof -
  have "runs (WebRtcSpl_DownsampleBy2 b (length b) fs)
      (\<lambda>(ys, fs'). length ys = length b div 2 \<and> (\<forall>y \<in> set ys. in_s16 y) \<and> downsample_inv fs')"
    using assms by (intro DownsampleBy2_runs) (auto simp: even_block_def)
  then show ?thesis
    by (auto simp: downsample_step_def half_block_def runs_simps case_prod_beta elim!: runs_mono)
qed

interpretation down: total_frame_processor downsample_step downsample_inv even_block half_block
  by unfold_locales (auto dest!: downsample_step_runs simp: runs_def)

text \<open>C30. The downsampler started on a zero filter state and fed any number of blocks of 16-bit
  samples, each of an even number of samples: no 32-bit intermediate overflows in any of the six
  all-pass sections, each block of 2 k samples gives k samples, all of them 16-bit values.\<close>

theorem downsampler_never_overflows:
  assumes "\<forall>b \<in> set bs. even (length b) \<and> (\<forall>x \<in> set b. in_s16 x)"
  shows "\<exists>fs yss. stream downsample_step bs (replicate 8 0) = Some (fs, yss)
    \<and> list_all2 (\<lambda>b ys. length ys = length b div 2 \<and> (\<forall>y \<in> set ys. in_s16 y)) bs yss"
  using down.stream_total [OF downsample_inv_zero, of bs] assms
  by (auto simp: runs_def even_block_def half_block_def [abs_def])

theorem downsampler_never_overflows_witness:
  "\<exists>fs y z. stream downsample_step [[32767, -32768], [0, 5, 6, -7]] (replicate 8 0) = Some (fs, [y, z])
    \<and> length y = 1 \<and> length z = 2"
  using downsampler_never_overflows [of "[[32767, -32768], [0, 5, 6, -7]]"]
  by (auto simp: in_s16_def list_all2_Cons1 simp del: stream.simps)

text \<open>C36. The scaled dot product, whose loop is unrolled four times, returns the exact sum of the
  scaled products saturated to 32 bits, for vectors of any length the caller can have.\<close>

theorem DotProductWithScale_saturated_sum:
  assumes "length v = n" "length w = n" "\<forall>x \<in> set v. in_s16 x" "\<forall>x \<in> set w. in_s16 x"
    and "0 \<le> sc" "sc < 32" "n \<le> 1073741824"
  shows "WebRtcSpl_DotProductWithScale v w n sc
    = Some (max (-2147483648) (min 2147483647 (\<Sum>i<n. v ! i * w ! i div 2 ^ nat sc)))"
  using DotProductWithScale_runs [OF assms] by (auto simp: runs_def)

theorem DotProductWithScale_saturated_sum_witness:
  "WebRtcSpl_DotProductWithScale [-32768, -32768, 1, 2, 3] [-32768, -32768, 5, 6, -7] 5 0 = Some 2147483644
   \<and> WebRtcSpl_DotProductWithScale [100, -3] [7, 5] 2 3 = Some 85"
  using DotProductWithScale_saturated_sum [of "[-32768, -32768, 1, 2, 3]" 5 "[-32768, -32768, 5, 6, -7]" 0]
    DotProductWithScale_saturated_sum [of "[100, -3]" 2 "[7, 5]" 3]
  by (simp add: in_s16_def lessThan_nat_numeral)

text \<open>C37. \<open>WebRtcSpl_Sqrt\<close> returns for every 32-bit argument, negative ones and the smallest one
  included, with no intermediate overflow, and its result lies between 0 and 46338.\<close>

theorem Sqrt_total:
  assumes "in_s32 x"
  shows "\<exists>r. WebRtcSpl_Sqrt x = Some r \<and> 0 \<le> r \<and> r \<le> 46338"
  using Sqrt_runs [OF assms] by (auto simp: runs_def)

theorem Sqrt_total_witness:
  "in_s32 (-2147483648) \<and> (\<exists>r. WebRtcSpl_Sqrt (-2147483648) = Some r \<and> 0 \<le> r \<and> r \<le> 46338)"
  using Sqrt_total [of "-2147483648"] by (simp add: in_s32_def)

end
