(* ===== verification/Agc_Vad.thy ===== *)
theory Agc_Vad
  imports Spl
begin

text \<open>
  The voice activity detector of \<^verbatim>\<open>src/digital_agc/digital_agc.c\<close> (\<open>WebRtcAgc_InitVad\<close>,
  \<open>WebRtcAgc_ProcessVad\<close>) on the state struct \<open>AgcVad\<close> of
  \<^verbatim>\<open>src/digital_agc/digital_agc.h\<close>. One call consumes a 10 ms frame: it downsamples to
  4 kHz, high-pass filters, measures the energy, and updates short-term and long-term
  statistics of the level and the log likelihood ratio of speech.

  The invariant \<open>vad_inv\<close> holds after initialisation and after every frame; the energy and
  statistics part never has undefined behaviour, and the log ratio overflows exactly when
  the long-term deviation is 0 while the previous ratio is positive.
\<close>

section \<open>State\<close>

record AgcVad =
  downState :: "int list"
  HPstate :: int
  counter :: int
  logRatio :: int
  meanLongTerm :: int
  varianceLongTerm :: int
  stdLongTerm :: int
  meanShortTerm :: int
  varianceShortTerm :: int
  stdShortTerm :: int

definition kAvgDecayTime :: int where "kAvgDecayTime = 250"

definition WebRtcAgc_InitVad :: "AgcVad \<Rightarrow> AgcVad" where
  "WebRtcAgc_InitVad state = state\<lparr>
     HPstate := 0,
     logRatio := 0,
     meanLongTerm := 15 * 2 ^ 10,
     varianceLongTerm := 500 * 2 ^ 8,
     stdLongTerm := 0,
     meanShortTerm := 15 * 2 ^ 10,
     varianceShortTerm := 500 * 2 ^ 8,
     stdShortTerm := 0,
     counter := 3,
     downState := replicate 8 0\<rparr>"

section \<open>Energy of a frame\<close>

text \<open>Averaging of sample pairs, 16 samples to 8.\<close>

definition vad_average :: "int list \<Rightarrow> int list option" where
  "vad_average inp = mapM (\<lambda>k. do {
     a \<leftarrow> rd inp (2 * k);
     b \<leftarrow> rd inp (2 * k + 1);
     tmp32 \<leftarrow> chk32 (a + b);
     Some (s16 (tmp32 div 2))
   }) [0, 1, 2, 3, 4, 5, 6, 7]"

text \<open>High-pass filter and energy of one downsampled sample; the energy is an unsigned sum.\<close>

definition vad_highpass :: "int \<Rightarrow> int \<times> int \<Rightarrow> (int \<times> int) option" where
  "vad_highpass b st = do {
     let (hp, nrg) = st;
     out \<leftarrow> chk32 (b + hp);
     tmp32 \<leftarrow> chk32 (600 * out);
     t \<leftarrow> chk32 (tmp32 div 2 ^ 10 - b);
     q \<leftarrow> div32 out 64;
     p \<leftarrow> chk32 (out * q);
     let nrg = u32 (nrg + p);
     r \<leftarrow> rem32 out 64;
     p \<leftarrow> chk32 (out * r);
     p \<leftarrow> div32 p 64;
     Some (s16 t, u32 (nrg + p))
   }"

text \<open>One of the ten 1 ms sub frames: input pointer, filter state, high-pass state, energy.\<close>

type_synonym vad_loop = "int list \<times> int list \<times> int \<times> int"

definition vad_subframe :: "nat \<Rightarrow> vad_loop \<Rightarrow> vad_loop option" where
  "vad_subframe nrSamples st = do {
     let (inp, ds, hp, nrg) = st;
     (buf2, ds, inp) \<leftarrow>
       (if nrSamples = 160 then do {
          buf1 \<leftarrow> vad_average inp;
          (buf2, ds) \<leftarrow> WebRtcSpl_DownsampleBy2 buf1 8 ds;
          Some (buf2, ds, drop 16 inp)
        } else do {
          (buf2, ds) \<leftarrow> WebRtcSpl_DownsampleBy2 inp 8 ds;
          Some (buf2, ds, drop 8 inp)
        });
     (hp, nrg) \<leftarrow> foldM vad_highpass buf2 (hp, nrg);
     Some (inp, ds, hp, nrg)
   }"

definition vad_energy :: "AgcVad \<Rightarrow> int list \<Rightarrow> nat \<Rightarrow> (AgcVad \<times> int) option" where
  "vad_energy state inp nrSamples = do {
     (inp', ds, hp, nrg) \<leftarrow>
       foldM (\<lambda>subfr. vad_subframe nrSamples) [0..<10] (inp, downState state, HPstate state, 0);
     Some (state\<lparr>downState := ds, HPstate := hp\<rparr>, nrg)
   }"

text \<open>The leading zeros of the energy by successive masks.\<close>

definition vad_zeros :: "int \<Rightarrow> int" where
  "vad_zeros nrg =
    (let zeros = (if 0xFFFF0000 AND nrg = 0 then 16 else 0 :: nat);
         zeros = (if 0xFF000000 AND u32 (nrg * 2 ^ zeros) = 0 then zeros + 8 else zeros);
         zeros = (if 0xF0000000 AND u32 (nrg * 2 ^ zeros) = 0 then zeros + 4 else zeros);
         zeros = (if 0xC0000000 AND u32 (nrg * 2 ^ zeros) = 0 then zeros + 2 else zeros);
         zeros = (if 0x80000000 AND u32 (nrg * 2 ^ zeros) = 0 then zeros + 1 else zeros)
     in int zeros)"

section \<open>Statistics and log ratio\<close>

definition vad_short_term :: "int \<Rightarrow> AgcVad \<Rightarrow> AgcVad option" where
  "vad_short_term dB state = do {
     tmp32 \<leftarrow> chk32 (meanShortTerm state * 15);
     tmp32 \<leftarrow> chk32 (tmp32 + dB);
     let state = state\<lparr>meanShortTerm := s16 (tmp32 div 2 ^ 4)\<rparr>;
     tmp32 \<leftarrow> chk32 (dB * dB);
     let tmp32 = tmp32 div 2 ^ 12;
     v \<leftarrow> chk32 (varianceShortTerm state * 15);
     tmp32 \<leftarrow> chk32 (tmp32 + v);
     v \<leftarrow> div32 tmp32 16;
     let state = state\<lparr>varianceShortTerm := v\<rparr>;
     m \<leftarrow> chk32 (meanShortTerm state * meanShortTerm state);
     v \<leftarrow> shl32 (varianceShortTerm state) 12;
     tmp32 \<leftarrow> chk32 (v - m);
     r \<leftarrow> WebRtcSpl_Sqrt tmp32;
     Some (state\<lparr>stdShortTerm := s16 r\<rparr>)
   }"

definition vad_long_term :: "int \<Rightarrow> AgcVad \<Rightarrow> AgcVad option" where
  "vad_long_term dB state = do {
     tmp32 \<leftarrow> chk32 (meanLongTerm state * counter state);
     tmp32 \<leftarrow> chk32 (tmp32 + dB);
     m \<leftarrow> WebRtcSpl_DivW32W16ResW16 tmp32 (WebRtcSpl_AddSatW16 (counter state) 1);
     let state = state\<lparr>meanLongTerm := m\<rparr>;
     tmp32 \<leftarrow> chk32 (dB * dB);
     let tmp32 = tmp32 div 2 ^ 12;
     v \<leftarrow> chk32 (varianceLongTerm state * counter state);
     tmp32 \<leftarrow> chk32 (tmp32 + v);
     v \<leftarrow> WebRtcSpl_DivW32W16 tmp32 (WebRtcSpl_AddSatW16 (counter state) 1);
     let state = state\<lparr>varianceLongTerm := v\<rparr>;
     m \<leftarrow> chk32 (meanLongTerm state * meanLongTerm state);
     v \<leftarrow> shl32 (varianceLongTerm state) 12;
     tmp32 \<leftarrow> chk32 (v - m);
     r \<leftarrow> WebRtcSpl_Sqrt tmp32;
     Some (state\<lparr>stdLongTerm := s16 r\<rparr>)
   }"

definition vad_statistics :: "AgcVad \<Rightarrow> int list \<Rightarrow> nat \<Rightarrow> (AgcVad \<times> int) option" where
  "vad_statistics state inp nrSamples = do {
     (state, nrg) \<leftarrow> vad_energy state inp nrSamples;
     l \<leftarrow> chk32 ((15 - vad_zeros nrg) * 2 ^ 11);
     let dB = s16 l;
     let state = (if counter state < kAvgDecayTime
                  then state\<lparr>counter := s16 (counter state + 1)\<rparr> else state);
     state \<leftarrow> vad_short_term dB state;
     state \<leftarrow> vad_long_term dB state;
     Some (state, dB)
   }"

definition vad_log_ratio :: "AgcVad \<Rightarrow> int \<Rightarrow> (AgcVad \<times> int) option" where
  "vad_log_ratio state dB = do {
     let tmp16 = 3 * 2 ^ 12;
     d \<leftarrow> chk32 (dB - meanLongTerm state);
     tmp32 \<leftarrow> chk32 (tmp16 * s16 d);
     tmp32 \<leftarrow> WebRtcSpl_DivW32W16 tmp32 (stdLongTerm state);
     tmp32b \<leftarrow> WEBRTC_SPL_MUL_16_U16 (logRatio state) (13 * 2 ^ 12);
     tmp32 \<leftarrow> chk32 (tmp32 + tmp32b div 2 ^ 10);
     let lr = s16 (tmp32 div 2 ^ 6);
     let lr = (if lr > 2048 then 2048 else lr);
     let lr = (if lr < -2048 then -2048 else lr);
     Some (state\<lparr>logRatio := lr\<rparr>, lr)
   }"

definition WebRtcAgc_ProcessVad :: "AgcVad \<Rightarrow> int list \<Rightarrow> nat \<Rightarrow> (AgcVad \<times> int) option" where
  "WebRtcAgc_ProcessVad state inp nrSamples = do {
     (state, dB) \<leftarrow> vad_statistics state inp nrSamples;
     vad_log_ratio state dB
   }"

section \<open>The energy part is total\<close>

definition vad_inv :: "AgcVad \<Rightarrow> bool" where
  "vad_inv s \<longleftrightarrow>
     downsample_inv (downState s) \<and> in_s16 (HPstate s) \<and> 3 \<le> counter s \<and> counter s \<le> 250
   \<and> -2048 \<le> logRatio s \<and> logRatio s \<le> 2048
   \<and> -32768 \<le> meanLongTerm s \<and> meanLongTerm s \<le> 30720
   \<and> 0 \<le> varianceLongTerm s \<and> varianceLongTerm s \<le> 262144 \<and> in_s16 (stdLongTerm s)
   \<and> -32768 \<le> meanShortTerm s \<and> meanShortTerm s \<le> 30720
   \<and> 0 \<le> varianceShortTerm s \<and> varianceShortTerm s \<le> 262144 \<and> in_s16 (stdShortTerm s)"

lemma InitVad_inv: "vad_inv (WebRtcAgc_InitVad s)"
  using downsample_inv_zero by (simp add: WebRtcAgc_InitVad_def vad_inv_def in_s16_def)

lemma vad_average_runs:
  assumes "16 \<le> length inp" "\<forall>x \<in> set inp. in_s16 x"
  shows "runs (vad_average inp) (\<lambda>ys. length ys = 8 \<and> (\<forall>y \<in> set ys. in_s16 y))"
proof -
  have "runs (do { a \<leftarrow> rd inp (2 * k); b \<leftarrow> rd inp (2 * k + 1); tmp32 \<leftarrow> chk32 (a + b);
      Some (s16 (tmp32 div 2)) }) in_s16" if "k \<in> set [0, 1, 2, 3, 4, 5, 6, 7]" for k :: int
  proof -
    have k: "0 \<le> k" "k \<le> 7" using that by auto
    then have "in_s16 (inp ! nat (2 * k))" "in_s16 (inp ! nat (2 * k + 1))"
      using assms by (auto simp: nat_less_iff)
    with k assms(1) show ?thesis
      by (auto simp: runs_simps in_s16_def in_s32_def)
  qed
  from runs_mapM [OF this] show ?thesis
    unfolding vad_average_def by (rule runs_mono) auto
qed

lemma vad_highpass_runs:
  assumes "in_s16 b" "in_s16 hp" "in_u32 nrg"
  shows "runs (vad_highpass b (hp, nrg)) (\<lambda>r. in_s16 (fst r) \<and> in_u32 (snd r))"
proof -
  define out where "out = b + hp"
  have out: "-65536 \<le> out" "out \<le> 65534"
    using assms by (auto simp: out_def in_s16_def)
  have q: "-1024 \<le> out sdiv 64" "out sdiv 64 \<le> 1024"
    using out sdiv_le [of out 1024 64] sdiv_ge [of 1024 64 out] by auto
  have oq: "\<bar>out * (out sdiv 64)\<bar> \<le> 65536 * 1024"
    using out q by (intro abs_mult_le) auto
  have r: "\<bar>out smod 64\<bar> \<le> 64"
    using smod_int_range [of 64 out] by auto
  have or: "\<bar>out * (out smod 64)\<bar> \<le> 65536 * 64"
    using out r by (intro abs_mult_le) auto
  have p: "-65536 \<le> (out * (out smod 64)) sdiv 64" "(out * (out smod 64)) sdiv 64 \<le> 65536"
    using or sdiv_le [of "out * (out smod 64)" 65536 64] sdiv_ge [of 65536 64 "out * (out smod 64)"]
    by (auto simp: abs_le_iff)
  have h: "\<bar>600 * out div 1024\<bar> \<le> 39321600"
    using abs_div_power_le [of "600 * out" 10] out by auto
  show ?thesis
    unfolding vad_highpass_def
    using assms(1) out q oq or p h
    by (simp add: runs_simps out_def [symmetric] in_s32_def in_s16_def abs_le_iff)
qed


lemma vad_subframe_runs:
  assumes "downsample_inv ds" "in_s16 hp" "in_u32 nrg" "\<forall>x \<in> set inp. in_s16 x"
    and "w = (if n = 160 then 16 else 8)" "w \<le> length inp"
  shows "runs (vad_subframe n (inp, ds, hp, nrg)) (\<lambda>(inp', ds', hp', nrg').
    inp' = drop w inp \<and> downsample_inv ds' \<and> in_s16 hp' \<and> in_u32 nrg')"
proof -
  have filter: "runs (foldM vad_highpass buf (hp, nrg)) (\<lambda>r. in_s16 (fst r) \<and> in_u32 (snd r))"
    if "\<forall>y \<in> set buf. in_s16 y" for buf
    using that assms(2,3) by (intro runs_foldM) (auto intro: vad_highpass_runs)
  have down: "runs (WebRtcSpl_DownsampleBy2 ys 8 ds) (\<lambda>x. runs (foldM vad_highpass (fst x) (hp, nrg))
      (\<lambda>r. downsample_inv (snd x) \<and> in_s16 (fst r) \<and> in_u32 (snd r)))"
    if "8 \<le> length ys" "\<forall>y \<in> set ys. in_s16 y" for ys
    using DownsampleBy2_runs [of ds ys 8] that assms(1) filter
    by (auto elim!: runs_mono simp: case_prod_beta)
  show ?thesis
  proof (cases "n = 160")
    case True
    have "runs (vad_average inp) (\<lambda>ys. length ys = 8 \<and> (\<forall>y \<in> set ys. in_s16 y))"
      using assms True by (intro vad_average_runs) auto
    with True assms(5) down show ?thesis
      by (auto simp: vad_subframe_def runs_simps case_prod_beta elim!: runs_mono)
  next
    case False
    with assms(4-6) down [of inp] show ?thesis
      by (auto simp: vad_subframe_def runs_simps case_prod_beta)
  qed
qed

text \<open>The frames the detector is called with: 80 samples, or 160.\<close>

definition vad_frame :: "nat \<Rightarrow> int list \<Rightarrow> bool" where
  "vad_frame n inp \<longleftrightarrow> (n = 80 \<or> n = 160) \<and> n \<le> length inp \<and> (\<forall>x \<in> set inp. in_s16 x)"

lemma vad_energy_runs:
  assumes "vad_inv s" "vad_frame n inp"
  shows "runs (vad_energy s inp n) (\<lambda>(s', nrg). vad_inv s' \<and> in_u32 nrg
    \<and> (\<exists>ds hp. s' = s\<lparr>downState := ds, HPstate := hp\<rparr>))"
proof -
  define w :: nat where "w = (if n = 160 then 16 else 8)"
  have w: "10 * w \<le> length inp"
    using assms(2) by (auto simp: w_def vad_frame_def)
  define I where "I = (\<lambda>i (inp', ds, hp, nrg).
    inp' = drop (i * w) inp \<and> downsample_inv ds \<and> in_s16 hp \<and> in_u32 nrg)"
  have "runs (foldM (\<lambda>subfr. vad_subframe n) [0..<10::nat] (inp, downState s, HPstate s, 0))
      (I (length [0..<10::nat]))"
  proof (rule runs_foldM_index)
    show "I 0 (inp, downState s, HPstate s, 0)"
      using assms(1) by (simp add: I_def vad_inv_def in_u32_def)
    fix i :: nat and st
    assume i: "i < length [0..<10::nat]" and st: "I i st"
    obtain ds hp nrg where st_eq: "st = (drop (i * w) inp, ds, hp, nrg)"
        and inv: "downsample_inv ds" "in_s16 hp" "in_u32 nrg"
      using st by (cases st) (auto simp: I_def)
    have "Suc i * w \<le> 10 * w"
      using i by (intro mult_le_mono1) simp
    with w have "w \<le> length (drop (i * w) inp)"
      unfolding mult_Suc length_drop by linarith
    moreover have "\<forall>x \<in> set (drop (i * w) inp). in_s16 x"
      using assms(2) by (auto simp: vad_frame_def dest: in_set_dropD)
    ultimately have "runs (vad_subframe n (drop (i * w) inp, ds, hp, nrg)) (\<lambda>(inp', ds', hp', nrg').
        inp' = drop w (drop (i * w) inp) \<and> downsample_inv ds' \<and> in_s16 hp' \<and> in_u32 nrg')"
      using inv w_def by (intro vad_subframe_runs) auto
    then show "runs (vad_subframe n st) (I (Suc i))"
      unfolding st_eq by (rule runs_mono) (auto simp: I_def add.commute)
  qed
  then show ?thesis
    using assms(1)
    by (auto simp: vad_energy_def runs_simps I_def vad_inv_def case_prod_beta elim!: runs_mono)
qed

section \<open>The successive masks count leading zeros\<close>

lemma top_mask_zero:
  assumes "in_u32 x" "k \<le> 32"
  shows "(2 ^ 32 - 2 ^ (32 - k)) AND x = 0 \<longleftrightarrow> x < 2 ^ (32 - k)"
proof -
  have m: "(2 ^ 32 - 2 ^ (32 - k) :: int) = (2 ^ k - 1) * 2 ^ (32 - k)"
    using assms(2) by (simp add: left_diff_distrib flip: power_add)
  have "x div 2 ^ (32 - k) < 2 ^ k"
  proof -
    have "x < 2 ^ k * 2 ^ (32 - k)"
      using assms by (simp add: in_u32_def flip: power_add)
    moreover have "x div 2 ^ (32 - k) * 2 ^ (32 - k) \<le> x"
    proof -
      have "0 \<le> x mod 2 ^ (32 - k)" by simp
      then show ?thesis using div_mult_mod_eq [of x "2 ^ (32 - k)"] by linarith
    qed
    ultimately have "x div 2 ^ (32 - k) * 2 ^ (32 - k) < 2 ^ k * 2 ^ (32 - k)"
      by linarith
    then show ?thesis
      by simp
  qed
  moreover have "0 \<le> x div 2 ^ (32 - k)"
    using assms(1) by (simp add: in_u32_def pos_imp_zdiv_nonneg_iff)
  ultimately have "x AND (2 ^ k - 1) * 2 ^ (32 - k) = x div 2 ^ (32 - k) * 2 ^ (32 - k)"
    by (simp add: and_high_mask)
  then have "(2 ^ 32 - 2 ^ (32 - k)) AND x = x div 2 ^ (32 - k) * 2 ^ (32 - k)"
    by (simp only: m and.commute)
  then show ?thesis
    using assms(1) by (auto simp: in_u32_def div_eq_0_iff zdiv_eq_0_iff)
qed

text \<open>One mask test: it shifts by \<open>k\<close> exactly when the top \<open>k\<close> bits are clear.\<close>

lemma zeros_step:
  assumes "0 < n" "n * 2 ^ z < 2 ^ 32" "2 ^ (32 - 2 * k) \<le> n * 2 ^ z" "2 * k \<le> 32"
    and "z' = (if (2 ^ 32 - 2 ^ (32 - k)) AND u32 (n * 2 ^ z) = 0 then z + k else z)"
  shows "n * 2 ^ z' < 2 ^ 32" "2 ^ (32 - k) \<le> n * 2 ^ z'"
proof -
  have u: "u32 (n * 2 ^ z) = n * 2 ^ z"
    using assms(1,2) by (intro u32_id) (simp add: in_u32_def)
  have "in_u32 (n * 2 ^ z)"
    using assms(1,2) by (simp add: in_u32_def)
  note test = top_mask_zero [OF this, of k]
  have pow: "(2::int) ^ 32 = 2 ^ (32 - k) * 2 ^ k" "(2::int) ^ (32 - k) = 2 ^ (32 - 2 * k) * 2 ^ k"
    using assms(4) by (simp_all flip: power_add)
  have shift: "n * 2 ^ (z + k) = n * 2 ^ z * 2 ^ k"
    by (simp add: power_add)
  show "n * 2 ^ z' < 2 ^ 32"
    using assms test by (auto simp: u shift pow(1) simp del: power_numeral)
  show "2 ^ (32 - k) \<le> n * 2 ^ z'"
    using assms test by (auto simp: u shift pow(2) not_less simp del: power_numeral)
qed


lemma vad_zeros_normalizes:
  assumes "0 < n" "n < 2 ^ 32"
  shows "0 \<le> vad_zeros n" "n * 2 ^ nat (vad_zeros n) < 2 ^ 32" "2 ^ 31 \<le> n * 2 ^ nat (vad_zeros n)"
proof -
  define z1 where "z1 = (if (2 ^ 32 - 2 ^ (32 - 16)) AND u32 (n * 2 ^ 0) = 0 then 0 + 16 else 0 :: nat)"
  define z2 where "z2 = (if (2 ^ 32 - 2 ^ (32 - 8)) AND u32 (n * 2 ^ z1) = 0 then z1 + 8 else z1)"
  define z3 where "z3 = (if (2 ^ 32 - 2 ^ (32 - 4)) AND u32 (n * 2 ^ z2) = 0 then z2 + 4 else z2)"
  define z4 where "z4 = (if (2 ^ 32 - 2 ^ (32 - 2)) AND u32 (n * 2 ^ z3) = 0 then z3 + 2 else z3)"
  define z5 where "z5 = (if (2 ^ 32 - 2 ^ (32 - 1)) AND u32 (n * 2 ^ z4) = 0 then z4 + 1 else z4)"
  have "n * 2 ^ 0 < 2 ^ 32" "2 ^ (32 - 2 * 16) \<le> n * 2 ^ 0"
    using assms by simp_all
  note s1 = zeros_step [OF assms(1) this _ z1_def]
  note s2 = zeros_step [OF assms(1) s1(1) _ _ z2_def]
  note s3 = zeros_step [OF assms(1) s2(1) _ _ z3_def]
  note s4 = zeros_step [OF assms(1) s3(1) _ _ z4_def]
  note s5 = zeros_step [OF assms(1) s4(1) _ _ z5_def]
  have u: "u32 n = n"
    using assms by (intro u32_id) (simp add: in_u32_def)
  have "vad_zeros n = int z5"
    unfolding vad_zeros_def z5_def z4_def z3_def z2_def z1_def Let_def by (simp add: u)
  then show "0 \<le> vad_zeros n" "n * 2 ^ nat (vad_zeros n) < 2 ^ 32" "2 ^ 31 \<le> n * 2 ^ nat (vad_zeros n)"
    using s1 s2 s3 s4 s5 by simp_all
qed

lemma power_window_unique:
  assumes "2 ^ 31 \<le> (n::int) * 2 ^ a" "n * 2 ^ a < 2 ^ 32" "2 ^ 31 \<le> n * 2 ^ b" "n * 2 ^ b < 2 ^ 32"
  shows "a = b"
proof -
  have "\<not> a < b" if "2 ^ 31 \<le> (n::int) * 2 ^ a" "n * 2 ^ b < 2 ^ 32" for a b
  proof
    assume "a < b"
    then obtain c where "b = Suc a + c" using less_iff_Suc_add by auto
    then have "n * 2 ^ b = n * 2 ^ a * 2 * 2 ^ c" by (simp add: power_add)
    moreover have "2 ^ 32 * 1 \<le> n * 2 ^ a * 2 * 2 ^ c"
      using that(1) by (intro mult_mono) auto
    ultimately show False using that(2) by linarith
  qed
  then show ?thesis
    using assms by (meson linorder_neqE_nat)
qed

lemma vad_zeros_clz:
  assumes "in_u32 n"
  shows "vad_zeros n = (if n = 0 then 31 else WebRtcSpl_CountLeadingZeros32 n)"
proof (cases "n = 0")
  case True
  then show ?thesis by (simp add: vad_zeros_def u32_def)
next
  case False
  with assms have n: "0 < n" "n \<le> 4294967295" by (auto simp: in_u32_def)
  have clz: "WebRtcSpl_NormU32 n = WebRtcSpl_CountLeadingZeros32 n"
    using n by (simp add: NormU32_eq WebRtcSpl_CountLeadingZeros32_def)
  have "nat (vad_zeros n) = nat (WebRtcSpl_NormU32 n)"
    using vad_zeros_normalizes [of n] NormU32_bounds [OF n] n
    by (intro power_window_unique [of n]) simp_all
  then show ?thesis
    using False vad_zeros_normalizes(1) [of n] NormU32_bounds(1) [OF n] n clz by simp
qed

lemma vad_zeros_bounds: "in_u32 n \<Longrightarrow> 0 \<le> vad_zeros n \<and> vad_zeros n \<le> 31"
  using bitlen_range [of n 32]
  by (auto simp: vad_zeros_clz WebRtcSpl_CountLeadingZeros32_def in_u32_def)

section \<open>The statistics are total\<close>

text \<open>A level in Q10, as \<open>vad_statistics\<close> computes it.\<close>

definition vad_level :: "int \<Rightarrow> bool" where
  "vad_level dB \<longleftrightarrow> -32768 \<le> dB \<and> dB \<le> 30720"

lemma deviation_runs:
  assumes "0 \<le> v" "v \<le> 262144" "-32768 \<le> m" "m \<le> 30720"
  shows "in_s32 (m * m)" "in_s32 (v * 4096)" "in_s32 (v * 4096 - m * m)"
    "runs (WebRtcSpl_Sqrt (v * 4096 - m * m)) (\<lambda>r. 0 \<le> r \<and> r \<le> 46338)"
proof -
  define q where "q = m * m"
  have "0 \<le> q" "q \<le> 1073741824"
    using assms square_bounds [of 32768 m] by (auto simp: q_def)
  then show "in_s32 (m * m)" "in_s32 (v * 4096)" "in_s32 (v * 4096 - m * m)"
      "runs (WebRtcSpl_Sqrt (v * 4096 - m * m)) (\<lambda>r. 0 \<le> r \<and> r \<le> 46338)"
    using assms by (auto simp: q_def [symmetric] in_s32_def intro!: Sqrt_runs)
qed

lemma level_square:
  assumes "vad_level dB"
  shows "0 \<le> dB * dB" "dB * dB \<le> 1073741824" "0 \<le> dB * dB div 4096" "dB * dB div 4096 \<le> 262144"
proof -
  show "0 \<le> dB * dB" by simp
  show "dB * dB \<le> 1073741824"
    using assms square_bounds [of 32768 dB] by (auto simp: vad_level_def)
  then show "dB * dB div 4096 \<le> 262144"
    by linarith
  show "0 \<le> dB * dB div 4096" by (simp add: pos_imp_zdiv_nonneg_iff)
qed

lemma vad_short_term_runs:
  assumes inv: "vad_inv s" and dB: "vad_level dB"
  shows "runs (vad_short_term dB s) (\<lambda>s'. vad_inv s' \<and>
    (\<exists>m v d. s' = s\<lparr>meanShortTerm := m, varianceShortTerm := v, stdShortTerm := d\<rparr>))"
proof -
  define m where "m = (meanShortTerm s * 15 + dB) div 16"
  have m: "-32768 \<le> m" "m \<le> 30720" "s16 m = m"
    using inv dB s16_small [of m] unfolding m_def vad_inv_def vad_level_def by linarith+
  define e where "e = dB * dB div 4096"
  have e: "0 \<le> e" "e \<le> 262144"
    using level_square [OF dB] by (simp_all add: e_def)
  define v where "v = (e + varianceShortTerm s * 15) sdiv 16"
  have v: "0 \<le> v" "v \<le> 262144"
    using e inv sdiv_nonneg [of "e + varianceShortTerm s * 15" 16] unfolding v_def vad_inv_def by linarith+
  have "in_s32 (dB * dB)"
    using level_square [OF dB] by (simp add: in_s32_def)
  moreover have "in_s32 (e + varianceShortTerm s * 15)" "in_s32 (varianceShortTerm s * 15)"
      "in_s32 (meanShortTerm s * 15)" "in_s32 (meanShortTerm s * 15 + dB)" "in_s32 v"
    using e v inv dB by (auto simp: in_s32_def vad_inv_def vad_level_def)
  ultimately show ?thesis
    using deviation_runs [OF v m(1,2)] v m inv
    by (auto simp: vad_short_term_def runs_simps m_def [symmetric] e_def [symmetric] v_def [symmetric]
        vad_inv_def elim!: runs_mono)
qed

lemma vad_long_term_runs:
  assumes inv: "vad_inv s" and dB: "vad_level dB"
  shows "runs (vad_long_term dB s) (\<lambda>s'. vad_inv s' \<and>
    (\<exists>m v d. s' = s\<lparr>meanLongTerm := m, varianceLongTerm := v, stdLongTerm := d\<rparr>))"
proof -
  define c where "c = counter s"
  have c: "3 \<le> c" "c \<le> 250" "WebRtcSpl_AddSatW16 c 1 = c + 1"
    using inv by (simp_all add: c_def vad_inv_def WebRtcSpl_AddSatW16_def SatW32ToW16_clamp)
  have mc: "-32768 * c \<le> meanLongTerm s * c" "meanLongTerm s * c \<le> 30720 * c"
    using inv c mult_right_mono [of "-32768" "meanLongTerm s" c]
      mult_right_mono [of "meanLongTerm s" 30720 c] by (simp_all add: vad_inv_def)
  have vc: "0 \<le> varianceLongTerm s * c" "varianceLongTerm s * c \<le> 262144 * c"
    using inv c by (auto simp: vad_inv_def intro!: mult_right_mono)
  have flat: "-8192000 \<le> meanLongTerm s * c" "meanLongTerm s * c \<le> 7680000"
      "0 \<le> varianceLongTerm s * c" "varianceLongTerm s * c \<le> 65536000"
    using mc vc c by linarith+
  have mb: "meanLongTerm s * c + dB \<le> 30720 * (c + 1)" "- (32768 * (c + 1)) \<le> meanLongTerm s * c + dB"
    using mc dB by (auto simp: vad_level_def algebra_simps simp del: mult_le_cancel_right)
  define m where "m = (meanLongTerm s * c + dB) sdiv (c + 1)"
  have m: "-32768 \<le> m" "m \<le> 30720"
    using mb c sdiv_ge [of 32768 "c + 1"] sdiv_le [OF mb(1)] by (simp_all add: m_def)
  define e where "e = dB * dB div 4096"
  have e: "0 \<le> e" "e \<le> 262144"
    using level_square [OF dB] by (simp_all add: e_def)
  have vb: "e + varianceLongTerm s * c \<le> 262144 * (c + 1)" "0 \<le> e + varianceLongTerm s * c"
    using vc e by (simp_all add: algebra_simps)
  define v where "v = (e + varianceLongTerm s * c) sdiv (c + 1)"
  have v: "0 \<le> v" "v \<le> 262144"
    using vb c sdiv_le [OF vb(1)] sdiv_ge [of 0 "c + 1"]
    by (simp_all add: v_def)
  have "in_s32 (dB * dB)"
    using level_square [OF dB] by (simp add: in_s32_def)
  moreover have "in_s32 (e + varianceLongTerm s * c)" "in_s32 (varianceLongTerm s * c)"
      "in_s32 (meanLongTerm s * c)" "in_s32 (meanLongTerm s * c + dB)" "in_s32 m" "in_s32 v"
    using e v m flat dB by (auto simp: in_s32_def vad_level_def)
  ultimately show ?thesis
    using deviation_runs [OF v m] v m c s16_small [of m] inv
    by (auto simp: vad_long_term_def runs_simps WebRtcSpl_DivW32W16_def WebRtcSpl_DivW32W16ResW16_def
        c_def [symmetric] m_def [symmetric] e_def [symmetric] v_def [symmetric]
        vad_inv_def elim!: runs_mono)
qed

lemma vad_statistics_runs:
  assumes "vad_inv s" "vad_frame n inp"
  shows "runs (vad_statistics s inp n)
    (\<lambda>(s', dB). vad_inv s' \<and> vad_level dB \<and> logRatio s' = logRatio s)"
proof -
  have level: "in_s32 ((15 - vad_zeros nrg) * 2048)" "vad_level (s16 ((15 - vad_zeros nrg) * 2048))"
    if "in_u32 nrg" for nrg
    using vad_zeros_bounds [OF that] s16_small [of "(15 - vad_zeros nrg) * 2048"]
    by (auto simp: in_s32_def vad_level_def)
  have count: "vad_inv (if counter t < kAvgDecayTime then t\<lparr>counter := s16 (counter t + 1)\<rparr> else t)"
    if "vad_inv t" for t
    using that by (auto simp: vad_inv_def kAvgDecayTime_def s16_small)
  have tail: "runs (do {
      l \<leftarrow> chk32 ((15 - vad_zeros nrg) * 2 ^ 11);
      let dB = s16 l;
      let state = (if counter t < kAvgDecayTime then t\<lparr>counter := s16 (counter t + 1)\<rparr> else t);
      state \<leftarrow> vad_short_term dB state;
      state \<leftarrow> vad_long_term dB state;
      Some (state, dB)}) (\<lambda>(s', dB). vad_inv s' \<and> vad_level dB \<and> logRatio s' = logRatio s)"
    if t: "vad_inv t" "in_u32 nrg" "logRatio t = logRatio s" for t nrg
  proof -
    define u where "u = (if counter t < kAvgDecayTime then t\<lparr>counter := s16 (counter t + 1)\<rparr> else t)"
    define dB where "dB = s16 ((15 - vad_zeros nrg) * 2048)"
    have u: "vad_inv u" "logRatio u = logRatio s"
      using count [OF t(1)] t(3) by (simp_all add: u_def)
    have "runs (do { state \<leftarrow> vad_short_term dB u; state \<leftarrow> vad_long_term dB state; Some (state, dB)})
      (\<lambda>(s', dB). vad_inv s' \<and> vad_level dB \<and> logRatio s' = logRatio s)"
      using level(2) [OF t(2)] u unfolding dB_def [symmetric]
      by (auto simp: runs_Some intro!: runs_seq [OF vad_short_term_runs] runs_seq [OF vad_long_term_runs])
    then show ?thesis
      using level [OF t(2)] by (simp add: runs_simps u_def [symmetric] dB_def)
  qed
  have "runs (vad_energy s inp n) (\<lambda>r. vad_inv (fst r) \<and> in_u32 (snd r) \<and> logRatio (fst r) = logRatio s)"
    using vad_energy_runs [OF assms] by (rule runs_mono) auto
  then show ?thesis
    unfolding vad_statistics_def
  proof (rule runs_seq, goal_cases)
    case (1 r)
    with tail [of "fst r" "snd r"] show ?case by (cases r) auto
  qed
qed

lemma abs_sdiv_le: "\<bar>(a::int) sdiv b\<bar> \<le> \<bar>a\<bar>"
proof (cases "b = 0")
  case False
  then have "\<bar>a\<bar> div \<bar>b\<bar> \<le> \<bar>a\<bar>"
    using zdiv_mono2 [of "\<bar>a\<bar>" 1 "\<bar>b\<bar>"] by simp
  moreover have "0 \<le> \<bar>a\<bar> div \<bar>b\<bar>" by (simp add: div_int_pos_iff)
  ultimately show ?thesis
    by (simp add: signed_divide_int_def abs_mult sgn_mult)
qed (simp add: signed_divide_int_def)

text \<open>The log ratio is computed without undefined behaviour unless the division by a zero
  deviation has returned the largest integer and a positive previous ratio is added to it.\<close>

definition vad_overflows :: "AgcVad \<Rightarrow> bool" where
  "vad_overflows s \<longleftrightarrow> stdLongTerm s = 0 \<and> 0 < logRatio s"

lemma vad_log_ratio_cases:
  assumes inv: "vad_inv s" and dB: "vad_level dB"
  shows "vad_overflows s \<Longrightarrow> vad_log_ratio s dB = None"
    "\<not> vad_overflows s \<Longrightarrow> runs (vad_log_ratio s dB)
       (\<lambda>r. fst r = s\<lparr>logRatio := snd r\<rparr> \<and> -2048 \<le> snd r \<and> snd r \<le> 2048)"
proof -
  define d where "d = s16 (dB - meanLongTerm s)"
  have d: "-32768 \<le> d" "d \<le> 32767" by (simp_all add: d_def)
  have diff: "in_s32 (dB - meanLongTerm s)" "in_s32 (12288 * d)"
    using inv dB d by (auto simp: vad_inv_def vad_level_def in_s32_def)
  have lr: "s16 (logRatio s) = logRatio s" "in_s32 (logRatio s * 53248)"
    using inv by (auto simp: vad_inv_def s16_small in_s32_def)
  define a where "a = logRatio s * 53248 div 1024"
  have a: "-106496 \<le> a" "a \<le> 106496" "0 < a \<longleftrightarrow> 0 < logRatio s"
    using inv by (auto simp: a_def vad_inv_def)
  define q where "q = (12288 * d) sdiv stdLongTerm s"
  have "\<bar>q\<bar> \<le> \<bar>12288 * d\<bar>" unfolding q_def by (rule abs_sdiv_le)
  with d have q: "-402653184 \<le> q" "q \<le> 402653184" by auto
  show "vad_log_ratio s dB = None" if "vad_overflows s"
    using that a diff lr
    by (simp add: vad_overflows_def vad_log_ratio_def WEBRTC_SPL_MUL_16_U16_def u16_def chk32_def
        WebRtcSpl_DivW32W16_def Let_def d_def [symmetric] a_def [symmetric]) (simp add: in_s32_def)
  show "runs (vad_log_ratio s dB)
       (\<lambda>r. fst r = s\<lparr>logRatio := snd r\<rparr> \<and> -2048 \<le> snd r \<and> snd r \<le> 2048)" if "\<not> vad_overflows s"
  proof -
    have "in_s32 (q + a)" "in_s32 q" "stdLongTerm s = 0 \<Longrightarrow> in_s32 (2147483647 + a)"
      using q a that by (auto simp: in_s32_def vad_overflows_def)
    then show ?thesis
      using diff lr
      by (simp add: vad_log_ratio_def WEBRTC_SPL_MUL_16_U16_def u16_def runs_simps
        WebRtcSpl_DivW32W16_def d_def [symmetric] a_def [symmetric] q_def [symmetric])
  qed
qed

lemma ProcessVad_cases:
  assumes "vad_inv s" "vad_frame n inp"
  shows "(\<exists>t dB. vad_statistics s inp n = Some (t, dB) \<and> vad_inv t \<and> vad_level dB \<and> logRatio t = logRatio s \<and>
    (if vad_overflows t then WebRtcAgc_ProcessVad s inp n = None
     else runs (WebRtcAgc_ProcessVad s inp n)
       (\<lambda>r. fst r = t\<lparr>logRatio := snd r\<rparr> \<and> vad_inv (fst r) \<and> -2048 \<le> snd r \<and> snd r \<le> 2048)))"
proof (rule runsE [OF vad_statistics_runs [OF assms]])
  fix r assume r: "vad_statistics s inp n = Some r"
    "case r of (t, dB) \<Rightarrow> vad_inv t \<and> vad_level dB \<and> logRatio t = logRatio s"
  obtain t dB where td: "r = (t, dB)" by (cases r)
  with r have t: "vad_inv t" "vad_level dB" "logRatio t = logRatio s" by auto
  have process: "WebRtcAgc_ProcessVad s inp n = vad_log_ratio t dB"
    using r(1) by (simp add: WebRtcAgc_ProcessVad_def td)
  have "runs (vad_log_ratio t dB)
      (\<lambda>r. fst r = t\<lparr>logRatio := snd r\<rparr> \<and> vad_inv (fst r) \<and> -2048 \<le> snd r \<and> snd r \<le> 2048)"
    if "\<not> vad_overflows t"
    using vad_log_ratio_cases(2) [OF t(1,2) that] t(1)
    by (auto simp: vad_inv_def elim!: runs_mono)
  then show ?thesis
    using vad_log_ratio_cases(1) [OF t(1,2)] t r(1) td process by auto
qed

text \<open>The detector called frame by frame, for as long as it returns.\<close>

definition vad_step :: "nat \<times> int list \<Rightarrow> AgcVad \<Rightarrow> (AgcVad \<times> int) option" where
  "vad_step fr s = WebRtcAgc_ProcessVad s (snd fr) (fst fr)"

interpretation vad: frame_processor vad_step vad_inv "\<lambda>fr. vad_frame (fst fr) (snd fr)" "\<lambda>_ r. -2048 \<le> r \<and> r \<le> 2048"
proof
  fix s :: AgcVad and i :: "nat \<times> int list" and s' :: AgcVad and r :: int
  assume "vad_inv s" "vad_frame (fst i) (snd i)" "vad_step i s = Some (s', r)"
  with ProcessVad_cases [of s "fst i" "snd i"] show "vad_inv s' \<and> -2048 \<le> r \<and> r \<le> 2048"
    by (auto simp: vad_step_def runs_def split: if_splits)
qed

section \<open>Properties\<close>

text \<open>C11. The voice activity detector on a state that satisfies its invariant and a frame of 80
  or 160 samples: it has undefined behaviour exactly when the statistics of the frame leave a
  long-term deviation of 0 while the previous log ratio is positive (the division by 0 is
  replaced by the largest 32-bit integer, to which the ratio is then added); in every other
  case it returns a log ratio between -2048 and 2048, stores that value, and re-establishes
  the invariant.\<close>

theorem ProcessVad_total_iff:
  assumes "vad_inv s" "vad_frame n inp"
  shows "\<exists>t dB. vad_statistics s inp n = Some (t, dB) \<and>
    (WebRtcAgc_ProcessVad s inp n = None \<longleftrightarrow> stdLongTerm t = 0 \<and> 0 < logRatio s) \<and>
    (\<forall>s' r. WebRtcAgc_ProcessVad s inp n = Some (s', r) \<longrightarrow>
       vad_inv s' \<and> s' = t\<lparr>logRatio := r\<rparr> \<and> -2048 \<le> r \<and> r \<le> 2048)"
proof -
  from ProcessVad_cases [OF assms] obtain t dB where "vad_statistics s inp n = Some (t, dB)"
    "logRatio t = logRatio s" "if vad_overflows t then WebRtcAgc_ProcessVad s inp n = None
     else runs (WebRtcAgc_ProcessVad s inp n)
       (\<lambda>r. fst r = t\<lparr>logRatio := snd r\<rparr> \<and> vad_inv (fst r) \<and> -2048 \<le> snd r \<and> snd r \<le> 2048)"
    by blast
  then show ?thesis
    by (auto simp: vad_overflows_def runs_def split: if_splits)
qed

definition vad_stuck :: AgcVad where
  "vad_stuck = \<lparr>downState = replicate 8 0, HPstate = 0, counter = 250, logRatio = 1,
     meanLongTerm = -32768, varianceLongTerm = 262144, stdLongTerm = 0,
     meanShortTerm = 0, varianceShortTerm = 0, stdShortTerm = 0\<rparr>"

lemma vad_stuck_statistics:
  "map_option (\<lambda>r. stdLongTerm (fst r)) (vad_statistics vad_stuck (replicate 80 0) 80) = Some 0"
  by code_simp

lemma vad_stuck_inv: "vad_inv vad_stuck"
  using downsample_inv_zero by (simp add: vad_stuck_def vad_inv_def in_s16_def)

theorem ProcessVad_total_iff_witness:
  "vad_inv vad_stuck \<and> vad_frame 80 (replicate 80 0)
   \<and> WebRtcAgc_ProcessVad vad_stuck (replicate 80 0) 80 = None"
proof -
  have frame: "vad_frame 80 (replicate 80 0)" by (simp add: vad_frame_def in_s16_def)
  have "logRatio vad_stuck = 1" by (simp add: vad_stuck_def)
  with ProcessVad_total_iff [OF vad_stuck_inv frame] vad_stuck_statistics
  have "WebRtcAgc_ProcessVad vad_stuck (replicate 80 0) 80 = None" by auto
  with frame vad_stuck_inv show ?thesis by simp
qed

text \<open>C38. The energy is unsigned 32-bit, and the five mask tests of \<open>ProcessVad\<close> count its
  leading zeros (31 for a silent frame), so that the level handed to the statistics is a multiple of
  2048 between -32768 and 30720.\<close>

theorem vad_zeros_correct:
  assumes "in_u32 nrg"
  shows "vad_zeros nrg = (if nrg = 0 then 31 else WebRtcSpl_CountLeadingZeros32 nrg)
    \<and> vad_level ((15 - vad_zeros nrg) * 2 ^ 11)"
  using vad_zeros_clz [OF assms] vad_zeros_bounds [OF assms] by (auto simp: vad_level_def)

theorem vad_zeros_correct_witness:
  "in_u32 70000 \<and> vad_zeros 70000 = 15 \<and> WebRtcSpl_CountLeadingZeros32 70000 = 15"
  using vad_zeros_correct [of 70000] by (simp add: in_u32_def) code_simp

end
