(* ===== verification/Gain_Table.thy ===== *)
theory Gain_Table
  imports Spl
begin

text \<open>
  The compressor gain table of the digital gain control: \<open>WebRtcAgc_CalculateGainTable\<close> of
  \<^verbatim>\<open>src/digital_agc/digital_agc.c\<close> and its generator table \<open>kGenFuncTable\<close>. The body of
  the loop over the 32 entries is split in the order of the code: the log domain level
  (\<open>table_log_approx\<close>), the gain in dB as a ratio (\<open>table_ratio\<close>), the limiter
  (\<open>table_limit\<close>), the conversion to log2 (\<open>table_log2\<close>) and the power of two
  (\<open>table_power\<close>).

  The lemmas bound every intermediate value by the compression gain, the target level and the
  analog target, so that the whole computation is free of undefined behaviour for every
  configuration the interface accepts.
\<close>

section \<open>Tables and constants\<close>

definition kGenFuncTable :: "int list" where
  "kGenFuncTable = [
     256, 485, 786, 1126, 1484, 1849, 2217, 2586, 2955, 3324, 3693,
     4063, 4432, 4801, 5171, 5540, 5909, 6279, 6648, 7017, 7387, 7756,
     8125, 8495, 8864, 9233, 9603, 9972, 10341, 10711, 11080, 11449, 11819,
     12188, 12557, 12927, 13296, 13665, 14035, 14404, 14773, 15143, 15512, 15881,
     16251, 16620, 16989, 17359, 17728, 18097, 18466, 18836, 19205, 19574, 19944,
     20313, 20682, 21052, 21421, 21790, 22160, 22529, 22898, 23268, 23637, 24006,
     24376, 24745, 25114, 25484, 25853, 26222, 26592, 26961, 27330, 27700, 28069,
     28438, 28808, 29177, 29546, 29916, 30285, 30654, 31024, 31393, 31762, 32132,
     32501, 32870, 33240, 33609, 33978, 34348, 34717, 35086, 35456, 35825, 36194,
     36564, 36933, 37302, 37672, 38041, 38410, 38780, 39149, 39518, 39888, 40257,
     40626, 40996, 41365, 41734, 42104, 42473, 42842, 43212, 43581, 43950, 44320,
     44689, 45058, 45428, 45797, 46166, 46536, 46905]"

definition kGenFuncTableSize :: int where "kGenFuncTableSize = 128"

definition kLog10 :: int where "kLog10 = 54426"

definition kLog10_2 :: int where "kLog10_2 = 49321"

definition kLogE_1 :: int where "kLogE_1 = 23637"

definition kCompRatio :: int where "kCompRatio = 3"

definition kSoftLimiterLeft :: int where "kSoftLimiterLeft = 1"

definition constLinApprox :: int where "constLinApprox = 22817"

section \<open>The parameters of the table\<close>

text \<open>Maximum digital gain and zero gain level.\<close>

definition table_max_gain :: "int \<Rightarrow> int \<Rightarrow> int \<Rightarrow> int option" where
  "table_max_gain digCompGaindB targetLevelDbfs analogTarget = do {
     d \<leftarrow> chk32 (digCompGaindB - analogTarget);
     tmp32no1 \<leftarrow> chk32 (d * (kCompRatio - 1));
     diff \<leftarrow> chk32 (analogTarget - targetLevelDbfs);
     let tmp16no1 = s16 diff;
     n \<leftarrow> chk32 (tmp32no1 + kCompRatio div 2);
     q \<leftarrow> WebRtcSpl_DivW32W16ResW16 n kCompRatio;
     let tmp16no1 = s16 (tmp16no1 + q);
     Some (s16 (if tmp16no1 > diff then tmp16no1 else diff))
   }"

definition table_zero_gain_level :: "int \<Rightarrow> int \<Rightarrow> int \<Rightarrow> int \<Rightarrow> int option" where
  "table_zero_gain_level maxGain digCompGaindB limiterEnable analogTarget = do {
     tmp32no1 \<leftarrow> chk32 (maxGain * kCompRatio);
     n \<leftarrow> chk32 (tmp32no1 + (kCompRatio - 1) div 2);
     q \<leftarrow> WebRtcSpl_DivW32W16ResW16 n (kCompRatio - 1);
     let zeroGainLvl = s16 (digCompGaindB - q);
     (if digCompGaindB \<le> analogTarget \<and> limiterEnable \<noteq> 0
      then do {
        r \<leftarrow> chk32 (analogTarget - digCompGaindB + kSoftLimiterLeft);
        r \<leftarrow> chk32 (zeroGainLvl + r);
        Some (s16 r)
      } else Some zeroGainLvl)
   }"

definition table_diff_gain :: "int \<Rightarrow> int option" where
  "table_diff_gain digCompGaindB = do {
     tmp32no1 \<leftarrow> chk32 (digCompGaindB * (kCompRatio - 1));
     n \<leftarrow> chk32 (tmp32no1 + kCompRatio div 2);
     WebRtcSpl_DivW32W16ResW16 n kCompRatio
   }"

text \<open>Limiter index and level; the offset is 0.\<close>

definition table_limiter :: "int \<Rightarrow> int \<Rightarrow> (int \<times> int) option" where
  "table_limiter targetLevelDbfs analogTarget = do {
     let limiterOffset = 0;
     l \<leftarrow> chk32 (analogTarget - limiterOffset);
     let limiterLvlX = s16 l;
     n \<leftarrow> chk32 (limiterLvlX * 2 ^ 13);
     q \<leftarrow> WebRtcSpl_DivW32W16ResW16 n (s16 (kLog10_2 div 2));
     let limiterIdx = s16 (2 + q);
     tmp16no1 \<leftarrow> WebRtcSpl_DivW32W16ResW16 (limiterOffset + kCompRatio div 2) kCompRatio;
     limiterLvl \<leftarrow> chk32 (targetLevelDbfs + tmp16no1);
     Some (limiterIdx, limiterLvl)
   }"

section \<open>One entry of the table\<close>

text \<open>Scaled input level of entry \<open>i\<close>, relative to the difference of the gains.\<close>

definition table_in_level :: "int \<Rightarrow> int \<Rightarrow> int option" where
  "table_in_level diffGain i = do {
     let tmp16 = s16 ((kCompRatio - 1) * (i - 1));
     p \<leftarrow> WEBRTC_SPL_MUL_16_U16 tmp16 kLog10_2;
     tmp32 \<leftarrow> chk32 (p + 1);
     inLevel \<leftarrow> WebRtcSpl_DivW32W16 tmp32 kCompRatio;
     d \<leftarrow> chk32 (diffGain * 2 ^ 14);
     chk32 (d - inLevel)
   }"

text \<open>Table lookup with interpolation, in Q22.\<close>

definition table_lookup :: "int \<Rightarrow> int option" where
  "table_lookup absInLevel = do {
     let intPart = u16 (absInLevel div 2 ^ 14);
     let fracPart = u16 (absInLevel AND 0x00003FFF);
     a \<leftarrow> rd kGenFuncTable (intPart + 1);
     b \<leftarrow> rd kGenFuncTable intPart;
     let tmpU16 = u16 (a - b);
     p \<leftarrow> chk32 (tmpU16 * fracPart);
     Some (u32 (u32 p + u32 (b * 2 ^ 14)))
   }"

text \<open>The relation \<open>log2 (1 + 2^-x) = log2 (1 + 2^x) - x\<close> for a negative level.\<close>

definition table_negative :: "int \<Rightarrow> int \<Rightarrow> int option" where
  "table_negative absInLevel tmpU32no1 = do {
     let zeros = WebRtcSpl_NormU32 absInLevel;
     (tmpU32no1, tmpU32no2, zerosScale) \<leftarrow>
       (if zeros < 15 then do {
          t \<leftarrow> sar32 absInLevel (15 - zeros);
          let tmpU32no2 = WEBRTC_SPL_UMUL_32_16 t kLogE_1;
          (if zeros < 9 then do {
             let zerosScale = 9 - zeros;
             t \<leftarrow> sar32 tmpU32no1 zerosScale;
             Some (t, tmpU32no2, zerosScale)
           } else do {
             t \<leftarrow> sar32 tmpU32no2 (zeros - 9);
             Some (tmpU32no1, t, 0)
           })
        } else Some (tmpU32no1, WEBRTC_SPL_UMUL_32_16 absInLevel kLogE_1 div 2 ^ 6, 0));
     (if tmpU32no2 < tmpU32no1 then sar32 (u32 (tmpU32no1 - tmpU32no2)) (8 - zerosScale)
      else Some 0)
   }"

definition table_log_approx :: "int \<Rightarrow> int \<Rightarrow> int option" where
  "table_log_approx diffGain i = do {
     inLevel \<leftarrow> table_in_level diffGain i;
     a \<leftarrow> WEBRTC_SPL_ABS_W32 inLevel;
     let absInLevel = u32 a;
     tmpU32no1 \<leftarrow> table_lookup absInLevel;
     (if inLevel < 0 then table_negative absInLevel tmpU32no1 else Some (tmpU32no1 div 2 ^ 8))
   }"

text \<open>The ratio \<open>numFIX / den\<close>, in Q14, rounded.\<close>

definition table_ratio :: "int \<Rightarrow> int \<Rightarrow> int option" where
  "table_ratio numFIX den = do {
     large \<leftarrow> (if numFIX > den div 2 ^ 8 then Some True
               else do { n \<leftarrow> chk32 (- numFIX); Some (n > den div 2 ^ 8) });
     let zeros = (if large then WebRtcSpl_NormW32 numFIX else WebRtcSpl_NormW32 den + 8);
     m \<leftarrow> shl32 1 zeros;
     numFIX \<leftarrow> chk32 (numFIX * m);
     tmp32no1 \<leftarrow> WEBRTC_SPL_SHIFT_W32 den (zeros - 9);
     y32 \<leftarrow> div32 numFIX tmp32no1;
     (if y32 \<ge> 0 then do { y \<leftarrow> chk32 (y32 + 1); Some (y div 2) }
      else do { y \<leftarrow> chk32 (- y32); y \<leftarrow> chk32 (y + 1); chk32 (- (y div 2)) })
   }"

definition table_limit :: "int \<Rightarrow> int \<Rightarrow> int option" where
  "table_limit limiterLvl i = do {
     tmp32 \<leftarrow> WEBRTC_SPL_MUL_16_U16 (i - 1) kLog10_2;
     l \<leftarrow> chk32 (limiterLvl * 2 ^ 14);
     tmp32 \<leftarrow> chk32 (tmp32 - l);
     tmp32 \<leftarrow> chk32 (tmp32 + 10);
     WebRtcSpl_DivW32W16 tmp32 20
   }"

definition table_log2 :: "int \<Rightarrow> int option" where
  "table_log2 y32 = do {
     tmp32 \<leftarrow> (if y32 > 39000 then do {
                 t \<leftarrow> chk32 ((y32 div 2) * kLog10);
                 t \<leftarrow> chk32 (t + 4096);
                 Some (t div 2 ^ 13)
               } else do {
                 t \<leftarrow> chk32 (y32 * kLog10);
                 t \<leftarrow> chk32 (t + 8192);
                 Some (t div 2 ^ 14)
               });
     chk32 (tmp32 + 16 * 2 ^ 14)
   }"

text \<open>The power of two, with a piecewise linear fractional part.\<close>

definition table_frac :: "int \<Rightarrow> int option" where
  "table_frac fracPart =
     (if fracPart div 2 ^ 13 \<noteq> 0 then do {
        let tmp16 = s16 (2 * 2 ^ 14 - constLinApprox);
        tmp32no2 \<leftarrow> chk32 (2 ^ 14 - fracPart);
        tmp32no2 \<leftarrow> chk32 (tmp32no2 * tmp16);
        chk32 (2 ^ 14 - tmp32no2 div 2 ^ 13)
      } else do {
        let tmp16 = s16 (constLinApprox - 2 ^ 14);
        tmp32no2 \<leftarrow> chk32 (fracPart * tmp16);
        Some (tmp32no2 div 2 ^ 13)
      })"

definition table_power :: "int \<Rightarrow> int option" where
  "table_power tmp32 =
     (if tmp32 > 0 then do {
        let intPart = u16 (s16 (tmp32 div 2 ^ 14));
        let fracPart = u16 (tmp32 AND 0x00003FFF);
        tmp32no2 \<leftarrow> table_frac fracPart;
        let fracPart = u16 tmp32no2;
        p \<leftarrow> shl32 1 intPart;
        q \<leftarrow> WEBRTC_SPL_SHIFT_W32 fracPart (intPart - 14);
        chk32 (p + q)
      } else Some 0)"

definition table_entry ::
  "int \<Rightarrow> int \<Rightarrow> int \<Rightarrow> int \<Rightarrow> int \<Rightarrow> int \<Rightarrow> int \<Rightarrow> int \<Rightarrow> int option" where
  "table_entry maxGain diffGain constMaxGain den limiterEnable limiterIdx limiterLvl i = do {
     logApprox \<leftarrow> table_log_approx diffGain i;
     n \<leftarrow> chk32 (maxGain * constMaxGain);
     n \<leftarrow> chk32 (n * 2 ^ 6);
     l \<leftarrow> chk32 (s32 logApprox * diffGain);
     numFIX \<leftarrow> chk32 (n - l);
     y32 \<leftarrow> table_ratio numFIX den;
     y32 \<leftarrow> (if limiterEnable \<noteq> 0 \<and> i < limiterIdx then table_limit limiterLvl i else Some y32);
     tmp32 \<leftarrow> table_log2 y32;
     table_power tmp32
   }"

section \<open>The table\<close>

text \<open>
  The result is the return value and the array; the 32 entries are written only when the
  difference of the gains is inside the generator table.
\<close>

definition WebRtcAgc_CalculateGainTable ::
  "int list \<Rightarrow> int \<Rightarrow> int \<Rightarrow> int \<Rightarrow> int \<Rightarrow> (int \<times> int list) option" where
  "WebRtcAgc_CalculateGainTable gainTable digCompGaindB targetLevelDbfs limiterEnable analogTarget = do {
     maxGain \<leftarrow> table_max_gain digCompGaindB targetLevelDbfs analogTarget;
     zeroGainLvl \<leftarrow> table_zero_gain_level maxGain digCompGaindB limiterEnable analogTarget;
     diffGain \<leftarrow> table_diff_gain digCompGaindB;
     (if diffGain < 0 \<or> diffGain \<ge> kGenFuncTableSize then Some (-1, gainTable)
      else do {
        (limiterIdx, limiterLvl) \<leftarrow> table_limiter targetLevelDbfs analogTarget;
        constMaxGain \<leftarrow> rd kGenFuncTable diffGain;
        den \<leftarrow> WEBRTC_SPL_MUL_16_U16 20 constMaxGain;
        gainTable \<leftarrow> foldM (\<lambda>i t. do {
            v \<leftarrow> table_entry maxGain diffGain constMaxGain den limiterEnable limiterIdx limiterLvl (int i);
            wr t (int i) v
          }) [0..<32] gainTable;
        Some (0, gainTable)
      })
   }"

section \<open>The generator table\<close>

lemma gen_table_facts:
  "list_all (\<lambda>n. 256 \<le> kGenFuncTable ! n \<and> kGenFuncTable ! n \<le> 46905 \<and> 369 * int n \<le> kGenFuncTable ! n
     \<and> 3 * kGenFuncTable ! n \<le> 768 + 1108 * int n) [0..<128]"
  "list_all (\<lambda>n. kGenFuncTable ! n \<le> kGenFuncTable ! (n + 1)
     \<and> kGenFuncTable ! (n + 1) \<le> kGenFuncTable ! n + 370) [0..<127]"
  "length kGenFuncTable = 128"
  by code_simp+

text \<open>The table read at an integer: bounds, and the line above it.\<close>

definition gen :: "int \<Rightarrow> int" where
  "gen n = kGenFuncTable ! nat n"

lemma gen_bounds:
  assumes "0 \<le> n" "n \<le> 127"
  shows "256 \<le> gen n" "gen n \<le> 46905" "369 * n \<le> gen n" "3 * gen n \<le> 768 + 1108 * n"
  using gen_table_facts(1) assms by (auto simp: list_all_iff gen_def dest!: bspec [of _ _ "nat n"])

lemma gen_step:
  assumes "0 \<le> n" "n \<le> 126"
  shows "gen n \<le> gen (n + 1)" "gen (n + 1) \<le> gen n + 370"
proof -
  have "nat (n + 1) = nat n + 1" using assms by simp
  then show "gen n \<le> gen (n + 1)" "gen (n + 1) \<le> gen n + 370"
    using gen_table_facts(2) assms by (auto simp: list_all_iff gen_def dest!: bspec [of _ _ "nat n"])
qed

lemma rd_gen: "0 \<le> n \<Longrightarrow> n \<le> 127 \<Longrightarrow> rd kGenFuncTable n = Some (gen n)"
  by (simp add: rd_def gen_def gen_table_facts(3))

lemma gen_small: "0 \<le> n \<Longrightarrow> n \<le> 81 \<Longrightarrow> gen n \<le> 29916"
proof -
  have "list_all (\<lambda>n. kGenFuncTable ! n \<le> 29916) [0..<82]" by code_simp
  then show "0 \<le> n \<Longrightarrow> n \<le> 81 \<Longrightarrow> gen n \<le> 29916"
    by (auto simp: list_all_iff gen_def dest!: bspec [of _ _ "nat n"])
qed

section \<open>The logarithm of the level\<close>

lemma table_in_level_runs:
  assumes "0 \<le> d" "d \<le> 81" "0 \<le> i" "i \<le> 31"
  shows "runs (table_in_level d i) (\<lambda>l. -986420 \<le> l \<and> l \<le> d * 16384 + 32880)"
proof -
  define p where "p = 2 * (i - 1) * 49321 + 1"
  have p: "-98641 \<le> p" "p \<le> 2959261" using assms by (auto simp: p_def)
  then have q: "-32880 \<le> p sdiv 3" "p sdiv 3 \<le> 986420"
    by (cases "0 \<le> p"; simp add: sdiv_nonneg sdiv_neg)+
  have "s16 (2 * (i - 1)) = 2 * (i - 1)" using assms by (intro s16_small) auto
  then show ?thesis
    using p q assms
    by (simp add: table_in_level_def WEBRTC_SPL_MUL_16_U16_def WebRtcSpl_DivW32W16_def runs_simps
        kCompRatio_def kLog10_2_def u16_def p_def [symmetric] s16_small)
      (auto simp: in_s32_def p_def)
qed

lemma table_lookup_runs:
  assumes "0 \<le> x" "x \<le> 1359984"
  shows "runs (table_lookup x) (\<lambda>r. 0 \<le> r \<and> r \<le> 510000000 \<and> 3 * r \<le> 3 * 2 ^ 22 + 1108 * x)"
proof -
  define n where "n = x div 16384"
  define f where "f = x mod 16384"
  have x: "x = n * 16384 + f" by (simp add: n_def f_def)
  have f: "0 \<le> f" "f \<le> 16383" by (simp_all add: f_def)
  have n: "0 \<le> n" "n \<le> 83" using assms by (simp_all add: n_def)
  define a where "a = gen n"
  define b where "b = gen (n + 1)"
  have ab: "a \<le> b" "b \<le> a + 370" "3 * a \<le> 768 + 1108 * n" "3 * b \<le> 768 + 1108 * (n + 1)" "256 \<le> a"
    using n gen_bounds [of n] gen_bounds [of "n + 1"] gen_step [of n] by (auto simp: a_def b_def)
  define w where "w = (b - a) * f"
  define v where "v = w + a * 16384"
  have w: "0 \<le> w" "w \<le> 370 * 16383"
    using f ab mult_mono [of "b - a" 370 f 16383] by (auto simp: w_def)
  have "3 * v = 3 * a * (16384 - f) + 3 * b * f" by (simp add: v_def w_def algebra_simps)
  also have "\<dots> \<le> (768 + 1108 * n) * (16384 - f) + (768 + 1108 * (n + 1)) * f"
    using f ab by (intro add_mono mult_right_mono) auto
  also have "\<dots> = 3 * 2 ^ 22 + 1108 * x" by (simp add: x algebra_simps)
  finally have v: "3 * v \<le> 3 * 2 ^ 22 + 1108 * x" .
  have v0: "0 \<le> v" "v \<le> 510000000" using v assms w ab by (auto simp: v_def)
  have small: "u16 n = n" "u16 f = f" "u16 (b - a) = b - a" "in_s32 w"
    "u32 w = w" "u32 (a * 16384) = a * 16384" "u32 v = v"
    using n f ab w v0 gen_bounds [of n] by (auto simp: u16_def u32_def in_s32_def a_def [symmetric])
  show ?thesis
    using n v v0 small
    by (simp add: table_lookup_def runs_simps rd_gen and_masks n_def [symmetric] f_def [symmetric]
        a_def [symmetric] b_def [symmetric] w_def [symmetric] v_def [symmetric])
qed

text \<open>For a negative level the two logarithms cancel up to a constant.\<close>

lemma log_e_product:
  assumes "0 < x" "x < 131072 * m" "m * n = 64" "0 < m" "0 < n" "m \<le> 8"
  shows "u32 (u32 (x div m) * u16 23637) = x div m * 23637"
    "0 \<le> x div m * 23637 div n" "11079 * x \<le> 30 * (x div m * 23637 div n) + 200000"
proof -
  define k where "k = x div m"
  define y where "y = k * 23637 div n"
  have k: "m * k \<le> x" "x < m * k + m" "0 \<le> k"
    using div_window [of m x] assms by (simp_all add: k_def pos_imp_zdiv_nonneg_iff)
  then have "m * k < m * 131072" using assms(2) by linarith
  with assms(4) have "k < 131072" by simp
  with k show "u32 (u32 (x div m) * u16 23637) = x div m * 23637"
    by (simp add: k_def [symmetric] u32_def u16_def)
  have y: "0 \<le> y" "k * 23637 < n * y + n"
    using div_window [of n "k * 23637"] assms k by (simp_all add: y_def pos_imp_zdiv_nonneg_iff)
  have "m * (k * 23637) \<le> m * (n * y + n)"
    using y assms by (intro mult_left_mono) auto
  then have "23637 * (m * k) \<le> 64 * y + 64"
    using assms(3) by (simp add: algebra_simps flip: mult.assoc)
  with k assms have "11079 * x \<le> 30 * y + 200000" by linarith
  with y show "0 \<le> x div m * 23637 div n" "11079 * x \<le> 30 * (x div m * 23637 div n) + 200000"
    by (simp_all add: k_def y_def)
qed

lemma table_negative_runs:
  assumes x: "0 < x" "x \<le> 986420" and r: "0 \<le> r" "r \<le> 510000000" "3 * r \<le> 3 * 2 ^ 22 + 1108 * x"
  shows "runs (table_negative x r) (\<lambda>l. 0 \<le> l \<and> l \<le> 16600)"
proof -
  define z where "z = WebRtcSpl_NormU32 x"
  have z: "12 \<le> z" "z \<le> 31" "x * 2 ^ nat z \<le> 4294967295"
    using NormU32_small [of x 20] NormU32_bounds [of x] x by (auto simp: z_def)
  have final: "runs (if y < r then sar32 (u32 (r - y)) 8 else Some 0) (\<lambda>l. 0 \<le> l \<and> l \<le> 16600)"
    if "0 \<le> y" "11079 * x \<le> 30 * y + 200000" for y
  proof -
    have "u32 (r - y) = r - y" if "y < r" using that r \<open>0 \<le> y\<close> by (simp add: u32_def)
    then show ?thesis using that r x by (auto simp: runs_simps)
  qed
  note unfold = table_negative_def z_def [symmetric] runs_simps WEBRTC_SPL_UMUL_32_16_def kLogE_1_def
  show ?thesis
  proof (cases "15 \<le> z")
    case True
    then have "x * 2 ^ 15 \<le> x * 2 ^ nat z"
      using x by (intro mult_left_mono power_increasing) auto
    with z have "x < 131072 * 1" by simp
    with True log_e_product [of x 1 64] final [of "x * 23637 div 64"] x show ?thesis
      by (simp add: unfold)
  next
    case False
    with z consider "z = 12" | "z = 13" | "z = 14" by arith
    then show ?thesis
    proof cases
      case 1
      with z log_e_product [of x 8 8] final [of "x div 8 * 23637 div 8"] x show ?thesis
        by (simp add: unfold)
    next
      case 2
      with z log_e_product [of x 4 16] final [of "x div 4 * 23637 div 16"] x show ?thesis
        by (simp add: unfold)
    next
      case 3
      with z log_e_product [of x 2 32] final [of "x div 2 * 23637 div 32"] x show ?thesis
        by (simp add: unfold)
    qed
  qed
qed

lemma table_log_approx_runs:
  assumes "0 \<le> d" "d \<le> 81" "0 \<le> i" "i \<le> 31"
  shows "runs (table_log_approx d i) (\<lambda>l. 0 \<le> l \<and> l \<le> 63900 + 23640 * d)"
proof -
  have tail: "runs (do { a \<leftarrow> WEBRTC_SPL_ABS_W32 l; let absInLevel = u32 a;
      tmpU32no1 \<leftarrow> table_lookup absInLevel;
      (if l < 0 then table_negative absInLevel tmpU32no1 else Some (tmpU32no1 div 2 ^ 8)) })
     (\<lambda>l. 0 \<le> l \<and> l \<le> 63900 + 23640 * d)" if l: "-986420 \<le> l" "l \<le> d * 16384 + 32880" for l
  proof -
    define x where "x = \<bar>l\<bar>"
    have x: "0 \<le> x" "x \<le> 1359984" "WEBRTC_SPL_ABS_W32 l = Some x" "u32 x = x"
      using l assms by (auto simp: x_def WEBRTC_SPL_ABS_W32_def s32_small chk32_def in_s32_def u32_def)
    have "runs (if l < 0 then table_negative x r else Some (r div 2 ^ 8))
        (\<lambda>l. 0 \<le> l \<and> l \<le> 63900 + 23640 * d)"
      if r: "0 \<le> r \<and> r \<le> 510000000 \<and> 3 * r \<le> 3 * 2 ^ 22 + 1108 * x" for r
    proof (cases "l < 0")
      case True
      then have "runs (table_negative x r) (\<lambda>l. 0 \<le> l \<and> l \<le> 16600)"
        using l r by (intro table_negative_runs) (auto simp: x_def)
      with True assms show ?thesis by (auto elim!: runs_mono)
    next
      case False
      with l r show ?thesis by (auto simp: runs_simps x_def)
    qed
    with table_lookup_runs [OF x(1,2)] show ?thesis
      using x by (auto intro: runs_seq)
  qed
  show ?thesis
    unfolding table_log_approx_def
    by (rule runs_seq [OF table_in_level_runs [OF assms]]) (use tail in blast)
qed
section \<open>The ratio\<close>

text \<open>The scaling step: the shifted numerator fits, the shifted denominator is positive and not much
  smaller than the exact one.\<close>

definition ratio_scaled :: "int \<Rightarrow> int \<Rightarrow> int \<Rightarrow> bool" where
  "ratio_scaled num c z \<longleftrightarrow> 0 \<le> z \<and> z \<le> 30 \<and> in_s32 (num * 2 ^ nat z) \<and>
    runs (WEBRTC_SPL_SHIFT_W32 (20 * c) (z - 9)) (\<lambda>D. 0 < D \<and> 64 * c * 2 ^ nat z \<le> 1642 * D)"

lemma pow_split9: "9 \<le> z \<Longrightarrow> (2::int) ^ nat z = 512 * 2 ^ nat (z - 9)"
  using power_add [of "2::int" 9 "nat (z - 9)"] by (simp add: nat_diff_distrib)

lemma ratio_scaled_exact:
  assumes "9 \<le> z" "z \<le> 30" "in_s32 (num * 2 ^ nat z)" "0 < c" "20 * c * 2 ^ nat (z - 9) \<le> 2147483647"
  shows "ratio_scaled num c z"
proof -
  define P where "P = (2::int) ^ nat (z - 9)"
  have "0 < P" by (simp add: P_def)
  moreover have "P \<le> 2 ^ 21" unfolding P_def using assms by (intro power_increasing) auto
  moreover have cP: "0 < 20 * c * P" using \<open>0 < P\<close> assms(4) by simp
  moreover have "in_s32 (20 * c * P)"
    using cP assms(5) unfolding P_def [symmetric] by (intro in_s32I) linarith+
  moreover have "in_s32 P" using calculation by (intro in_s32I) auto
  ultimately show ?thesis
    using assms
    by (auto simp: ratio_scaled_def WEBRTC_SPL_SHIFT_W32_def runs_simps pow_split9 P_def [symmetric])
qed

lemma ratio_scaled_small:
  assumes c: "256 \<le> c" "c \<le> 29916" and num: "\<bar>num\<bar> \<le> 20 * c div 256"
  shows "ratio_scaled num c (WebRtcSpl_NormW32 (20 * c) + 8)"
proof -
  define n where "n = WebRtcSpl_NormW32 (20 * c)"
  define P where "P = (2::int) ^ nat n"
  have n: "0 \<le> n" "1073741824 \<le> 20 * c * P" "20 * c * P \<le> 2147483647"
    using NormW32_pos [of "20 * c"] c by (auto simp: n_def P_def)
  have hi: "n \<le> 18"
  proof (rule ccontr)
    assume "\<not> n \<le> 18"
    then have "(2::int) ^ 19 \<le> P" unfolding P_def by (intro power_increasing) auto
    then have "5120 * 524288 \<le> 20 * c * P" using c by (intro mult_mono) auto
    with n show False by linarith
  qed
  have lo: "1 \<le> n"
  proof (rule ccontr)
    assume "\<not> 1 \<le> n"
    with n(1) have "n = 0" by simp
    with n c show False by (simp add: P_def)
  qed
  have P: "(2::int) ^ nat (n + 8) = 256 * P"
    using power_add [of "2::int" 8 "nat n"] n by (simp add: P_def nat_add_distrib add.commute)
  have "256 * \<bar>num\<bar> \<le> 20 * c" using num div_window [of 256 "20 * c"] by linarith
  then have "256 * \<bar>num\<bar> * P \<le> 20 * c * P" by (intro mult_right_mono) (auto simp: P_def)
  moreover have "\<bar>num * (256 * P)\<bar> = 256 * \<bar>num\<bar> * P" by (simp add: abs_mult P_def)
  ultimately have "\<bar>num * (256 * P)\<bar> \<le> 2147483647" using n by linarith
  then have "in_s32 (num * (256 * P))" by (intro in_s32I) linarith+
  moreover have "2 ^ nat (n - 1) \<le> P"
    unfolding P_def by (intro power_increasing) auto
  then have "20 * c * 2 ^ nat (n - 1) \<le> 20 * c * P" using c by (intro mult_left_mono) auto
  then have "20 * c * 2 ^ nat (n + 8 - 9) \<le> 2147483647" using n by simp
  ultimately show ?thesis
    unfolding n_def [symmetric] using hi lo c P
    by (intro ratio_scaled_exact) simp_all
qed

lemma ratio_scaled_large:
  assumes c: "256 \<le> c" "c \<le> 29916" and num: "20 * c div 256 < \<bar>num\<bar>" "\<bar>num\<bar> \<le> 5760 * c"
  shows "ratio_scaled num c (WebRtcSpl_NormW32 num)"
proof -
  define z where "z = WebRtcSpl_NormW32 num"
  define P where "P = (2::int) ^ nat z"
  have "20 \<le> 20 * c div 256" using c by simp
  with num c have "1 < \<bar>num\<bar>" "in_s32 num" by (auto simp: in_s32_def)
  then have z: "0 \<le> z" "z \<le> 30" "1073741824 \<le> \<bar>num\<bar> * P" "in_s32 (num * P)"
    using NormW32_abs [of num] by (auto simp: z_def P_def)
  have lo: "3 \<le> z"
  proof (rule ccontr)
    assume "\<not> 3 \<le> z"
    then have "\<bar>num\<bar> * P \<le> 172316160 * 2 ^ 2"
      unfolding P_def using c num z by (intro mult_mono power_increasing) auto
    with z show False by simp
  qed
  show ?thesis
  proof (cases "9 \<le> z")
    case True
    define Q where "Q = (2::int) ^ nat (z - 9)"
    have P: "P = 512 * Q" using pow_split9 [OF True] by (simp add: P_def Q_def)
    have "20 * c < 256 * \<bar>num\<bar>" using num div_window [of 256 "20 * c"] by linarith
    then have "20 * c * Q \<le> 256 * \<bar>num\<bar> * Q" by (intro mult_right_mono) (auto simp: Q_def)
    moreover have "\<bar>num\<bar> * P \<le> 2147483648" using z(4) by (auto simp: in_s32_def abs_mult P_def)
    then have "256 * \<bar>num\<bar> * Q \<le> 1073741824" by (simp add: P)
    ultimately have "20 * c * Q \<le> 2147483647" by linarith
    then show ?thesis
      unfolding z_def [symmetric] using True z c by (intro ratio_scaled_exact) (auto simp: P_def Q_def)
  next
    case False
    have "P \<le> 2 ^ 8" unfolding P_def using False by (intro power_increasing) auto
    then have "\<bar>num\<bar> * P \<le> 5760 * c * 256" using num c by (intro mult_mono) (auto simp: P_def)
    with z have c728: "728 \<le> c" by simp
    have c3: "23301 \<le> c" if "z = 3"
      using num z(3) that by (simp add: P_def)
    have scaled: "0 < D \<and> 64 * c * (512 div m) \<le> 1642 * D"
      if "m \<in> {2, 4, 8, 16, 32} \<or> m = 64 \<and> z = 3" "20 * c < m * D + m" for m D :: int
      using that c728 c3 by auto
    have D: "0 < 20 * c div m \<and> 64 * c * (512 div m) \<le> 1642 * (20 * c div m)"
      if "m \<in> {2, 4, 8, 16, 32} \<or> m = 64 \<and> z = 3" for m
    proof -
      have "0 < m" using that by auto
      from div_window [OF this, of "20 * c"] scaled [OF that] show ?thesis by blast
    qed
    have scale: "ratio_scaled num c z" if "z = 9 - int k" "k \<in> {1, 2, 3, 4, 5, 6}" for k
    proof -
      have m: "(2::int) ^ k \<in> {2, 4, 8, 16, 32} \<or> (2::int) ^ k = 64 \<and> z = 3" using that by auto
      have "512 div 2 ^ k = (2::int) ^ nat z" using that by auto
      with D [OF m] that z(4) show ?thesis
        by (auto simp: ratio_scaled_def WEBRTC_SPL_SHIFT_W32_def runs_simps P_def simp del: power_numeral)
    qed
    have "z = 9 - int (nat (9 - z))" "nat (9 - z) \<in> {1, 2, 3, 4, 5, 6}" using False lo by auto
    then show ?thesis unfolding z_def [symmetric] by (rule scale)
  qed
qed

lemma table_ratio_runs:
  assumes c: "256 \<le> c" "c \<le> 29916" and A: "0 \<le> A" "A \<le> 90" and B: "0 \<le> B" "B \<le> 90"
    and num: "- (64 * c * A) \<le> num" "num \<le> 64 * c * B"
  shows "runs (table_ratio num (20 * c)) (\<lambda>y. - (821 * A + 1) \<le> y \<and> y \<le> 821 * B)"
proof -
  have cAB: "64 * c * A \<le> 64 * c * 90" "64 * c * B \<le> 64 * c * 90"
    using c A B by (intro mult_left_mono; simp)+
  with num have abs: "\<bar>num\<bar> \<le> 5760 * c" by linarith
  have fits: "in_s32 (- num)" using abs c by (intro in_s32I) linarith+
  define z where "z = (if 20 * c div 256 < \<bar>num\<bar> then WebRtcSpl_NormW32 num else WebRtcSpl_NormW32 (20 * c) + 8)"
  have large: "runs (if num > 20 * c div 2 ^ 8 then Some True
      else do { n \<leftarrow> chk32 (- num); Some (n > 20 * c div 2 ^ 8) }) (\<lambda>l. l = (20 * c div 256 < \<bar>num\<bar>))"
    using fits c by (auto simp: runs_simps)
  have scaled: "ratio_scaled num c z"
    using ratio_scaled_small [OF c, of num] ratio_scaled_large [OF c _ abs] by (simp add: z_def)
  then obtain D where D: "WEBRTC_SPL_SHIFT_W32 (20 * c) (z - 9) = Some D" "0 < D"
      "64 * c * 2 ^ nat z \<le> 1642 * D"
    by (auto simp: ratio_scaled_def runs_def)
  define P where "P = (2::int) ^ nat z"
  have z: "0 \<le> z" "z \<le> 30" "in_s32 (num * P)" "0 < P"
    using scaled by (simp_all add: ratio_scaled_def P_def)
  have "P \<le> 2 ^ 30" unfolding P_def using z by (intro power_increasing) auto
  with z have P32: "in_s32 P" by (intro in_s32I) auto
  define y where "y = (num * P) sdiv D"
  have "num * P \<le> 64 * c * B * P" using num z by (intro mult_right_mono) auto
  also have "\<dots> \<le> 1642 * B * D" using mult_left_mono [OF D(3) B(1)] by (simp add: P_def algebra_simps)
  finally have yB: "y \<le> 1642 * B" unfolding y_def using B D by (intro sdiv_le) auto
  have "- (64 * c * A * P) \<le> num * P" using mult_right_mono [OF num(1), of P] z by simp
  moreover have "64 * c * A * P \<le> 1642 * A * D" using mult_left_mono [OF D(3) A(1)] by (simp add: P_def algebra_simps)
  ultimately have "- (1642 * A * D) \<le> num * P" by linarith
  then have yA: "- (1642 * A) \<le> y" unfolding y_def using A D by (intro sdiv_ge) auto
  have "in_s32 y" "in_s32 (y + 1)" "in_s32 (- y)" "in_s32 (- y + 1)" "y < 0 \<Longrightarrow> in_s32 (- ((- y + 1) div 2))"
    using yA yB A B by (auto simp: in_s32_def)
  with D z P32 yA yB show ?thesis
    unfolding table_ratio_def
    by (intro runs_seq [OF large], simp only: z_def [symmetric] Let_def)
      (simp add: runs_simps P_def [symmetric] y_def [symmetric], linarith?)
qed
section \<open>Limiter, logarithm and power\<close>

lemma table_limit_runs:
  assumes "0 \<le> i" "i - 1 \<le> a * 8192 div 24660" "0 \<le> a" "a \<le> 121" "0 \<le> t" "t \<le> 31" "0 \<le> b" "a - t \<le> b" "b \<le> 90"
  shows "runs (table_limit t i) (\<lambda>y. -29557 \<le> y \<and> 20 * y \<le> 16384 * b + 51)"
proof -
  define q where "q = a * 8192 div 24660"
  have q: "24660 * q \<le> a * 8192" "q \<le> 40" using div_window [of 24660 "a * 8192"] assms by (auto simp: q_def)
  define n where "n = (i - 1) * 49321 - t * 16384 + 10"
  have iq: "49321 * (i - 1) \<le> 49321 * q" using assms(2) by (simp add: q_def)
  have n: "- (27861 * 20) \<le> n" using assms(1,6) by (simp add: n_def)
  have n': "n \<le> 16384 * b + 51" using iq q assms(8) unfolding n_def by linarith
  note n = n n'
  have y: "- 27861 \<le> n sdiv 20" using n by (intro sdiv_ge) auto
  have "20 * (n sdiv 20) \<le> 16384 * b + 51"
  proof (cases "0 \<le> n")
    case True
    with n div_window [of 20 n] show ?thesis by (simp add: sdiv_nonneg)
  next
    case False
    then have "n sdiv 20 \<le> 0" by (intro sdiv_le) auto
    with assms show ?thesis by linarith
  qed
  moreover have "i \<le> 41" using assms(2) q by (simp add: q_def)
  moreover have "s16 (i - 1) = i - 1" using assms(1) calculation(2) by (intro s16_small) auto
  moreover have "in_s32 ((i - 1) * 49321)" "in_s32 (t * 16384)" "in_s32 ((i - 1) * 49321 - t * 16384)"
      "in_s32 n" "in_s32 (n sdiv 20)"
    using assms n y calculation(1,2) by (auto simp: in_s32_def)
  ultimately show ?thesis
    using y by (simp add: table_limit_def runs_simps WEBRTC_SPL_MUL_16_U16_def WebRtcSpl_DivW32W16_def
        kLog10_2_def u16_def n_def)
qed

lemma table_log2_runs:
  assumes "-29557 \<le> y" "y \<le> 73890"
  shows "runs (table_log2 y) (\<lambda>x. 163840 \<le> x \<and> x \<le> 507903 \<and> (y \<le> 14778 \<longrightarrow> x \<le> 311295))"
  using assms by (auto simp: table_log2_def kLog10_def runs_simps in_s32_def)

lemma table_frac_runs:
  assumes "0 \<le> f" "f \<le> 16383"
  shows "runs (table_frac f) (\<lambda>v. 0 \<le> v \<and> v \<le> 16383)"
  using assms by (auto simp: table_frac_def constLinApprox_def runs_simps in_s32_def s16_small)

lemma power_shift_runs:
  assumes "0 \<le> v" "v \<le> 16383" "0 \<le> n" "n \<le> 30"
  shows "runs (WEBRTC_SPL_SHIFT_W32 v (n - 14)) (\<lambda>q. 0 \<le> q \<and> q < 2 ^ nat n)"
proof (cases "14 \<le> n")
  case True
  define P where "P = (2::int) ^ nat (n - 14)"
  have P: "(2::int) ^ nat n = 16384 * P" "0 < P" "P \<le> 65536"
    using True assms power_add [of "2::int" 14 "nat (n - 14)"] power_increasing [of "nat (n - 14)" 16 "2::int"]
    by (auto simp: P_def nat_diff_distrib)
  then have v: "v * P \<le> 16383 * P" "0 \<le> v * P"
    using assms by (auto intro!: mult_right_mono)
  have "in_s32 (v * P)" "in_s32 P" using v P by (intro in_s32I; linarith)+
  with v P True assms show ?thesis
    by (simp add: WEBRTC_SPL_SHIFT_W32_def runs_simps P_def [symmetric])
next
  case False
  define P where "P = (2::int) ^ nat (14 - n)"
  have P: "2 ^ nat n * P = 16384" "0 < P"
    using False assms by (simp_all add: P_def flip: power_add nat_add_distrib)
  then have "P * (v div P) < P * 2 ^ nat n"
    using assms div_window [of P v] by (simp add: mult.commute)
  then have "v div P < 2 ^ nat n" using P by simp
  then show ?thesis
    using False assms P by (simp add: WEBRTC_SPL_SHIFT_W32_def runs_simps P_def [symmetric] pos_imp_zdiv_nonneg_iff)
qed

lemma table_power_runs:
  assumes "163840 \<le> x" "x \<le> 507903"
  shows "runs (table_power x) (\<lambda>e. 1024 \<le> e \<and> e \<le> 2147483647 \<and> (x \<le> 311295 \<longrightarrow> e \<le> 524287))"
proof -
  define n where "n = x div 16384"
  have n: "10 \<le> n" "n \<le> 30" "x \<le> 311295 \<Longrightarrow> n \<le> 18" using assms by (auto simp: n_def)
  have small: "u16 (s16 n) = n" "u16 (x mod 16384) = x mod 16384" using n by (simp_all add: s16_small u16_def)
  define P where "P = (2::int) ^ nat n"
  have "(2::int) ^ 10 \<le> P" "P \<le> 2 ^ 30" "n \<le> 18 \<Longrightarrow> P \<le> 2 ^ 18"
    unfolding P_def using n by (intro power_increasing; simp)+
  then have P: "1024 \<le> P" "P \<le> 1073741824" "n \<le> 18 \<Longrightarrow> P \<le> 262144" by simp_all
  have last: "runs (WEBRTC_SPL_SHIFT_W32 (u16 v) (n - 14))
      (\<lambda>q. in_s32 (P + q) \<and> 1024 \<le> P + q \<and> P + q \<le> 2147483647 \<and> (x \<le> 311295 \<longrightarrow> P + q \<le> 524287))"
    if "0 \<le> v \<and> v \<le> 16383" for v
    using power_shift_runs [of v n] that n P
    by (auto simp: u16_def P_def [symmetric] in_s32_def elim!: runs_mono)
  have "runs (table_frac (x mod 16384)) (\<lambda>v. 0 \<le> v \<and> v \<le> 16383)"
    by (rule table_frac_runs) auto
  then show ?thesis
    using assms small n P last
    by (auto simp: table_power_def runs_simps and_masks n_def [symmetric] P_def [symmetric] in_s32_def elim!: runs_mono)
qed

section \<open>The whole table\<close>

text \<open>
  The parameters the public interface leads to: a compression gain of 0 to 90 dB and a target of 0 to 31 dB;
  in the fixed digital mode the target is added to the gain, and the analog target is that sum.
\<close>

definition table_config :: "int \<Rightarrow> int \<Rightarrow> int \<Rightarrow> bool" where
  "table_config g t a \<longleftrightarrow> 0 \<le> g \<and> g \<le> 121 \<and> 0 \<le> t \<and> t \<le> 31 \<and> 0 \<le> a \<and> a \<le> 121 \<and> g - t \<le> 90 \<and> a - t \<le> 90"

lemma table_max_gain_runs:
  assumes "table_config g t a"
  shows "runs (table_max_gain g t a) (\<lambda>m. m \<le> max g a - t \<and> (2 * g + 1) div 3 \<le> m + 32)"
proof -
  define q where "q = (g * 2 - a * 2 + 1) sdiv 3"
  have q: "- 81 \<le> q" "q \<le> 81" "3 * q \<le> max (2 * (g - a) + 1) 0" "2 * (g - a) - 1 \<le> 3 * q"
    using assms by (cases "0 \<le> g * 2 - a * 2 + 1"; simp add: q_def sdiv_nonneg sdiv_neg table_config_def; linarith)+
  show ?thesis
    using assms q
    by (auto simp: table_max_gain_def runs_simps kCompRatio_def WebRtcSpl_DivW32W16ResW16_def table_config_def
        q_def [symmetric] s16_small in_s32_def max_def split: if_splits)
qed

lemma table_zero_gain_level_runs:
  assumes "-121 \<le> m" "m \<le> 121" "0 \<le> g" "g \<le> 121" "0 \<le> a" "a \<le> 121"
  shows "runs (table_zero_gain_level m g l a) (\<lambda>_. True)"
proof -
  have "- 190 \<le> (m * 3 + 1) sdiv 2" "(m * 3 + 1) sdiv 2 \<le> 190"
    using assms by (intro sdiv_le sdiv_ge; simp)+
  then show ?thesis
    using assms
    by (auto simp: table_zero_gain_level_def runs_simps kCompRatio_def kSoftLimiterLeft_def
        WebRtcSpl_DivW32W16ResW16_def s16_small in_s32_def)
qed

lemma table_diff_gain_eq: "0 \<le> g \<Longrightarrow> g \<le> 32767 \<Longrightarrow> table_diff_gain g = Some ((2 * g + 1) div 3)"
  by (auto simp: table_diff_gain_def kCompRatio_def WebRtcSpl_DivW32W16ResW16_def chk32_def div32_def
      in_s32_def sdiv_nonneg s16_small algebra_simps)

lemma table_limiter_eq:
  "0 \<le> t \<Longrightarrow> t \<le> 31 \<Longrightarrow> 0 \<le> a \<Longrightarrow> a \<le> 121 \<Longrightarrow> table_limiter t a = Some (2 + a * 8192 div 24660, t)"
  by (auto simp: table_limiter_def kCompRatio_def kLog10_2_def WebRtcSpl_DivW32W16ResW16_def chk32_def div32_def
      in_s32_def sdiv_nonneg s16_small)

lemma table_entry_runs:
  assumes c: "table_config g t a" and m: "m \<le> max g a - t" "(2 * g + 1) div 3 \<le> m + 32" and i: "0 \<le> i" "i \<le> 31"
  shows "runs (table_entry m ((2 * g + 1) div 3) (gen ((2 * g + 1) div 3)) (20 * gen ((2 * g + 1) div 3))
      l (2 + a * 8192 div 24660) t i)
    (\<lambda>e. 1024 \<le> e \<and> e \<le> 2147483647 \<and> (g - t \<le> 18 \<and> a - t \<le> 18 \<longrightarrow> e \<le> 524287))"
proof -
  define d where "d = (2 * g + 1) div 3"
  define k where "k = gen d"
  define B where "B = max 0 (max g a - t)"
  have d: "0 \<le> d" "d \<le> 81" using c by (auto simp: d_def table_config_def)
  have k: "256 \<le> k" "k \<le> 29916" "369 * d \<le> k"
    using d gen_bounds [of d] gen_small [of d] by (auto simp: k_def)
  have B: "0 \<le> B" "B \<le> 90" "g - t \<le> 18 \<and> a - t \<le> 18 \<longrightarrow> B \<le> 18" using c by (auto simp: B_def table_config_def)
  have dm: "d \<le> m + 32" "m \<le> B" using m by (simp_all add: d_def B_def)
  define q where "q = a * 8192 div 24660"
  have q: "0 \<le> q" "q \<le> 40" using c by (auto simp: q_def table_config_def)
  have num: "runs (do { n \<leftarrow> chk32 (m * k); n \<leftarrow> chk32 (n * 2 ^ 6); l \<leftarrow> chk32 (s32 x * d); chk32 (n - l) })
      (\<lambda>num. - (64 * k * 36) \<le> num \<and> num \<le> 64 * k * B)" if x: "0 \<le> x" "x \<le> 63900 + 23640 * d" for x
  proof -
    define xd kd dd mk Bk where "xd = x * d" and "kd = k * d" and "dd = d * d" and "mk = m * k" and "Bk = k * B"
    have b: "0 \<le> xd" "xd \<le> 63900 * d + 23640 * dd" "369 * dd \<le> kd" "kd \<le> 81 * k"
      "kd - 32 * k \<le> mk" "mk \<le> Bk" "Bk \<le> 29916 * 90"
      using x(1) d(1) k(1) mult_right_mono [OF x(2) d(1)] mult_right_mono [OF k(3) d(1)] mult_left_mono [OF d(2), of k]
        mult_left_mono [of "d - 32" m k] mult_left_mono [of m B k] dm mult_mono [OF k(2) B(2)] B
      by (simp_all add: xd_def dd_def kd_def mk_def Bk_def algebra_simps)
    have "s32 x = x" using x d by (intro s32_small) linarith+
    moreover have "in_s32 mk" "in_s32 (mk * 64)" "in_s32 xd" "in_s32 (mk * 64 - xd)"
      using b k d by (intro in_s32I; linarith)+
    moreover have "- (64 * k * 36) \<le> mk * 64 - xd" "mk * 64 - xd \<le> 64 * Bk"
      using b k d by linarith+
    ultimately show ?thesis
      by (simp add: runs_simps xd_def [symmetric] mk_def [symmetric] Bk_def)
  qed
  have y: "runs (do {
      y32 \<leftarrow> (if l \<noteq> 0 \<and> i < 2 + q then table_limit t i else Some y);
      tmp32 \<leftarrow> table_log2 y32;
      table_power tmp32}) (\<lambda>e. 1024 \<le> e \<and> e \<le> 2147483647 \<and> (g - t \<le> 18 \<and> a - t \<le> 18 \<longrightarrow> e \<le> 524287))"
    if "-29557 \<le> y" "y \<le> 821 * B" for y
  proof -
    have "runs (if l \<noteq> 0 \<and> i < 2 + q then table_limit t i else Some y)
        (\<lambda>y. -29557 \<le> y \<and> y \<le> 73890 \<and> (g - t \<le> 18 \<and> a - t \<le> 18 \<longrightarrow> y \<le> 14778))"
    proof (cases "l \<noteq> 0 \<and> i < 2 + q")
      case True
      then have "runs (table_limit t i) (\<lambda>y. -29557 \<le> y \<and> 20 * y \<le> 16384 * B + 51)"
        using c i B by (intro table_limit_runs [where a = a]) (auto simp: table_config_def q_def B_def)
      with True B show ?thesis by (auto elim!: runs_mono)
    next
      case False
      with that B show ?thesis by (auto simp: runs_simps)
    qed
    then show ?thesis
      by (rule runs_seq) (auto intro!: runs_seq [OF table_log2_runs] runs_mono [OF table_power_runs])
  qed
  have ratio: "runs (table_ratio num (20 * k)) (\<lambda>y. -29557 \<le> y \<and> y \<le> 821 * B)"
    if "- (64 * k * 36) \<le> num" "num \<le> 64 * k * B" for num
    using table_ratio_runs [of k 36 B num] that k B by simp
  have "runs (do { n \<leftarrow> chk32 (m * k); n \<leftarrow> chk32 (n * 2 ^ 6); l \<leftarrow> chk32 (s32 x * d); chk32 (n - l) })
      (\<lambda>num. runs (table_ratio num (20 * k)) (\<lambda>y. runs (do {
         y32 \<leftarrow> (if l \<noteq> 0 \<and> i < 2 + q then table_limit t i else Some y);
         tmp32 \<leftarrow> table_log2 y32;
         table_power tmp32}) (\<lambda>e. 1024 \<le> e \<and> e \<le> 2147483647 \<and> (g - t \<le> 18 \<and> a - t \<le> 18 \<longrightarrow> e \<le> 524287))))"
    if "0 \<le> x \<and> x \<le> 63900 + 23640 * d" for x
    by (rule runs_mono [OF num], use that in simp, use that in simp, rule runs_mono [OF ratio], simp, simp, rule y) simp_all
  then show ?thesis
    unfolding table_entry_def d_def [symmetric] k_def [symmetric] q_def [symmetric]
    by (intro runs_seq [OF table_log_approx_runs [OF d i]]) (simp only: runs_bind)
qed

lemma CalculateGainTable_runs:
  assumes c: "table_config g t a" and len: "length tab = 32"
  shows "runs (WebRtcAgc_CalculateGainTable tab g t l a) (\<lambda>r. fst r = 0 \<and> length (snd r) = 32
    \<and> (\<forall>e \<in> set (snd r). 1024 \<le> e \<and> e \<le> 2147483647 \<and> (g - t \<le> 18 \<and> a - t \<le> 18 \<longrightarrow> e \<le> 524287)))"
proof -
  let ?d = "(2 * g + 1) div 3"
  let ?E = "\<lambda>e. 1024 \<le> e \<and> e \<le> 2147483647 \<and> (g - t \<le> 18 \<and> a - t \<le> 18 \<longrightarrow> e \<le> 524287)"
  have d: "0 \<le> ?d" "?d \<le> 81" using c by (auto simp: table_config_def)
  have loop: "runs (foldM (\<lambda>i t'. do {
        v \<leftarrow> table_entry m ?d (gen ?d) (20 * gen ?d) l (2 + a * 8192 div 24660) t (int i);
        wr t' (int i) v }) [0..<32] tab) (\<lambda>tab. length tab = 32 \<and> (\<forall>e \<in> set tab. ?E e))"
    if m: "m \<le> max g a - t" "?d \<le> m + 32" for m
  proof -
    have step: "runs (do { v \<leftarrow> table_entry m ?d (gen ?d) (20 * gen ?d) l (2 + a * 8192 div 24660) t (int ([0..<32] ! i));
          wr t' (int ([0..<32] ! i)) v }) (\<lambda>t'. length t' = 32 \<and> (\<forall>j < Suc i. ?E (t' ! j)))"
      if "i < length [0..<32]" "length t' = 32 \<and> (\<forall>j < i. ?E (t' ! j))" for i t'
      using that table_entry_runs [OF c m, of "int i" l]
      by (auto simp: runs_simps less_Suc_eq nth_list_update elim!: runs_mono)
    have "runs (foldM (\<lambda>i t'. do {
        v \<leftarrow> table_entry m ?d (gen ?d) (20 * gen ?d) l (2 + a * 8192 div 24660) t (int i);
        wr t' (int i) v }) [0..<32] tab) (\<lambda>tab. length tab = 32 \<and> (\<forall>j < length [0..<32]. ?E (tab ! j)))"
      by (rule runs_foldM_index [where I = "\<lambda>i t'. length t' = 32 \<and> (\<forall>j < i. ?E (t' ! j))"])
        (use len step in auto)
    then show ?thesis
      by (rule runs_mono) (auto simp: all_set_conv_all_nth)
  qed
  have den: "WEBRTC_SPL_MUL_16_U16 20 (gen ?d) = Some (20 * gen ?d)"
    using gen_bounds [of ?d] d by (simp add: WEBRTC_SPL_MUL_16_U16_def chk32_def in_s32_def s16_small u16_def)
  show ?thesis
    unfolding WebRtcAgc_CalculateGainTable_def
  proof (rule runs_seq [OF table_max_gain_runs [OF c]])
    fix m assume m: "m \<le> max g a - t \<and> ?d \<le> m + 32"
    have "runs (table_zero_gain_level m g l a) (\<lambda>_. True)"
      using m d c by (intro table_zero_gain_level_runs) (auto simp: table_config_def)
    then show "runs (do {
        zeroGainLvl \<leftarrow> table_zero_gain_level m g l a;
        diffGain \<leftarrow> table_diff_gain g;
        (if diffGain < 0 \<or> diffGain \<ge> kGenFuncTableSize then Some (-1, tab)
         else do {
           (limiterIdx, limiterLvl) \<leftarrow> table_limiter t a;
           constMaxGain \<leftarrow> rd kGenFuncTable diffGain;
           den \<leftarrow> WEBRTC_SPL_MUL_16_U16 20 constMaxGain;
           gainTable \<leftarrow> foldM (\<lambda>i t'. do {
               v \<leftarrow> table_entry m diffGain constMaxGain den l limiterIdx limiterLvl (int i);
               wr t' (int i) v
             }) [0..<32] tab;
           Some (0, gainTable)
         })}) (\<lambda>r. fst r = 0 \<and> length (snd r) = 32 \<and> (\<forall>e \<in> set (snd r). ?E e))"
      by (rule runs_seq)
        (use m c d den loop [of m] in \<open>auto simp: table_config_def table_diff_gain_eq table_limiter_eq rd_gen
          kGenFuncTableSize_def runs_simps\<close>)
  qed
qed

lemma CalculateGainTable_rejects:
  assumes "in_s16 g" "in_s16 t" "in_s16 a" "g \<le> -2 \<or> 192 \<le> g"
  shows "WebRtcAgc_CalculateGainTable tab g t l a = Some (-1, tab)"
proof -
  have small: "in_s32 x" if "\<bar>x\<bar> \<le> 1000000" for x using that by (intro in_s32I) linarith+
  have max: "runs (table_max_gain g t a) in_s16"
  proof -
    have "- 43691 \<le> (g * 2 - a * 2 + 1) sdiv 3" "(g * 2 - a * 2 + 1) sdiv 3 \<le> 43691"
      using assms by (intro sdiv_le sdiv_ge; simp add: in_s16_def)+
    then show ?thesis
      using assms by (auto simp: table_max_gain_def runs_simps kCompRatio_def WebRtcSpl_DivW32W16ResW16_def
          in_s16_def intro!: small)
  qed
  have zero: "runs (table_zero_gain_level m g l a) (\<lambda>_. True)" if "in_s16 m" for m
  proof -
    have "- 49152 \<le> (m * 3 + 1) sdiv 2" "(m * 3 + 1) sdiv 2 \<le> 49152"
      using that by (intro sdiv_le sdiv_ge; simp add: in_s16_def)+
    moreover define z where "z = s16 (g - s16 ((m * 3 + 1) sdiv 2))"
    have "-32768 \<le> z" "z \<le> 32767" by (simp_all add: z_def)
    ultimately show ?thesis
      using assms that
      by (auto simp: table_zero_gain_level_def runs_simps kCompRatio_def kSoftLimiterLeft_def
          WebRtcSpl_DivW32W16ResW16_def in_s16_def z_def [symmetric] abs_le_iff intro!: small)
  qed
  define q where "q = (g * 2 + 1) sdiv 3"
  have "q < 0 \<or> 128 \<le> q" "-32768 \<le> q" "q \<le> 32767"
    using assms by (cases "0 \<le> g * 2 + 1"; simp add: q_def in_s16_def sdiv_nonneg sdiv_neg; linarith)+
  then have diff: "table_diff_gain g = Some q" "q < 0 \<or> q \<ge> kGenFuncTableSize"
    using assms by (simp_all add: table_diff_gain_def kCompRatio_def WebRtcSpl_DivW32W16ResW16_def chk32_def
        div32_def q_def [symmetric] in_s32_def in_s16_def s16_small kGenFuncTableSize_def)
  from max obtain m where m: "table_max_gain g t a = Some m" "in_s16 m" by (auto simp: runs_def)
  with zero [of m] diff show ?thesis
    by (auto simp: WebRtcAgc_CalculateGainTable_def runs_def)
qed

section \<open>Properties\<close>

text \<open>C9. For every configuration the public interface leads to (a gain of 0 to 90 dB, a target of 0
  to 31 dB, added to the gain in the fixed digital mode), with or without the limiter, the computation
  of the gain table is free of undefined behaviour, returns 0 and fills the 32 entries with gains of
  at least 1/64 (Q16) below 2^31; when the gain and the analog target exceed the target level by at
  most 18 dB the gains are below 8 (Q16).\<close>

theorem CalculateGainTable_total:
  assumes "table_config g t a" "length tab = 32"
  shows "\<exists>tab'. WebRtcAgc_CalculateGainTable tab g t l a = Some (0, tab') \<and> length tab' = 32
    \<and> (\<forall>e \<in> set tab'. 1024 \<le> e \<and> e < 2 ^ 31 \<and> (g - t \<le> 18 \<and> a - t \<le> 18 \<longrightarrow> e < 8 * 2 ^ 16))"
  using CalculateGainTable_runs [OF assms, of l] by (fastforce simp: runs_def)

theorem CalculateGainTable_total_witness:
  "table_config 9 3 9 \<and> (\<exists>tab'. WebRtcAgc_CalculateGainTable (replicate 32 0) 9 3 1 9 = Some (0, tab')
    \<and> (\<forall>e \<in> set tab'. 1024 \<le> e \<and> e < 524288))"
  using CalculateGainTable_total [of 9 3 9 "replicate 32 0" 1] by (auto simp: table_config_def)

text \<open>C34. A compression gain whose gain difference falls outside the generator table is rejected:
  the function returns -1, without undefined behaviour, and leaves the table as it was, for all
  16-bit arguments.\<close>

theorem CalculateGainTable_error:
  assumes "in_s16 g" "in_s16 t" "in_s16 a" "g \<le> -2 \<or> 192 \<le> g"
  shows "WebRtcAgc_CalculateGainTable tab g t l a = Some (-1, tab)"
  using assms by (rule CalculateGainTable_rejects)

theorem CalculateGainTable_error_witness:
  "WebRtcAgc_CalculateGainTable [7] 192 3 1 9 = Some (-1, [7])
   \<and> WebRtcAgc_CalculateGainTable [7] (-2) 3 1 9 = Some (-1, [7])"
  using CalculateGainTable_error [of 192 3 9 "[7]" 1] CalculateGainTable_error [of "-2" 3 9 "[7]" 1]
  by (simp add: in_s16_def)

end
