(* ===== verification/Digital_Agc.thy ===== *)
theory Digital_Agc
  imports Agc_Vad Gain_Table
begin

text \<open>
  The digital gain control of \<^verbatim>\<open>src/digital_agc/digital_agc.c\<close> on the struct \<open>DigitalAgc\<close>:
  \<open>WebRtcAgc_InitDigital\<close>, \<open>WebRtcAgc_AddFarendToDigital\<close> and \<open>WebRtcAgc_ProcessDigital\<close>. The
  body of \<open>ProcessDigital\<close> is split in the order of the code: copy of the bands, decay of the slow
  envelope, envelope of the sub frames, envelope followers and table lookup, gate, limiter, smoothing,
  first sub frame, other sub frames.

  The limiter's \<open>while\<close> loop is a \<open>partial_function\<close>: not ending is the value \<open>None\<close>.

  The invariant \<open>digital_inv\<close> (gains of at most 8 in Q16, envelopes of at most 2^30) holds after
  initialisation with such a table and is preserved by every operation; under it a frame is processed
  without undefined behaviour, the limiter ends, and the only way to fail is the overflow of the voice
  activity detector.
\<close>

section \<open>State and macros\<close>

record DigitalAgc =
  capacitorSlow :: int
  capacitorFast :: int
  gain :: int
  gainTable :: "int list"
  gatePrevious :: int
  agcMode :: int
  vadNearend :: AgcVad
  vadFarend :: AgcVad

definition kAgcModeUnchanged :: int where "kAgcModeUnchanged = 0"

definition kAgcModeAdaptiveAnalog :: int where "kAgcModeAdaptiveAnalog = 1"

definition kAgcModeAdaptiveDigital :: int where "kAgcModeAdaptiveDigital = 2"

definition kAgcModeFixedDigital :: int where "kAgcModeFixedDigital = 3"

definition AGC_MUL32 :: "int \<Rightarrow> int \<Rightarrow> int option" where
  "AGC_MUL32 A B = do {
     hi \<leftarrow> chk32 ((B div 2 ^ 13) * A);
     lo \<leftarrow> chk32 ((0x00001FFF AND B) * A);
     chk32 (hi + lo div 2 ^ 13)
   }"

definition AGC_SCALEDIFF32 :: "int \<Rightarrow> int \<Rightarrow> int \<Rightarrow> int option" where
  "AGC_SCALEDIFF32 A B C = do {
     hi \<leftarrow> chk32 ((B div 2 ^ 16) * A);
     acc \<leftarrow> chk32 (C + hi);
     lo \<leftarrow> chk32 ((0x0000FFFF AND B) * A);
     chk32 (acc + lo div 2 ^ 16)
   }"

section \<open>Initialisation and far end\<close>

definition WebRtcAgc_InitDigital :: "DigitalAgc \<Rightarrow> int \<Rightarrow> DigitalAgc \<times> int" where
  "WebRtcAgc_InitDigital stt mode =
    (let stt = (if mode = kAgcModeFixedDigital then stt\<lparr>capacitorSlow := 0\<rparr>
                else stt\<lparr>capacitorSlow := 134217728\<rparr>);
         stt = stt\<lparr>capacitorFast := 0, gain := 65536, gatePrevious := 0, agcMode := mode\<rparr>;
         stt = stt\<lparr>vadNearend := WebRtcAgc_InitVad (vadNearend stt),
                   vadFarend := WebRtcAgc_InitVad (vadFarend stt)\<rparr>
     in (stt, 0))"

text \<open>A pointer that may be null is an option.\<close>

definition WebRtcAgc_AddFarendToDigital ::
  "DigitalAgc option \<Rightarrow> int list \<Rightarrow> nat \<Rightarrow> (DigitalAgc option \<times> int) option" where
  "WebRtcAgc_AddFarendToDigital stt in_far nrSamples =
     (case stt of None \<Rightarrow> Some (None, -1)
      | Some stt \<Rightarrow> do {
          (vad, r) \<leftarrow> WebRtcAgc_ProcessVad (vadFarend stt) in_far nrSamples;
          Some (Some (stt\<lparr>vadFarend := vad\<rparr>), 0)
        })"

section \<open>Frame processing\<close>

text \<open>Samples per millisecond and its logarithm.\<close>

definition digital_rate :: "int \<Rightarrow> (nat \<times> int) option" where
  "digital_rate FS =
     (if FS = 8000 then Some (8, 3)
      else if FS = 16000 \<or> FS = 32000 \<or> FS = 48000 then Some (16, 4)
      else None)"

text \<open>
  Copy of the input bands. An output buffer is \<open>None\<close> when \<open>out[i]\<close> is \<open>in_near[i]\<close> itself.
\<close>

definition digital_copy :: "nat \<Rightarrow> int list list \<Rightarrow> nat \<Rightarrow> int list option list \<Rightarrow> int list list option" where
  "digital_copy L in_near num_bands out = mapM (\<lambda>i. do {
     inp \<leftarrow> rd in_near (int i);
     o_i \<leftarrow> rd out (int i);
     (case o_i of None \<Rightarrow> Some inp
      | Some buf \<Rightarrow> do {
          new \<leftarrow> rd_block inp 0 (10 * L);
          old \<leftarrow> rd_block buf 0 (10 * L);
          Some (new @ drop (10 * L) buf)
        })
   }) [0..<num_bands]"

definition digital_logratio :: "DigitalAgc \<Rightarrow> int \<Rightarrow> int option" where
  "digital_logratio stt logratio =
     (if counter (vadFarend stt) > 10 then do {
        tmp32 \<leftarrow> chk32 (3 * logratio);
        d \<leftarrow> chk32 (tmp32 - logRatio (vadFarend stt));
        Some (s16 (d div 2 ^ 2))
      } else Some logratio)"

definition digital_decay :: "DigitalAgc \<Rightarrow> int \<Rightarrow> int \<Rightarrow> int option" where
  "digital_decay stt logratio lowlevelSignal = do {
     let upper_thr = 1024;
     let lower_thr = 0;
     decay \<leftarrow> (if logratio > upper_thr then Some (-65)
               else if logratio < lower_thr then Some 0
               else do {
                 tmp32 \<leftarrow> chk32 ((lower_thr - logratio) * 65);
                 Some (s16 (tmp32 div 2 ^ 10))
               });
     (if agcMode stt \<noteq> kAgcModeFixedDigital then do {
        decay \<leftarrow> (if stdLongTerm (vadNearend stt) < 4000 then Some 0
                  else if stdLongTerm (vadNearend stt) < 8096 then do {
                    tmp32 \<leftarrow> chk32 ((stdLongTerm (vadNearend stt) - 4000) * decay);
                    Some (s16 (tmp32 div 2 ^ 12))
                  } else Some decay);
        Some (if lowlevelSignal \<noteq> 0 then 0 else decay)
      } else Some decay)
   }"

text \<open>Maximal squared amplitude of each sub frame.\<close>

definition digital_env :: "nat \<Rightarrow> int list \<Rightarrow> int list option" where
  "digital_env L x = mapM (\<lambda>k. foldM (\<lambda>n max_nrg. do {
       a \<leftarrow> rd x (int (k * L + n));
       nrg \<leftarrow> chk32 (a * a);
       Some (if nrg > max_nrg then nrg else max_nrg)
     }) [0..<L] 0) [0..<10]"

text \<open>Fast and slow envelope followers; the result holds the current level.\<close>

definition digital_follow :: "int \<Rightarrow> int \<Rightarrow> int \<times> int \<Rightarrow> (int \<times> int \<times> int) option" where
  "digital_follow decay env_k caps = do {
     let (fast, slow) = caps;
     fast \<leftarrow> AGC_SCALEDIFF32 (-1000) fast fast;
     let fast = (if env_k > fast then env_k else fast);
     slow \<leftarrow> (if env_k > slow then do { d \<leftarrow> chk32 (env_k - slow); AGC_SCALEDIFF32 500 d slow }
              else AGC_SCALEDIFF32 decay slow slow);
     Some (fast, slow, if fast > slow then fast else slow)
   }"

text \<open>Piecewise linear translation of a level into a gain: leading zeros, fraction, gain.\<close>

definition level_zeros :: "int \<Rightarrow> int" where
  "level_zeros cur_level = (if cur_level = 0 then 31 else WebRtcSpl_NormU32 (u32 cur_level))"

definition level_mantissa :: "int \<Rightarrow> int \<Rightarrow> int" where
  "level_mantissa cur_level zeros = s32 (u32 (u32 cur_level * 2 ^ nat zeros) AND 0x7FFFFFFF)"

definition digital_lookup :: "int list \<Rightarrow> int \<Rightarrow> (int \<times> int \<times> int) option" where
  "digital_lookup table cur_level = do {
     let zeros = level_zeros cur_level;
     let frc = s16 (level_mantissa cur_level zeros div 2 ^ 19);
     a \<leftarrow> rd table (zeros - 1);
     b \<leftarrow> rd table zeros;
     d \<leftarrow> chk32 (a - b);
     tmp32 \<leftarrow> chk32 (d * frc);
     g \<leftarrow> chk32 (b + tmp32 div 2 ^ 12);
     Some (zeros, frc, g)
   }"

text \<open>The loop over the sub frames; its variables are the capacitors, \<open>zeros\<close>, \<open>frc\<close>, \<open>gains\<close>.\<close>

type_synonym gain_loop = "(int \<times> int) \<times> int \<times> int \<times> int list"

definition digital_gain_step :: "int list \<Rightarrow> int \<Rightarrow> int \<Rightarrow> gain_loop \<Rightarrow> gain_loop option" where
  "digital_gain_step table decay env_k st = do {
     let (caps, zeros, frc, gains) = st;
     (fast, slow, cur_level) \<leftarrow> digital_follow decay env_k caps;
     (zeros, frc, g) \<leftarrow> digital_lookup table cur_level;
     Some ((fast, slow), zeros, frc, gains @ [g])
   }"

definition digital_gains :: "int list \<Rightarrow> int \<Rightarrow> int list \<Rightarrow> gain_loop \<Rightarrow> gain_loop option" where
  "digital_gains table decay env st = foldM (digital_gain_step table decay) env st"

text \<open>Gate: the value and the gate to remember.\<close>

definition digital_gate :: "int \<Rightarrow> int \<Rightarrow> int \<Rightarrow> int \<Rightarrow> int \<Rightarrow> (int \<times> int) option" where
  "digital_gate fast zeros frc stdShort gatePrev = do {
     z \<leftarrow> shl32 zeros 9;
     let zeros = s16 (z - frc div 2 ^ 3);
     let zeros_fast = level_zeros fast;
     let tmp32 = level_mantissa fast zeros_fast;
     zf \<leftarrow> shl32 zeros_fast 9;
     let zeros_fast = s16 (s16 zf - s16 (tmp32 div 2 ^ 22));
     let gate = s16 (1000 + zeros_fast - zeros - stdShort);
     (if gate < 0 then Some (gate, 0)
      else do {
        tmp32 \<leftarrow> chk32 (gatePrev * 7);
        g \<leftarrow> chk32 (gate + tmp32);
        let gate = s16 (g div 2 ^ 3);
        Some (gate, gate)
      })
   }"

definition digital_gate_gain :: "int \<Rightarrow> int \<Rightarrow> int \<Rightarrow> int option" where
  "digital_gate_gain table0 gain_adj g = do {
     d \<leftarrow> chk32 (g - table0);
     tmp32 \<leftarrow> (if d > 8388608 then chk32 ((d div 2 ^ 8) * (178 + gain_adj))
               else do { t \<leftarrow> chk32 (d * (178 + gain_adj)); Some (t div 2 ^ 8) });
     chk32 (table0 + tmp32)
   }"

definition digital_apply_gate :: "int \<Rightarrow> int list \<Rightarrow> int list \<Rightarrow> int list option" where
  "digital_apply_gate gate table gains =
     (if gate > 0 then do {
        let gain_adj = s16 (if gate < 2500 then (2500 - gate) div 2 ^ 5 else 0);
        table0 \<leftarrow> rd table 0;
        mapM (digital_gate_gain table0 gain_adj) gains
      } else Some gains)"

text \<open>Limiter of one sub frame.\<close>

definition limit_overload :: "int \<Rightarrow> int \<Rightarrow> int \<Rightarrow> bool option" where
  "limit_overload env_k zeros g = do {
     s \<leftarrow> sar32 g zeros;
     gain32 \<leftarrow> chk32 (s + 1);
     gain32 \<leftarrow> chk32 (gain32 * gain32);
     l \<leftarrow> AGC_MUL32 (env_k div 2 ^ 12 + 1) gain32;
     r \<leftarrow> WEBRTC_SPL_SHIFT_W32 32767 (2 * (1 - zeros + 10));
     Some (l > r)
   }"

definition limit_step :: "int \<Rightarrow> int option" where
  "limit_step g =
     (if g > 8388607 then do { q \<leftarrow> div32 g 256; chk32 (q * 253) }
      else do { p \<leftarrow> chk32 (g * 253); div32 p 256 })"

partial_function (option) limit_loop :: "int \<Rightarrow> int \<Rightarrow> int \<Rightarrow> int option" where
  "limit_loop env_k zeros g = do {
     over \<leftarrow> limit_overload env_k zeros g;
     (if over then do { g' \<leftarrow> limit_step g; limit_loop env_k zeros g' } else Some g)
   }"

declare limit_loop.simps [code]

definition digital_limit :: "int \<Rightarrow> int \<Rightarrow> int option" where
  "digital_limit env_k g = do {
     let zeros = (if g > 47453132 then 16 - WebRtcSpl_NormW32 g else 10);
     limit_loop env_k zeros g
   }"

text \<open>Gain reductions are moved one sub frame earlier; index \<open>0\<close> is left alone.\<close>

fun digital_smooth_from :: "int list \<Rightarrow> int list" where
  "digital_smooth_from (a # b # gs) = (if a > b then b else a) # digital_smooth_from (b # gs)"
| "digital_smooth_from gs = gs"

definition digital_smooth :: "int list \<Rightarrow> int list" where
  "digital_smooth gains = take 1 gains @ digital_smooth_from (drop 1 gains)"

text \<open>One sample of the first sub frame, in 32-bit arithmetic, and of the others, in 64-bit.\<close>

definition gain_sample_first :: "int \<Rightarrow> int \<Rightarrow> int option" where
  "gain_sample_first gain32 x = do {
     g \<leftarrow> chk32 (gain32 + 127);
     tmp32 \<leftarrow> chk32 (x * (g div 2 ^ 7));
     let out_tmp = tmp32 div 2 ^ 16;
     (if out_tmp > 4095 then Some 32767
      else if out_tmp < -4096 then Some (-32768)
      else do {
        tmp32 \<leftarrow> chk32 (x * (gain32 div 2 ^ 4));
        Some (s16 (tmp32 div 2 ^ 16))
      })
   }"

definition gain_sample :: "int \<Rightarrow> int \<Rightarrow> int option" where
  "gain_sample gain32 x = do {
     tmp64 \<leftarrow> chk64 (x * (gain32 div 2 ^ 4));
     let tmp64 = tmp64 div 2 ^ 16;
     Some (if tmp64 > 32767 then 32767 else if tmp64 < -32768 then -32768 else s16 tmp64)
   }"

text \<open>Applying a ramp of gains to sub frame \<open>k\<close> of every band.\<close>

definition apply_bands :: "(int \<Rightarrow> int option) \<Rightarrow> nat \<Rightarrow> int list list \<Rightarrow> int list list option" where
  "apply_bands f pos out = mapM (\<lambda>row. do { x \<leftarrow> rd row (int pos); y \<leftarrow> f x; wr row (int pos) y }) out"

definition apply_subframe ::
  "(int \<Rightarrow> int \<Rightarrow> int option) \<Rightarrow> nat \<Rightarrow> int \<Rightarrow> int list \<Rightarrow> nat \<Rightarrow> int list list \<Rightarrow> int list list option" where
  "apply_subframe f L L2 gains k out = do {
     a \<leftarrow> rd gains (int k);
     b \<leftarrow> rd gains (int k + 1);
     d \<leftarrow> chk32 (b - a);
     m \<leftarrow> shl32 1 (4 - L2);
     delta \<leftarrow> chk32 (d * m);
     gain32 \<leftarrow> chk32 (a * 2 ^ 4);
     (gain32, out) \<leftarrow> foldM (\<lambda>n (gain32, out). do {
         out \<leftarrow> apply_bands (f gain32) (k * L + n) out;
         gain32 \<leftarrow> chk32 (gain32 + delta);
         Some (gain32, out)
       }) [0..<L] (gain32, out);
     Some out
   }"

definition digital_apply :: "nat \<Rightarrow> int \<Rightarrow> int list \<Rightarrow> int list list \<Rightarrow> int list list option" where
  "digital_apply L L2 gains out = do {
     out \<leftarrow> apply_subframe gain_sample_first L L2 gains 0 out;
     foldM (apply_subframe gain_sample L L2 gains) [1..<10] out
   }"

text \<open>
  The gains of a frame, from the envelope to the smoothed gains; the capacitors, the gate and the
  start gain of the next frame are stored.
\<close>

definition digital_frame_gains :: "DigitalAgc \<Rightarrow> int \<Rightarrow> int list \<Rightarrow> (DigitalAgc \<times> int list) option" where
  "digital_frame_gains stt decay env = do {
     ((fast, slow), zeros, frc, gains) \<leftarrow> digital_gains (gainTable stt) decay env
        ((capacitorFast stt, capacitorSlow stt), 0, 0, []);
     let stt' = stt\<lparr>capacitorFast := fast, capacitorSlow := slow\<rparr>;
     (gate, gp) \<leftarrow> digital_gate fast zeros frc (stdShortTerm (vadNearend stt)) (gatePrevious stt);
     let stt' = stt'\<lparr>gatePrevious := gp\<rparr>;
     gains \<leftarrow> digital_apply_gate gate (gainTable stt) gains;
     gains \<leftarrow> mapM (\<lambda>(e, g). digital_limit e g) (zip env gains);
     let gains = digital_smooth (gain stt # gains);
     Some (stt'\<lparr>gain := last gains\<rparr>, gains)
   }"

text \<open>What the output buffers hold before the call.\<close>

definition out_contents :: "int list list \<Rightarrow> int list option list \<Rightarrow> int list list" where
  "out_contents in_near out = map (\<lambda>(inp, o_i). case o_i of None \<Rightarrow> inp | Some buf \<Rightarrow> buf) (zip in_near out)"

definition WebRtcAgc_ProcessDigital ::
  "DigitalAgc \<Rightarrow> int list list \<Rightarrow> nat \<Rightarrow> int list option list \<Rightarrow> int \<Rightarrow> int
    \<Rightarrow> (DigitalAgc \<times> int list list \<times> int) option" where
  "WebRtcAgc_ProcessDigital stt in_near num_bands out FS lowlevelSignal =
     (case digital_rate FS of
        None \<Rightarrow> Some (stt, out_contents in_near out, -1)
      | Some (L, L2) \<Rightarrow> do {
          out \<leftarrow> digital_copy L in_near num_bands out;
          x \<leftarrow> rd out 0;
          (vad, logratio) \<leftarrow> WebRtcAgc_ProcessVad (vadNearend stt) x (L * 10);
          let stt = stt\<lparr>vadNearend := vad\<rparr>;
          logratio \<leftarrow> digital_logratio stt logratio;
          decay \<leftarrow> digital_decay stt logratio lowlevelSignal;
          env \<leftarrow> digital_env L x;
          (stt, gains) \<leftarrow> digital_frame_gains stt decay env;
          out \<leftarrow> digital_apply L L2 gains out;
          Some (stt, out, 0)
        })"

section \<open>Envelopes\<close>

lemma scaled_nonneg: "0 \<le> d \<Longrightarrow> 0 \<le> f \<Longrightarrow> f \<le> m \<Longrightarrow> 0 < m \<Longrightarrow> 0 \<le> d * f div m \<and> d * f div m \<le> (d::int)"
  using mult_left_mono [of f m d] zdiv_mono1 [of "d * f" "d * m" m]
  by (simp add: pos_imp_zdiv_nonneg_iff)

lemma scaled_nonpos:
  assumes "d \<le> 0" "0 \<le> f" "f \<le> m" "0 < (m::int)"
  shows "d \<le> d * f div m" "d * f div m \<le> 0"
proof -
  have "d * m \<le> d * f" using assms mult_left_mono_neg by blast
  then have "(d * m) div m \<le> d * f div m" using assms by (intro zdiv_mono1)
  then show "d \<le> d * f div m" using assms by simp
  have "d * f \<le> 0" using assms by (simp add: mult_nonpos_nonneg)
  then have "d * f div m \<le> 0 div m" using assms by (intro zdiv_mono1)
  then show "d * f div m \<le> 0" by simp
qed

lemma AGC_SCALEDIFF32_runs:
  assumes "-1000 \<le> A" "A \<le> 1000" "0 \<le> B" "B \<le> 1073741824" "0 \<le> C" "C \<le> 1073741824"
  shows "runs (AGC_SCALEDIFF32 A B C) (\<lambda>r. r = C + B * A div 65536)"
proof -
  define h l where "h = B div 65536" and "l = B mod 65536"
  have hl: "0 \<le> h" "h \<le> 16384" "0 \<le> l" "l \<le> 65535" using assms by (auto simp: h_def l_def)
  have "\<bar>h * A\<bar> \<le> 16384 * 1000" "\<bar>l * A\<bar> \<le> 65535 * 1000"
    using assms hl by (intro abs_mult_le; simp)+
  then have p: "-16384000 \<le> h * A" "h * A \<le> 16384000" "-65535000 \<le> l * A" "l * A \<le> 65535000"
    by linarith+
  define q where "q = l * A div 65536"
  have q: "-1000 \<le> q" "q \<le> 1000" unfolding q_def using p by linarith+
  have "h * A + q = B * A div 65536"
    using split_mult_div [of 65536 B A] by (simp add: h_def l_def q_def)
  moreover have "in_s32 (h * A)" "in_s32 (C + h * A)" "in_s32 (l * A)" "in_s32 (C + h * A + q)"
    using p q assms by (intro in_s32I; linarith)+
  ultimately show ?thesis
    by (simp add: AGC_SCALEDIFF32_def runs_simps and_masks_left
        h_def [symmetric] l_def [symmetric] q_def [symmetric] add.assoc)
qed

definition env_ok :: "int \<Rightarrow> bool" where
  "env_ok e \<longleftrightarrow> 0 \<le> e \<and> e \<le> 1073741824"

lemma decay_runs:
  assumes "env_ok c" "-1000 \<le> a" "a \<le> 0"
  shows "runs (AGC_SCALEDIFF32 a c c) env_ok"
proof -
  have "- c \<le> c * a div 65536" "c * a div 65536 \<le> 0"
    using scaled_nonpos [of "- c" "- a" 65536] assms by (simp_all add: env_ok_def)
  moreover have "runs (AGC_SCALEDIFF32 a c c) (\<lambda>r. r = c + c * a div 65536)"
    using assms by (intro AGC_SCALEDIFF32_runs) (auto simp: env_ok_def)
  ultimately show ?thesis using assms by (auto simp: env_ok_def elim!: runs_mono)
qed

lemma attack_runs:
  assumes "env_ok c" "env_ok e" "c < e"
  shows "runs (do { d \<leftarrow> chk32 (e - c); AGC_SCALEDIFF32 500 d c }) env_ok"
proof -
  have "0 \<le> (e - c) * 500 div 65536 \<and> (e - c) * 500 div 65536 \<le> e - c"
    using assms by (intro scaled_nonneg) auto
  moreover have "runs (AGC_SCALEDIFF32 500 (e - c) c) (\<lambda>r. r = c + (e - c) * 500 div 65536)"
    using assms by (intro AGC_SCALEDIFF32_runs) (auto simp: env_ok_def)
  ultimately show ?thesis
    using assms by (auto simp: env_ok_def runs_simps in_s32_def elim!: runs_mono)
qed

lemma digital_follow_runs:
  assumes "env_ok e" "env_ok (fst caps)" "env_ok (snd caps)" "-65 \<le> decay" "decay \<le> 0"
  shows "runs (digital_follow decay e caps)
    (\<lambda>r. env_ok (fst r) \<and> env_ok (fst (snd r)) \<and> env_ok (snd (snd r)) \<and> e \<le> fst r)"
proof -
  have slow: "runs (if e > snd caps then do { d \<leftarrow> chk32 (e - snd caps); AGC_SCALEDIFF32 500 d (snd caps) }
      else AGC_SCALEDIFF32 decay (snd caps) (snd caps)) env_ok"
    using attack_runs [OF assms(3,1)] decay_runs [OF assms(3), of decay] assms by (auto simp: not_less)
  have fast: "runs (AGC_SCALEDIFF32 (-1000) (fst caps) (fst caps)) env_ok"
    using decay_runs [OF assms(2), of "-1000"] by simp
  show ?thesis
    unfolding digital_follow_def Let_def case_prod_beta
    by (rule runs_seq [OF fast], rule runs_seq [OF slow]) (use assms(1) in \<open>auto simp: runs_simps\<close>)
qed

section \<open>Table lookup\<close>

definition gain_ok :: "int \<Rightarrow> bool" where
  "gain_ok g \<longleftrightarrow> 0 \<le> g \<and> g \<le> 524288"

definition table_ok :: "int list \<Rightarrow> bool" where
  "table_ok t \<longleftrightarrow> length t = 32 \<and> (\<forall>e \<in> set t. gain_ok e)"

lemma level_zeros_range:
  assumes "env_ok l"
  shows "1 \<le> level_zeros l" "level_zeros l \<le> 31"
  using assms NormU32_small [of l 31] NormU32_bounds [of l]
  by (auto simp: level_zeros_def env_ok_def u32_def)

lemma level_mantissa_range: "0 \<le> level_mantissa l z" "level_mantissa l z \<le> 2147483647"
proof -
  define r where "r = u32 (u32 l * 2 ^ nat z) mod 2147483648"
  have "0 \<le> r" "r \<le> 2147483647" by (simp_all add: r_def)
  then show "0 \<le> level_mantissa l z" "level_mantissa l z \<le> 2147483647"
    by (simp_all add: level_mantissa_def and_masks r_def [symmetric] s32_small)
qed

lemma frac_range:
  "0 \<le> s16 (level_mantissa l z div 524288)" "s16 (level_mantissa l z div 524288) \<le> 4095"
proof -
  define f where "f = level_mantissa l z div 524288"
  have "0 \<le> f" "f \<le> 4095" using level_mantissa_range [of l z] by (auto simp: f_def)
  then show "0 \<le> s16 (level_mantissa l z div 524288)" "s16 (level_mantissa l z div 524288) \<le> 4095"
    by (simp_all add: f_def [symmetric] s16_small)
qed

lemma interpolate_ok:
  assumes "gain_ok a" "gain_ok b" "0 \<le> f" "f \<le> m" "0 < m"
  shows "gain_ok (b + (a - b) * f div m)"
proof (cases "b \<le> a")
  case True
  with scaled_nonneg [of "a - b" f m] assms show ?thesis by (auto simp: gain_ok_def)
next
  case False
  with scaled_nonpos [of "a - b" f m] assms show ?thesis by (auto simp: gain_ok_def)
qed

lemma digital_lookup_runs:
  assumes t: "table_ok t" and l: "env_ok l"
  shows "runs (digital_lookup t l) (\<lambda>r. 1 \<le> fst r \<and> fst r \<le> 31 \<and> 0 \<le> fst (snd r) \<and> fst (snd r) \<le> 4095
    \<and> gain_ok (snd (snd r)))"
proof -
  define z where "z = level_zeros l"
  define f where "f = s16 (level_mantissa l z div 524288)"
  define a b where "a = t ! nat (z - 1)" and "b = t ! nat z"
  have z: "1 \<le> z" "z \<le> 31" using level_zeros_range [OF l] by (simp_all add: z_def)
  have f: "0 \<le> f" "f \<le> 4095" using frac_range by (simp_all add: f_def)
  have ab: "gain_ok a" "gain_ok b" using t z by (auto simp: table_ok_def a_def b_def)
  then have d: "\<bar>a - b\<bar> \<le> 524288" by (auto simp: gain_ok_def)
  with f have "\<bar>(a - b) * f\<bar> \<le> 524288 * 4095" by (intro abs_mult_le) auto
  then have "in_s32 ((a - b) * f)" by (intro in_s32I) linarith+
  moreover have "gain_ok (b + (a - b) * f div 4096)" using ab f by (intro interpolate_ok) auto
  moreover have "in_s32 (b + (a - b) * f div 4096)" using calculation(2) by (auto simp: gain_ok_def in_s32_def)
  moreover have "in_s32 (a - b)" using d by (intro in_s32I) linarith+
  ultimately show ?thesis
    using z f t by (simp add: digital_lookup_def runs_simps table_ok_def z_def [symmetric] f_def [symmetric]
        a_def [symmetric] b_def [symmetric])
qed

text \<open>The loop over the sub frames.\<close>

definition gain_loop_inv :: "gain_loop \<Rightarrow> bool" where
  "gain_loop_inv st = (case st of ((fast, slow), zeros, frc, gains) \<Rightarrow>
     env_ok fast \<and> env_ok slow \<and> 0 \<le> zeros \<and> zeros \<le> 31 \<and> 0 \<le> frc \<and> frc \<le> 4095
     \<and> (\<forall>g \<in> set gains. gain_ok g))"

lemma digital_gain_step_runs:
  assumes "table_ok t" "env_ok e" "-65 \<le> decay" "decay \<le> 0" "gain_loop_inv st"
  shows "runs (digital_gain_step t decay e st) (\<lambda>r. gain_loop_inv r
    \<and> length (snd (snd (snd r))) = Suc (length (snd (snd (snd st)))))"
proof -
  obtain fast slow zeros frc gains where st: "st = ((fast, slow), zeros, frc, gains)" by (metis prod.collapse)
  have follow: "runs (digital_follow decay e (fast, slow))
    (\<lambda>r. env_ok (fst r) \<and> env_ok (fst (snd r)) \<and> env_ok (snd (snd r)) \<and> e \<le> fst r)"
    using assms by (intro digital_follow_runs) (auto simp: st gain_loop_inv_def)
  have lookup: "runs (digital_lookup t l) (\<lambda>x. gain_loop_inv ((fa, sl), fst x, fst (snd x), gains @ [snd (snd x)]))"
    if "env_ok fa" "env_ok sl" "env_ok l" for fa sl l
    using digital_lookup_runs [OF assms(1) that(3)] assms(5) that
    by (auto simp: gain_loop_inv_def st elim!: runs_mono)
  show ?thesis
    unfolding digital_gain_step_def st Let_def prod.case
    by (rule runs_seq [OF follow]) (use lookup in \<open>auto simp: runs_simps\<close>)
qed

lemma digital_gains_runs:
  assumes "table_ok t" "\<forall>e \<in> set env. env_ok e" "-65 \<le> decay" "decay \<le> 0" "gain_loop_inv st"
  shows "runs (digital_gains t decay env st) (\<lambda>r. gain_loop_inv r
    \<and> length (snd (snd (snd r))) = length (snd (snd (snd st))) + length env)"
  unfolding digital_gains_def
proof (rule runs_foldM_index [where I = "\<lambda>i r. gain_loop_inv r
    \<and> length (snd (snd (snd r))) = length (snd (snd (snd st))) + i"])
  fix i r
  assume "i < length env" and r: "gain_loop_inv r
    \<and> length (snd (snd (snd r))) = length (snd (snd (snd st))) + i"
  then have "runs (digital_gain_step t decay (env ! i) r) (\<lambda>r'. gain_loop_inv r'
      \<and> length (snd (snd (snd r'))) = Suc (length (snd (snd (snd r)))))"
    using assms by (intro digital_gain_step_runs) auto
  with r show "runs (digital_gain_step t decay (env ! i) r) (\<lambda>r'. gain_loop_inv r'
      \<and> length (snd (snd (snd r'))) = length (snd (snd (snd st))) + Suc i)"
    by simp
qed (use assms in simp)


section \<open>Gate\<close>

lemma digital_gate_runs:
  assumes "env_ok fast" "0 \<le> zeros" "zeros \<le> 31" "0 \<le> frc" "frc \<le> 4095" "in_s16 std" "0 \<le> gp" "gp \<le> 32767"
  shows "runs (digital_gate fast zeros frc std gp) (\<lambda>r. in_s16 (fst r) \<and> 0 \<le> snd r \<and> snd r \<le> 32767)"
proof -
  have z: "1 \<le> level_zeros fast" "level_zeros fast \<le> 31" using level_zeros_range [OF assms(1)] .
  have shl: "in_s32 (zeros * 512)" "in_s32 (level_zeros fast * 512)" using assms z by (auto simp: in_s32_def)
  have gate: "in_s32 (g + gp * 7)" "in_s32 (gp * 7)" "0 \<le> s16 ((g + gp * 7) div 8) \<and> s16 ((g + gp * 7) div 8) \<le> 32767"
    if "0 \<le> g" "g \<le> 32767" for g
  proof -
    have "0 \<le> (g + gp * 7) div 8" "(g + gp * 7) div 8 \<le> 32767" using that assms by auto
    then show "0 \<le> s16 ((g + gp * 7) div 8) \<and> s16 ((g + gp * 7) div 8) \<le> 32767" by (simp add: s16_small)
    show "in_s32 (g + gp * 7)" "in_s32 (gp * 7)" using that assms by (auto simp: in_s32_def)
  qed
  show ?thesis
    using assms z shl gate by (auto simp: digital_gate_def runs_simps in_s16_def not_less)
qed

lemma digital_gate_gain_runs:
  assumes "gain_ok t0" "gain_ok g" "0 \<le> adj" "adj \<le> 78"
  shows "runs (digital_gate_gain t0 adj g) gain_ok"
proof -
  have d: "\<bar>g - t0\<bar> \<le> 524288" using assms by (auto simp: gain_ok_def)
  have "\<bar>(g - t0) * (178 + adj)\<bar> \<le> 524288 * 256" using assms d by (intro abs_mult_le) auto
  then have "in_s32 ((g - t0) * (178 + adj))" "in_s32 (g - t0)" using d by (intro in_s32I; linarith)+
  moreover have "gain_ok (t0 + (g - t0) * (178 + adj) div 256)"
    using assms by (intro interpolate_ok) auto
  moreover have "\<not> g - t0 > 8388608" using d by linarith
  moreover have "in_s32 (t0 + (g - t0) * (178 + adj) div 256)"
    using calculation(3) by (auto simp: gain_ok_def in_s32_def)
  ultimately show ?thesis
    by (simp add: digital_gate_gain_def runs_simps del: diff_less_eq)
qed

lemma digital_apply_gate_runs:
  assumes "table_ok t" "in_s16 gate" "\<forall>g \<in> set gains. gain_ok g"
  shows "runs (digital_apply_gate gate t gains) (\<lambda>gs. length gs = length gains \<and> (\<forall>g \<in> set gs. gain_ok g))"
proof (cases "gate > 0")
  case True
  define adj where "adj = s16 (if gate < 2500 then (2500 - gate) div 32 else 0)"
  have "0 \<le> (2500 - gate) div 32" "(2500 - gate) div 32 \<le> 78" if "gate < 2500" using that True by auto
  then have adj: "0 \<le> adj" "adj \<le> 78" by (auto simp: adj_def s16_small)
  have t0: "gain_ok (t ! 0)" using assms(1) by (auto simp: table_ok_def)
  have "runs (mapM (digital_gate_gain (t ! 0) adj) gains) (\<lambda>gs. length gs = length gains \<and> (\<forall>g \<in> set gs. gain_ok g))"
    using assms(3) t0 adj by (intro runs_mapM digital_gate_gain_runs) auto
  then show ?thesis
    using True assms(1) by (auto simp: digital_apply_gate_def runs_simps table_ok_def adj_def split: if_splits)
qed (use assms in \<open>simp add: digital_apply_gate_def runs_simps\<close>)

section \<open>Limiter\<close>

text \<open>The overload test without its checks.\<close>

definition overloads :: "int \<Rightarrow> int \<Rightarrow> bool" where
  "overloads e g \<longleftrightarrow> (g div 1024 + 1) ^ 2 * (e div 4096 + 1) div 8192 > 131068"

lemma limit_overload_eq:
  assumes e: "env_ok e" and g: "gain_ok g"
  shows "limit_overload e 10 g = Some (overloads e g)"
proof -
  define A where "A = e div 4096 + 1"
  define s where "s = g div 1024 + 1"
  have A: "1 \<le> A" "A \<le> 262145" using e by (auto simp: A_def env_ok_def)
  have s: "1 \<le> s" "s \<le> 513" using g by (auto simp: s_def gain_ok_def)
  define B where "B = s * s"
  have B: "1 \<le> B" "B \<le> 263169"
    using mult_mono [of s 513 s 513] mult_mono [of 1 s 1 s] s by (simp_all add: B_def)
  define h l where "h = B div 8192" and "l = B mod 8192"
  have hl: "0 \<le> h" "h \<le> 32" "0 \<le> l" "l \<le> 8191" using B by (auto simp: h_def l_def)
  have p: "0 \<le> h * A" "h * A \<le> 32 * 262145" "0 \<le> l * A" "l * A \<le> 8191 * 262145"
    using hl A mult_mono [of h 32 A 262145] mult_mono [of l 8191 A 262145] by auto
  define q where "q = l * A div 8192"
  have q: "0 \<le> q" "q \<le> 262145" unfolding q_def using p by (auto simp: pos_imp_zdiv_nonneg_iff)
  have eq: "h * A + q = B * A div 8192"
    using split_mult_div [of 8192 B A] by (simp add: h_def l_def q_def)
  have "in_s32 (h * A)" "in_s32 (l * A)" "in_s32 (h * A + q)" "in_s32 s" "in_s32 B"
    using p q s B by (intro in_s32I; linarith)+
  then have "AGC_MUL32 A B = Some (B * A div 8192)"
    by (simp add: AGC_MUL32_def and_masks_left chk32_def h_def [symmetric] l_def [symmetric] q_def [symmetric] eq)
  moreover have "in_s32 s" "in_s32 (s * s)" using s B by (auto simp: in_s32_def B_def)
  moreover have "WEBRTC_SPL_SHIFT_W32 32767 2 = Some 131068"
    by (simp add: WEBRTC_SPL_SHIFT_W32_def shl32_def chk32_def in_s32_def)
  ultimately show ?thesis
    by (simp add: limit_overload_def sar32_def chk32_def overloads_def A_def [symmetric] s_def [symmetric]
        B_def [symmetric] power2_eq_square)
qed

lemma limit_step_eq: "gain_ok g \<Longrightarrow> limit_step g = Some (g * 253 div 256)"
  by (auto simp: limit_step_def gain_ok_def chk32_def div32_def in_s32_def sdiv_nonneg)

lemma overloads_large: "env_ok e \<Longrightarrow> gain_ok g \<Longrightarrow> overloads e g \<Longrightarrow> 1024 \<le> g"
proof (rule ccontr)
  assume *: "env_ok e" "gain_ok g" "overloads e g" "\<not> 1024 \<le> g"
  then have "g div 1024 = 0" by (simp add: gain_ok_def)
  with * show False by (auto simp: overloads_def env_ok_def)
qed

text \<open>The loop ends, with the first gain of its sequence that does not overload.\<close>

lemma limit_loop_runs:
  assumes "env_ok e" "gain_ok g"
  shows "runs (limit_loop e 10 g) (\<lambda>r. gain_ok r \<and> r \<le> g \<and> \<not> overloads e r \<and> (overloads e g \<or> r = g))"
  using assms(2)
proof (induction "nat g" arbitrary: g rule: less_induct)
  case less
  show ?case
  proof (cases "overloads e g")
    case False
    with less.prems assms(1) show ?thesis
      by (subst limit_loop.simps) (simp add: limit_overload_eq runs_simps)
  next
    case True
    define g' where "g' = g * 253 div 256"
    have "1024 \<le> g" using overloads_large [OF assms(1) less.prems True] .
    then have g': "g' < g" "gain_ok g'" using less.prems by (auto simp: g'_def gain_ok_def)
    then have "nat g' < nat g" using \<open>1024 \<le> g\<close> by simp
    from less.hyps [OF this g'(2)] True less.prems assms(1) g' show ?thesis
      by (subst limit_loop.simps)
        (auto simp: limit_overload_eq limit_step_eq runs_simps g'_def [symmetric] elim!: runs_mono)
  qed
qed

lemma digital_limit_runs:
  assumes "env_ok e" "gain_ok g"
  shows "runs (digital_limit e g) (\<lambda>r. gain_ok r \<and> r \<le> g \<and> \<not> overloads e r \<and> (overloads e g \<or> r = g))"
proof -
  have "\<not> g > 47453132" using assms by (auto simp: gain_ok_def)
  with limit_loop_runs [OF assms] show ?thesis by (simp add: digital_limit_def)
qed

text \<open>A gain that does not overload keeps every sample of the sub frame inside 16 bits.\<close>

lemma not_overloads_fits:
  assumes e: "env_ok e" and g: "gain_ok g" "\<not> overloads e g" and x: "x * x \<le> e" and h: "0 \<le> h" "h \<le> g"
  shows "-32768 \<le> x * h div 65536" "x * h div 65536 \<le> 32767"
proof -
  define A where "A = e div 4096 + 1"
  define s where "s = g div 1024 + 1"
  have A: "0 < A" "e < 4096 * A" using e div_window [of 4096 e] by (auto simp: A_def env_ok_def)
  have s: "0 < s" "g < 1024 * s" using g div_window [of 1024 g] by (auto simp: s_def gain_ok_def)
  have "s * s * A div 8192 \<le> 131068" using g(2) by (simp add: overloads_def A_def s_def power2_eq_square)
  then have sA: "s * s * A < 131069 * 8192" using div_window [of 8192 "s * s * A"] by linarith
  have "h * h \<le> g * g" using h by (intro mult_mono) auto
  also have "\<dots> \<le> (1024 * s) * (1024 * s)" using s g by (intro mult_mono) (auto simp: gain_ok_def)
  finally have hh: "h * h \<le> 1048576 * (s * s)" by simp
  have "(x * h) * (x * h) = (x * x) * (h * h)" by (simp add: algebra_simps)
  also have "\<dots> \<le> (4096 * A) * (1048576 * (s * s))" using x A hh by (intro mult_mono [of "x * x" _ "h * h"]) auto
  also have "\<dots> = 4294967296 * (s * s * A)" by (simp add: algebra_simps)
  also have "\<dots> < 2147483648 * 2147483648" using sA by linarith
  finally have "\<not> 2147483648 \<le> \<bar>x * h\<bar>"
    using mult_mono [of 2147483648 "\<bar>x * h\<bar>" 2147483648 "\<bar>x * h\<bar>"] by auto
  then show "-32768 \<le> x * h div 65536" "x * h div 65536 \<le> 32767" by linarith+
qed


section \<open>Smoothing\<close>

lemma digital_smooth_from_length [simp]: "length (digital_smooth_from gs) = length gs"
  by (induction gs rule: digital_smooth_from.induct) auto

lemma digital_smooth_from_nth:
  "i < length gs \<Longrightarrow> digital_smooth_from gs ! i = (if Suc i < length gs then min (gs ! i) (gs ! Suc i) else gs ! i)"
proof (induction gs arbitrary: i rule: digital_smooth_from.induct)
  case (1 a b gs)
  then show ?case by (cases i) (auto simp: min_def)
qed auto

lemma digital_smooth_nth:
  assumes "length gs = n" "i < n"
  shows "digital_smooth (g0 # gs) ! Suc i = (if Suc i < n then min (gs ! i) (gs ! Suc i) else gs ! i)"
    "digital_smooth (g0 # gs) ! 0 = g0" "length (digital_smooth (g0 # gs)) = Suc n"
  using assms by (simp_all add: digital_smooth_def digital_smooth_from_nth)

section \<open>Applying the gains\<close>

text \<open>The interface of a sample routine: a bounded gain in Q20 and a 16-bit sample give a 16-bit sample.\<close>

definition bands_ok :: "nat \<Rightarrow> int list list \<Rightarrow> bool" where
  "bands_ok n out \<longleftrightarrow> (\<forall>row \<in> set out. n \<le> length row \<and> (\<forall>x \<in> set row. in_s16 x))"

locale sample_gain =
  fixes f :: "int \<Rightarrow> int \<Rightarrow> int option"
  assumes sample_runs: "0 \<le> G \<Longrightarrow> G \<le> 8388608 \<Longrightarrow> in_s16 x \<Longrightarrow> runs (f G x) in_s16"
begin

lemma apply_bands_runs:
  assumes "bands_ok n out" "pos < n" "0 \<le> G" "G \<le> 8388608"
  shows "runs (apply_bands (f G) pos out) (\<lambda>out'. bands_ok n out' \<and> length out' = length out)"
proof -
  have row: "runs (do { x \<leftarrow> rd row (int pos); y \<leftarrow> f G x; wr row (int pos) y })
      (\<lambda>row'. n \<le> length row' \<and> (\<forall>x \<in> set row'. in_s16 x))" if "row \<in> set out" for row
  proof -
    have "pos < length row" "n \<le> length row" "\<forall>x \<in> set row. in_s16 x" using that assms by (auto simp: bands_ok_def)
    moreover from this have "runs (f G (row ! pos)) in_s16" using assms by (intro sample_runs) auto
    ultimately show ?thesis
      by (auto simp: runs_simps elim!: runs_mono dest!: subsetD [OF set_update_subset_insert])
  qed
  show ?thesis
    unfolding apply_bands_def
    by (rule runs_mono [OF runs_mapM [OF row]]) (auto simp: bands_ok_def)
qed

lemma apply_subframe_runs:
  assumes rate: "int L * 2 ^ nat (4 - L2) = 16" "L2 = 3 \<or> L2 = 4"
    and gains: "gain_ok (gains ! k)" "gain_ok (gains ! Suc k)" "Suc k < length gains"
    and out: "bands_ok n out" "Suc k * L \<le> n"
  shows "runs (apply_subframe f L L2 gains k out) (\<lambda>out'. bands_ok n out' \<and> length out' = length out)"
proof -
  define a b where "a = gains ! k" and "b = gains ! Suc k"
  define m where "m = (2::int) ^ nat (4 - L2)"
  define delta where "delta = (b - a) * m"
  have m: "m = 1 \<or> m = 2" using rate(2) by (auto simp: m_def)
  have ab: "0 \<le> a" "a \<le> 524288" "0 \<le> b" "b \<le> 524288" using gains by (auto simp: gain_ok_def a_def b_def)
  have ramp: "0 \<le> a * 16 + int i * delta" "a * 16 + int i * delta \<le> 8388608" if "i \<le> L" for i
  proof -
    define t where "t = int i * m"
    have t: "0 \<le> t" "t \<le> 16"
      using that rate(1) mult_right_mono [of "int i" "int L" m] m by (auto simp: t_def m_def)
    have eq: "a * 16 + int i * delta = a * (16 - t) + b * t" by (simp add: delta_def t_def algebra_simps)
    show "0 \<le> a * 16 + int i * delta" unfolding eq using ab t by simp
    have "a * (16 - t) + b * t \<le> 524288 * (16 - t) + 524288 * t"
      using ab t by (intro add_mono mult_right_mono) auto
    then show "a * 16 + int i * delta \<le> 8388608" unfolding eq by simp
  qed
  have step: "runs (do { out \<leftarrow> apply_bands (f G) (k * L + i) out; G' \<leftarrow> chk32 (G + delta); Some (G', out) })
      (\<lambda>r. fst r = a * 16 + int (Suc i) * delta \<and> bands_ok n (snd r) \<and> length (snd r) = l)"
    if "i < L" "G = a * 16 + int i * delta" "bands_ok n out" "length out = l" for i G out l
  proof -
    have "k * L + i < n" using that(1) \<open>Suc k * L \<le> n\<close> by simp
    then have bands: "runs (apply_bands (f G) (k * L + i) out) (\<lambda>out'. bands_ok n out' \<and> length out' = length out)"
      using that ramp [of i] by (intro apply_bands_runs) auto
    have "G + delta = a * 16 + int (Suc i) * delta" using that(2) by (simp add: algebra_simps)
    moreover from this have "in_s32 (G + delta)" using ramp [of "Suc i"] that(1) by (auto simp: in_s32_def)
    ultimately show ?thesis
      by (intro runs_seq [OF bands]) (use that in \<open>auto simp: runs_simps\<close>)
  qed
  have loop: "runs (foldM (\<lambda>i (G, out). do {
       out \<leftarrow> apply_bands (f G) (k * L + i) out; G' \<leftarrow> chk32 (G + delta); Some (G', out) }) [0..<L] (a * 16, out))
      (\<lambda>r. fst r = a * 16 + int (length [0..<L]) * delta \<and> bands_ok n (snd r) \<and> length (snd r) = length out)"
    by (rule runs_foldM_index [where I = "\<lambda>i r. fst r = a * 16 + int i * delta \<and> bands_ok n (snd r) \<and> length (snd r) = length out"])
      (use out step in \<open>auto simp: case_prod_beta\<close>)
  have "in_s32 (b - a)" "in_s32 m" "in_s32 delta" "in_s32 (a * 16)" "0 \<le> 4 - L2" "4 - L2 < 32"
    using ab m rate(2) by (auto simp: in_s32_def delta_def)
  then show ?thesis
    using loop gains(3)
    by (auto simp: apply_subframe_def runs_simps a_def [symmetric] b_def [symmetric] m_def [symmetric]
        delta_def [symmetric] nat_add_distrib add.commute elim!: runs_mono)
qed

end

text \<open>The exact product, saturated to 16 bits.\<close>

definition gain_exact :: "int \<Rightarrow> int \<Rightarrow> int" where
  "gain_exact G x = max (-32768) (min 32767 (x * (G div 16) div 65536))"

lemma gain_exact_range [simp]: "in_s16 (gain_exact G x)"
  by (simp add: gain_exact_def in_s16_def)

lemma gain_sample_eq:
  assumes "0 \<le> G" "G \<le> 8388608" "in_s16 x"
  shows "gain_sample G x = Some (gain_exact G x)"
proof -
  have "\<bar>x * (G div 16)\<bar> \<le> 32768 * 524288" using assms by (intro abs_mult_le) (auto simp: in_s16_def)
  then have "in_s64 (x * (G div 16))" by (simp add: in_s64_def abs_le_iff)
  then show ?thesis by (simp add: gain_sample_def gain_exact_def chk64_def s16_small Let_def)
qed

text \<open>The 32-bit routine of the first sub frame is within 4 of the saturated product.\<close>

lemma gain_sample_first_runs:
  assumes G: "0 \<le> G" "G \<le> 8388608" and x: "in_s16 x"
  shows "runs (gain_sample_first G x) (\<lambda>y. in_s16 y \<and> \<bar>y - gain_exact G x\<bar> \<le> 4)"
proof -
  define h where "h = (G + 127) div 128"
  define g where "g = G div 16"
  have h: "0 \<le> h" "h \<le> 65536" "8 * (h - 1) \<le> g" "g \<le> 8 * h" using G by (auto simp: h_def g_def)
  have x': "-32768 \<le> x" "x \<le> 32767" using x by (auto simp: in_s16_def)
  define p where "p = x * h"
  define e where "e = x * g"
  have p: "-2147483648 \<le> p" "p \<le> 2147418112"
    using mult_right_mono [of "-32768" x h] mult_right_mono [of x 32767 h] x' h by (auto simp: p_def)
  have e_pos: "8 * p - 262136 \<le> e \<and> e \<le> 8 * p" if "0 \<le> x"
    using mult_left_mono [OF h(3) that] mult_left_mono [OF h(4) that] x'
    by (simp add: p_def e_def algebra_simps)
  have e_neg: "8 * p \<le> e \<and> e \<le> 8 * p + 262144" if "x < 0"
    using mult_left_mono_neg [OF h(3), of x] mult_left_mono_neg [OF h(4), of x] that x'
    by (simp add: p_def e_def algebra_simps)
  have exact: "gain_exact G x = max (-32768) (min 32767 (e div 65536))"
    by (simp add: gain_exact_def e_def g_def)
  have p_sign: "0 \<le> x \<Longrightarrow> 0 \<le> p" "x < 0 \<Longrightarrow> p \<le> 0"
    using h by (simp_all add: p_def mult_nonpos_nonneg)
  have fits: "in_s32 (G + 127)" "in_s32 p" using G p by (auto simp: in_s32_def)
  have hi: "\<bar>32767 - gain_exact G x\<bar> \<le> 4" if "4095 < p div 65536"
  proof -
    have "268435456 \<le> p" using that by linarith
    then have "2147221512 \<le> e" using e_pos p_sign by linarith
    then have "32764 \<le> e div 65536" by linarith
    then show ?thesis by (simp add: exact)
  qed
  have lo: "\<bar>-32768 - gain_exact G x\<bar> \<le> 4" if "p div 65536 < -4096"
  proof -
    have "p < -268435456" using that by linarith
    then have "e \<le> -2147221504" using e_neg p_sign by linarith
    then have "e div 65536 \<le> -32764" by linarith
    then show ?thesis by (simp add: exact)
  qed
  have mid: "in_s32 e" "s16 (e div 65536) = gain_exact G x" if "\<not> 4095 < p div 65536" "\<not> p div 65536 < -4096"
  proof -
    have "-268435456 \<le> p" "p < 268435456" using that by linarith+
    then have e: "-2147483648 \<le> e" "e \<le> 2147483647" using e_pos e_neg p_sign by linarith+
    then show "in_s32 e" by (rule in_s32I)
    have "-32768 \<le> e div 65536" "e div 65536 \<le> 32767" using e by linarith+
    then show "s16 (e div 65536) = gain_exact G x" by (simp add: exact s16_small)
  qed
  show ?thesis
    using fits hi lo mid
    by (simp add: gain_sample_first_def runs_simps h_def [symmetric] g_def [symmetric] p_def [symmetric] e_def [symmetric])
      (simp add: in_s16_def)
qed

interpretation first: sample_gain gain_sample_first
  by unfold_locales (rule runs_mono [OF gain_sample_first_runs], auto)

interpretation other: sample_gain gain_sample
  by unfold_locales (simp add: gain_sample_eq runs_simps)

section \<open>The gains of a frame\<close>

lemma digital_apply_runs:
  assumes rate: "digital_rate FS = Some (L, L2)"
    and gains: "length gains = 11" "\<forall>g \<in> set gains. gain_ok g" and out: "bands_ok (10 * L) out"
  shows "runs (digital_apply L L2 gains out) (\<lambda>out'. bands_ok (10 * L) out' \<and> length out' = length out)"
proof -
  have L: "int L * 2 ^ nat (4 - L2) = 16" "L2 = 3 \<or> L2 = 4"
    using rate by (auto simp: digital_rate_def split: if_splits)
  have g: "gain_ok (gains ! k)" "gain_ok (gains ! Suc k)" "Suc k < length gains" if "k < 10" for k
    using that gains by auto
  have k: "Suc k * L \<le> 10 * L" if "k < 10" for k using that by (intro mult_right_mono) auto
  have "runs (foldM (apply_subframe gain_sample L L2 gains) [1..<10] out')
      (\<lambda>out''. bands_ok (10 * L) out'' \<and> length out'' = length out)"
    if "bands_ok (10 * L) out'" "length out' = length out" for out'
  proof (rule runs_foldM)
    show "runs (apply_subframe gain_sample L L2 gains k s) (\<lambda>out''. bands_ok (10 * L) out'' \<and> length out'' = length out)"
      if "k \<in> set [1..<10]" "bands_ok (10 * L) s \<and> length s = length out" for k s
      using other.apply_subframe_runs [OF L g(1,2,3), of k "10 * L" s] k [of k] that by auto
  qed (use that in simp)
  then show ?thesis
    unfolding digital_apply_def
    by (intro runs_seq [OF first.apply_subframe_runs [OF L g(1,2,3) out k]]) auto
qed

text \<open>Each sub frame has a gain that does not overload it and bounds the gains around it.\<close>

definition limited :: "int list \<Rightarrow> int list \<Rightarrow> bool" where
  "limited env gains \<longleftrightarrow> (\<forall>k < length env. \<exists>g. gain_ok g \<and> \<not> overloads (env ! k) g
     \<and> gains ! Suc k \<le> g \<and> (0 < k \<longrightarrow> gains ! k \<le> g))"

lemma limit_gains_runs:
  assumes "length gs = length env" "\<forall>e \<in> set env. env_ok e" "\<forall>g \<in> set gs. gain_ok g"
  shows "runs (mapM (\<lambda>(e, g). digital_limit e g) (zip env gs))
    (\<lambda>rs. length rs = length env \<and> (\<forall>k < length env. gain_ok (rs ! k) \<and> \<not> overloads (env ! k) (rs ! k)))"
proof -
  have one: "runs (digital_limit e g) (\<lambda>r. gain_ok r \<and> \<not> overloads e r)" if "(e, g) \<in> set (zip env gs)" for e g
  proof -
    have "env_ok e" "gain_ok g" using that assms by (auto dest: set_zip_leftD set_zip_rightD)
    from digital_limit_runs [OF this] show ?thesis by (rule runs_mono) simp
  qed
  have "runs (mapM (\<lambda>(e, g). digital_limit e g) (zip env gs)) (\<lambda>_. True)"
    using one by (intro runs_mono [OF runs_mapM [where Q = "\<lambda>_. True"]]) (fastforce intro: runs_mono)+
  then obtain rs where rs: "mapM (\<lambda>(e, g). digital_limit e g) (zip env gs) = Some rs" by (auto simp: runs_def)
  have "gain_ok (rs ! k) \<and> \<not> overloads (env ! k) (rs ! k)" if "k < length env" for k
  proof -
    have "digital_limit (env ! k) (gs ! k) = Some (rs ! k)"
      using mapM_nth [OF rs, of k] that assms(1) by simp
    moreover have "(env ! k, gs ! k) \<in> set (zip env gs)" using that assms(1) by (force simp: set_zip)
    ultimately show ?thesis using one by (auto dest: runsD)
  qed
  then show ?thesis using rs mapM_length [OF rs] assms(1) by (simp add: runs_simps)
qed

lemma smooth_limited:
  assumes "length rs = length env" "0 < length env" "gain_ok g0"
    and rs: "\<forall>k < length env. gain_ok (rs ! k) \<and> \<not> overloads (env ! k) (rs ! k)"
  shows "limited env (digital_smooth (g0 # rs))" "\<forall>g \<in> set (digital_smooth (g0 # rs)). gain_ok g"
    "gain_ok (last (digital_smooth (g0 # rs)))" "length (digital_smooth (g0 # rs)) = Suc (length env)"
proof -
  let ?gs = "digital_smooth (g0 # rs)"
  note nth = digital_smooth_nth [OF assms(1)]
  have "\<exists>g. gain_ok g \<and> \<not> overloads (env ! k) g \<and> ?gs ! Suc k \<le> g \<and> (0 < k \<longrightarrow> ?gs ! k \<le> g)"
    if "k < length env" for k
  proof (rule exI [of _ "rs ! k"])
    have "?gs ! Suc k \<le> rs ! k" using nth(1) [OF that] by simp
    moreover have "?gs ! k \<le> rs ! k" if "0 < k"
      using nth(1) [of "k - 1" g0] that \<open>k < length env\<close> by (cases k) auto
    ultimately show "gain_ok (rs ! k) \<and> \<not> overloads (env ! k) (rs ! k) \<and> ?gs ! Suc k \<le> rs ! k \<and> (0 < k \<longrightarrow> ?gs ! k \<le> rs ! k)"
      using rs that by simp
  qed
  then show "limited env ?gs" by (simp add: limited_def)
  show len: "length ?gs = Suc (length env)" using nth(3) assms(2) by blast
  have "gain_ok (?gs ! i)" if "i < Suc (length env)" for i
    using that nth(1) [of "i - 1" g0] nth(2) [OF assms(2)] rs assms(3) by (cases i) (auto simp: gain_ok_def min_def)
  then show "\<forall>g \<in> set ?gs. gain_ok g" using len by (auto simp: all_set_conv_all_nth)
  then show "gain_ok (last ?gs)" using len by (metis last_in_set length_0_conv nat.distinct(1))
qed

definition digital_inv :: "DigitalAgc \<Rightarrow> bool" where
  "digital_inv s \<longleftrightarrow> env_ok (capacitorSlow s) \<and> env_ok (capacitorFast s) \<and> gain_ok (gain s) \<and> table_ok (gainTable s)
     \<and> 0 \<le> gatePrevious s \<and> gatePrevious s \<le> 32767 \<and> vad_inv (vadNearend s) \<and> vad_inv (vadFarend s)"

lemma digital_frame_gains_runs:
  assumes s: "digital_inv s" and d: "-65 \<le> decay" "decay \<le> 0" and env: "length env = 10" "\<forall>e \<in> set env. env_ok e"
  shows "runs (digital_frame_gains s decay env) (\<lambda>r. digital_inv (fst r) \<and> length (snd r) = 11
    \<and> (\<forall>g \<in> set (snd r). gain_ok g) \<and> limited env (snd r) \<and> hd (snd r) = gain s \<and> gain (fst r) = last (snd r)
    \<and> (\<exists>f sl gp g. fst r = s\<lparr>capacitorFast := f, capacitorSlow := sl, gatePrevious := gp, gain := g\<rparr>))"
proof -
  let ?Q = "\<lambda>r. digital_inv (fst r) \<and> length (snd r) = 11
    \<and> (\<forall>g \<in> set (snd r). gain_ok g) \<and> limited env (snd r) \<and> hd (snd r) = gain s \<and> gain (fst r) = last (snd r)
    \<and> (\<exists>f sl gp g. fst r = s\<lparr>capacitorFast := f, capacitorSlow := sl, gatePrevious := gp, gain := g\<rparr>)"
  have gains: "runs (digital_gains (gainTable s) decay env ((capacitorFast s, capacitorSlow s), 0, 0, []))
      (\<lambda>r. gain_loop_inv r \<and> length (snd (snd (snd r))) = 10)"
  proof -
    have "gain_loop_inv ((capacitorFast s, capacitorSlow s), 0, 0, [])" "table_ok (gainTable s)"
      using s by (simp_all add: gain_loop_inv_def digital_inv_def)
    from digital_gains_runs [OF this(2) env(2) d this(1)] show ?thesis by (simp add: env(1))
  qed
  have final: "?Q (s\<lparr>capacitorFast := f, capacitorSlow := sl, gatePrevious := gp,
        gain := last (digital_smooth (gain s # rs))\<rparr>, digital_smooth (gain s # rs))"
    if "env_ok f" "env_ok sl" "0 \<le> gp" "gp \<le> 32767" "length rs = 10"
      "\<forall>k < length env. gain_ok (rs ! k) \<and> \<not> overloads (env ! k) (rs ! k)" for f sl gp rs
  proof -
    let ?gs = "digital_smooth (gain s # rs)"
    have g: "gain_ok (gain s)" using s by (simp add: digital_inv_def)
    have len: "length rs = length env" "0 < length env" using that(5) env(1) by simp_all
    note sm = smooth_limited [OF len g that(6)]
    have "hd ?gs = gain s" by (simp add: digital_smooth_def)
    moreover have "digital_inv (s\<lparr>capacitorFast := f, capacitorSlow := sl, gatePrevious := gp, gain := last ?gs\<rparr>)"
      using that(1-4) s sm(3) by (simp add: digital_inv_def)
    ultimately show ?thesis using sm env(1) by (simp only: fst_conv snd_conv) (simp, blast)
  qed
  have tail: "runs (do {
       (gate, gp) \<leftarrow> digital_gate f z fr (stdShortTerm (vadNearend s)) (gatePrevious s);
       let stt' = s\<lparr>capacitorFast := f, capacitorSlow := sl\<rparr>\<lparr>gatePrevious := gp\<rparr>;
       gs \<leftarrow> digital_apply_gate gate (gainTable s) gs;
       gs \<leftarrow> mapM (\<lambda>(e, g). digital_limit e g) (zip env gs);
       let gs = digital_smooth (gain s # gs);
       Some (stt'\<lparr>gain := last gs\<rparr>, gs) }) ?Q"
    if "gain_loop_inv ((f, sl), z, fr, gs)" "length gs = 10" for f sl z fr gs
  proof -
    have gate: "runs (digital_gate f z fr (stdShortTerm (vadNearend s)) (gatePrevious s))
        (\<lambda>r. in_s16 (fst r) \<and> 0 \<le> snd r \<and> snd r \<le> 32767)"
      using that s by (intro digital_gate_runs) (auto simp: gain_loop_inv_def digital_inv_def vad_inv_def)
    have apply_gate: "runs (digital_apply_gate gt (gainTable s) gs) (\<lambda>gs'. length gs' = 10 \<and> (\<forall>g \<in> set gs'. gain_ok g))"
      if "in_s16 gt" for gt
      using digital_apply_gate_runs [of "gainTable s" gt gs] that s \<open>gain_loop_inv _\<close> \<open>length gs = 10\<close>
      by (auto simp: gain_loop_inv_def digital_inv_def)
    have lim: "runs (mapM (\<lambda>(e, g). digital_limit e g) (zip env gs'))
        (\<lambda>rs. length rs = 10 \<and> (\<forall>k < length env. gain_ok (rs ! k) \<and> \<not> overloads (env ! k) (rs ! k)))"
      if "length gs' = 10" "\<forall>g \<in> set gs'. gain_ok g" for gs'
      using limit_gains_runs [of gs' env] that env by simp
    show ?thesis
    proof (rule runs_seq [OF gate], goal_cases)
      case (1 r)
      obtain gt gp where gg: "r = (gt, gp)" by (cases r)
      show ?case
        unfolding gg prod.case Let_def
        by (rule runs_seq [OF apply_gate], use 1 gg in simp, rule runs_seq [OF lim], simp, simp,
            unfold runs_Some, rule final)
          (use 1 gg that in \<open>auto simp: gain_loop_inv_def\<close>)
    qed
  qed
  show ?thesis
    unfolding digital_frame_gains_def
  proof (rule runs_seq [OF gains], goal_cases)
    case (1 r)
    obtain f sl z fr gs where eq: "r = ((f, sl), z, fr, gs)" by (metis prod.collapse)
    with 1 tail [of f sl z fr gs] show ?case by (simp add: Let_def)
  qed
qed

section \<open>The whole frame\<close>

lemma subframe_peak_runs:
  assumes "\<forall>x \<in> set xs. in_s16 x" "p + L \<le> length xs"
  shows "runs (foldM (\<lambda>n max_nrg. do { a \<leftarrow> rd xs (int (p + n)); nrg \<leftarrow> chk32 (a * a);
      Some (if nrg > max_nrg then nrg else max_nrg) }) [0..<L] 0)
    (\<lambda>m. env_ok m \<and> (\<forall>n < L. xs ! (p + n) * xs ! (p + n) \<le> m))"
proof -
  let ?I = "\<lambda>i m. env_ok m \<and> (\<forall>n < i. xs ! (p + n) * xs ! (p + n) \<le> m)"
  have step: "runs (do { a \<leftarrow> rd xs (int (p + n)); nrg \<leftarrow> chk32 (a * a);
      Some (if nrg > m then nrg else m) }) (?I (Suc n))" if "n < L" "?I n m" for n m
  proof -
    define a where "a = xs ! (p + n)"
    have "in_s16 a" using assms that by (auto simp: a_def)
    then have "a * a \<le> 32768 * 32768" by (intro square_bounds) (auto simp: in_s16_def)
    moreover define q where "q = a * a"
    ultimately have q: "q \<le> 1073741824" "0 \<le> q" by (simp_all add: q_def)
    have idx: "p + n < length xs" using assms that by simp
    have "nat (int (p + n)) = p + n" by simp
    moreover have "in_s32 q" using q by (simp add: in_s32_def)
    ultimately show ?thesis
      using that idx q
      by (auto simp: runs_simps a_def [symmetric] q_def [symmetric] env_ok_def less_Suc_eq not_less
          simp del: of_nat_add intro: order.trans less_imp_le)
  qed
  have "runs (foldM (\<lambda>n max_nrg. do { a \<leftarrow> rd xs (int (p + n)); nrg \<leftarrow> chk32 (a * a);
      Some (if nrg > max_nrg then nrg else max_nrg) }) [0..<L] 0) (?I (length [0..<L]))"
    by (rule runs_foldM_index [where I = ?I]) (use step in \<open>auto simp: env_ok_def\<close>)
  then show ?thesis by simp
qed

lemma digital_env_runs:
  assumes "\<forall>x \<in> set xs. in_s16 x" "10 * L \<le> length xs"
  shows "runs (digital_env L xs) (\<lambda>env. length env = 10 \<and> (\<forall>e \<in> set env. env_ok e)
    \<and> (\<forall>k < 10. \<forall>n < L. xs ! (k * L + n) * xs ! (k * L + n) \<le> env ! k))"
proof -
  let ?f = "\<lambda>k. foldM (\<lambda>n max_nrg. do { a \<leftarrow> rd xs (int (k * L + n)); nrg \<leftarrow> chk32 (a * a);
      Some (if nrg > max_nrg then nrg else max_nrg) }) [0..<L] 0"
  have one: "runs (?f k) (\<lambda>m. env_ok m \<and> (\<forall>n < L. xs ! (k * L + n) * xs ! (k * L + n) \<le> m))" if "k < 10" for k
  proof -
    have "k * L \<le> 9 * L" using that by (intro mult_right_mono) auto
    then have "k * L + L \<le> length xs" using assms(2) by linarith
    then show ?thesis using assms by (intro subframe_peak_runs) auto
  qed
  have "runs (mapM ?f [0..<10]) (\<lambda>ys. length ys = length [0..<10] \<and> (\<forall>y \<in> set ys. env_ok y))"
    by (rule runs_mapM, rule runs_mono [OF one]) simp_all
  then obtain ys where ys: "mapM ?f [0..<10] = Some ys" "length ys = 10" "\<forall>y \<in> set ys. env_ok y"
    by (auto simp: runs_def)
  have "\<forall>n < L. xs ! (k * L + n) * xs ! (k * L + n) \<le> ys ! k" if "k < 10" for k
    using mapM_nth [OF ys(1), of k] one [OF that] that by (auto dest: runsD)
  with ys show ?thesis by (simp add: digital_env_def runs_simps)
qed

lemma digital_logratio_runs:
  assumes "vad_inv (vadFarend s)" "-2048 \<le> l" "l \<le> 2048"
  shows "runs (digital_logratio s l) (\<lambda>r. -2048 \<le> r \<and> r \<le> 2048)"
proof -
  define d where "d = (3 * l - logRatio (vadFarend s)) div 4"
  have d: "-2048 \<le> d" "d \<le> 2048" "s16 d = d"
    using assms s16_small [of d] unfolding d_def vad_inv_def by linarith+
  show ?thesis
    using assms d by (auto simp: digital_logratio_def runs_simps d_def [symmetric] in_s32_def vad_inv_def)
qed

lemma digital_decay_runs:
  assumes "-2048 \<le> l" "l \<le> 2048" "in_s16 (stdLongTerm (vadNearend s))"
  shows "runs (digital_decay s l low) (\<lambda>d. -65 \<le> d \<and> d \<le> 0)"
proof -
  have first: "runs (if l > 1024 then Some (-65) else if l < 0 then Some 0
      else do { tmp32 \<leftarrow> chk32 ((0 - l) * 65); Some (s16 (tmp32 div 2 ^ 10)) }) (\<lambda>d. -65 \<le> d \<and> d \<le> 0)"
  proof -
    have "-65 \<le> - (l * 65) div 1024 \<and> - (l * 65) div 1024 \<le> 0" if "0 \<le> l" "l \<le> 1024" using that by auto
    then show ?thesis using assms by (auto simp: runs_simps in_s32_def s16_small)
  qed
  have second: "runs (if agcMode s \<noteq> kAgcModeFixedDigital then do {
        decay \<leftarrow> (if stdLongTerm (vadNearend s) < 4000 then Some 0
                  else if stdLongTerm (vadNearend s) < 8096 then do {
                    tmp32 \<leftarrow> chk32 ((stdLongTerm (vadNearend s) - 4000) * d);
                    Some (s16 (tmp32 div 2 ^ 12))
                  } else Some d);
        Some (if low \<noteq> 0 then 0 else decay)
      } else Some d) (\<lambda>d. -65 \<le> d \<and> d \<le> 0)" if d: "-65 \<le> d" "d \<le> 0" for d
  proof -
    define t where "t = stdLongTerm (vadNearend s) - 4000"
    have t: "-65 \<le> d * t div 4096" "d * t div 4096 \<le> 0" "in_s32 (t * d)" if "0 \<le> t" "t < 4096"
    proof -
      show "-65 \<le> d * t div 4096" "d * t div 4096 \<le> 0" using scaled_nonpos [of d t 4096] d that by auto
      have "\<bar>t * d\<bar> \<le> 4096 * 65" using d that by (intro abs_mult_le) auto
      then show "in_s32 (t * d)" by (intro in_s32I) linarith+
    qed
    then show ?thesis
      using d by (auto simp: runs_simps t_def mult.commute s16_small)
  qed
  show ?thesis
    unfolding digital_decay_def Let_def by (rule runs_seq [OF first]) (use second in blast)
qed

text \<open>What the caller of \<open>ProcessDigital\<close> passes.\<close>

definition frame_ok :: "nat \<Rightarrow> int list list \<Rightarrow> nat \<Rightarrow> int list option list \<Rightarrow> bool" where
  "frame_ok n in_near num_bands out \<longleftrightarrow> 0 < num_bands \<and> num_bands \<le> length in_near \<and> num_bands \<le> length out
     \<and> bands_ok n in_near \<and> bands_ok n (List.map_filter id out)"

lemma digital_copy_runs:
  assumes "frame_ok (10 * L) in_near nb out"
  shows "runs (digital_copy L in_near nb out) (\<lambda>bs. length bs = nb \<and> bands_ok (10 * L) bs)"
proof -
  let ?P = "\<lambda>row. 10 * L \<le> length row \<and> (\<forall>x \<in> set row. in_s16 x)"
  have row: "runs (do { inp \<leftarrow> rd in_near (int i); o_i \<leftarrow> rd out (int i);
     (case o_i of None \<Rightarrow> Some inp
      | Some buf \<Rightarrow> do { new \<leftarrow> rd_block inp 0 (10 * L); old \<leftarrow> rd_block buf 0 (10 * L);
          Some (new @ drop (10 * L) buf) }) }) ?P" if "i \<in> set [0..<nb]" for i
  proof -
    have i: "i < length in_near" "i < length out" using that assms by (auto simp: frame_ok_def)
    have inp: "?P (in_near ! i)" using i assms by (auto simp: frame_ok_def bands_ok_def)
    have buf: "?P b" if "out ! i = Some b" for b
      using i that assms nth_mem [OF i(2)] by (auto simp: frame_ok_def bands_ok_def map_filter_def image_iff)
    show ?thesis
      using i inp buf
      by (auto simp: runs_simps split: option.splits dest: in_set_takeD in_set_dropD)
  qed
  show ?thesis
    unfolding digital_copy_def by (rule runs_mono [OF runs_mapM [OF row]]) (auto simp: bands_ok_def)
qed

lemma ProcessDigital_cases:
  assumes s: "digital_inv s" and rate: "digital_rate FS = Some (L, L2)" and fr: "frame_ok (10 * L) in_near nb out"
  shows "\<exists>bs. digital_copy L in_near nb out = Some bs \<and> vad_frame (L * 10) (bs ! 0) \<and>
    (if WebRtcAgc_ProcessVad (vadNearend s) (bs ! 0) (L * 10) = None
     then WebRtcAgc_ProcessDigital s in_near nb out FS low = None
     else runs (WebRtcAgc_ProcessDigital s in_near nb out FS low)
       (\<lambda>(s', out', r). r = 0 \<and> digital_inv s' \<and> length out' = nb \<and> bands_ok (10 * L) out'
          \<and> gainTable s' = gainTable s \<and> agcMode s' = agcMode s))"
proof -
  let ?Q = "\<lambda>(s', out', r). r = 0 \<and> digital_inv s' \<and> length out' = nb \<and> bands_ok (10 * L) out'
          \<and> gainTable s' = gainTable s \<and> agcMode s' = agcMode s"
  from digital_copy_runs [OF fr] obtain bs where bs: "digital_copy L in_near nb out = Some bs"
      "length bs = nb" "bands_ok (10 * L) bs" by (auto simp: runs_def)
  have nb: "0 < nb" using fr by (simp add: frame_ok_def)
  define x where "x = bs ! 0"
  have x: "10 * L \<le> length x" "\<forall>y \<in> set x. in_s16 y" using bs nb by (auto simp: x_def bands_ok_def)
  have rd0: "rd bs 0 = Some x" using bs nb by (simp add: rd_def x_def)
  have frame: "vad_frame (L * 10) x"
    using x rate by (auto simp: vad_frame_def digital_rate_def split: if_splits)
  have tail: "runs (do {
          logratio \<leftarrow> digital_logratio (s\<lparr>vadNearend := vad\<rparr>) lr;
          decay \<leftarrow> digital_decay (s\<lparr>vadNearend := vad\<rparr>) logratio low;
          env \<leftarrow> digital_env L x;
          (stt, gains) \<leftarrow> digital_frame_gains (s\<lparr>vadNearend := vad\<rparr>) decay env;
          out \<leftarrow> digital_apply L L2 gains bs;
          Some (stt, out, 0) }) ?Q"
    if vad: "vad_inv vad" "-2048 \<le> lr" "lr \<le> 2048" for vad lr
  proof -
    let ?s = "s\<lparr>vadNearend := vad\<rparr>"
    have s': "digital_inv ?s" using s vad by (simp add: digital_inv_def)
    have lr: "runs (digital_logratio ?s lr) (\<lambda>r. -2048 \<le> r \<and> r \<le> 2048)"
      using s vad by (intro digital_logratio_runs) (auto simp: digital_inv_def)
    have dec: "runs (digital_decay ?s l low) (\<lambda>d. -65 \<le> d \<and> d \<le> 0)" if "-2048 \<le> l \<and> l \<le> 2048" for l
      using that vad by (intro digital_decay_runs) (auto simp: vad_inv_def)
    have env: "runs (digital_env L x) (\<lambda>env. length env = 10 \<and> (\<forall>e \<in> set env. env_ok e))"
      using digital_env_runs [OF x(2,1)] by (rule runs_mono) simp
    have gains: "runs (digital_frame_gains ?s d env) (\<lambda>r. digital_inv (fst r) \<and> length (snd r) = 11
        \<and> (\<forall>g \<in> set (snd r). gain_ok g) \<and> gainTable (fst r) = gainTable s \<and> agcMode (fst r) = agcMode s)"
      if "-65 \<le> d \<and> d \<le> 0" "length env = 10 \<and> (\<forall>e \<in> set env. env_ok e)" for d env
    proof -
      have "runs (digital_frame_gains ?s d env) (\<lambda>r. digital_inv (fst r) \<and> length (snd r) = 11
          \<and> (\<forall>g \<in> set (snd r). gain_ok g) \<and> limited env (snd r) \<and> hd (snd r) = gain ?s \<and> gain (fst r) = last (snd r)
          \<and> (\<exists>f sl gp g. fst r = ?s\<lparr>capacitorFast := f, capacitorSlow := sl, gatePrevious := gp, gain := g\<rparr>))"
        using s' that by (intro digital_frame_gains_runs) auto
      then show ?thesis by (rule runs_mono) auto
    qed
    show ?thesis
    proof (rule runs_seq [OF lr], rule runs_seq [OF dec], assumption, rule runs_seq [OF env],
        rule runs_seq [OF gains], assumption, assumption, goal_cases)
      case (1 l d env r)
      then have "runs (digital_apply L L2 (snd r) bs) (\<lambda>out'. bands_ok (10 * L) out' \<and> length out' = length bs)"
        using rate bs by (intro digital_apply_runs) auto
      with 1 bs show ?case by (cases r) (auto simp: runs_simps elim!: runs_mono)
    qed
  qed
  have vad: "vad_inv (vadNearend s)" using s by (simp add: digital_inv_def)
  have "if WebRtcAgc_ProcessVad (vadNearend s) x (L * 10) = None
      then WebRtcAgc_ProcessDigital s in_near nb out FS low = None
      else runs (WebRtcAgc_ProcessDigital s in_near nb out FS low) ?Q"
  proof (cases "WebRtcAgc_ProcessVad (vadNearend s) x (L * 10)")
    case None
    then show ?thesis by (simp add: WebRtcAgc_ProcessDigital_def rate bs rd0)
  next
    case (Some p)
    obtain v lr where p: "p = (v, lr)" by (cases p)
    from ProcessVad_cases [OF vad frame] Some p have "vad_inv v" "-2048 \<le> lr" "lr \<le> 2048"
      by (auto simp: runs_def split: if_splits)
    from tail [OF this] Some p show ?thesis
      by (simp add: WebRtcAgc_ProcessDigital_def rate bs rd0 Let_def)
  qed
  with bs frame show ?thesis by (auto simp: x_def)
qed

lemma InitDigital_inv:
  assumes "table_ok (gainTable s)"
  shows "digital_inv (fst (WebRtcAgc_InitDigital s mode))"
  using assms InitVad_inv by (simp add: WebRtcAgc_InitDigital_def digital_inv_def env_ok_def gain_ok_def Let_def)

lemma AddFarendToDigital_inv:
  assumes "digital_inv s" "vad_frame n inp" "WebRtcAgc_AddFarendToDigital (Some s) inp n = Some (Some s', r)"
  shows "digital_inv s' \<and> r = 0 \<and> (\<exists>v. s' = s\<lparr>vadFarend := v\<rparr>)"
proof -
  have v: "vad_inv (vadFarend s)" using assms(1) by (simp add: digital_inv_def)
  from ProcessVad_cases [OF v assms(2)] assms(1,3) show ?thesis
    by (auto simp: WebRtcAgc_AddFarendToDigital_def digital_inv_def runs_def split: if_splits bind_splits)
qed

section \<open>Properties\<close>

text \<open>C5. Processing a frame of 10 ms in bands of 16-bit samples, on a state whose gains are at most 8:
  the only way to have undefined behaviour (or not to return) is the overflow of the near-end voice
  activity detector; otherwise the call returns 0, the invariant of the state holds again, the table and the mode
  are unchanged and every band holds 16-bit samples.\<close>

theorem ProcessDigital_total_iff:
  assumes "digital_inv s" "digital_rate FS = Some (L, L2)" "frame_ok (10 * L) in_near nb out"
  shows "\<exists>bs. digital_copy L in_near nb out = Some bs \<and>
    (WebRtcAgc_ProcessDigital s in_near nb out FS low = None
       \<longleftrightarrow> WebRtcAgc_ProcessVad (vadNearend s) (bs ! 0) (L * 10) = None) \<and>
    (\<forall>s' out' r. WebRtcAgc_ProcessDigital s in_near nb out FS low = Some (s', out', r) \<longrightarrow>
       r = 0 \<and> digital_inv s' \<and> length out' = nb \<and> bands_ok (10 * L) out'
       \<and> gainTable s' = gainTable s \<and> agcMode s' = agcMode s)"
proof -
  from ProcessDigital_cases [OF assms, of low] obtain bs where "digital_copy L in_near nb out = Some bs"
    "if WebRtcAgc_ProcessVad (vadNearend s) (bs ! 0) (L * 10) = None
     then WebRtcAgc_ProcessDigital s in_near nb out FS low = None
     else runs (WebRtcAgc_ProcessDigital s in_near nb out FS low)
       (\<lambda>(s', out', r). r = 0 \<and> digital_inv s' \<and> length out' = nb \<and> bands_ok (10 * L) out'
          \<and> gainTable s' = gainTable s \<and> agcMode s' = agcMode s)" by blast
  then show ?thesis by (auto simp: runs_def split: if_splits)
qed

definition digital_example :: DigitalAgc where
  "digital_example = fst (WebRtcAgc_InitDigital \<lparr>capacitorSlow = 0, capacitorFast = 0, gain = 0,
     gainTable = replicate 32 65536, gatePrevious = 0, agcMode = 0, vadNearend = vad_stuck, vadFarend = vad_stuck\<rparr>
     kAgcModeFixedDigital)"

lemma digital_example_inv: "digital_inv digital_example"
  unfolding digital_example_def by (rule InitDigital_inv) (auto simp: table_ok_def gain_ok_def)

lemma frame_example: "frame_ok (10 * 8) [replicate 80 100] 1 [None]"
  by (simp add: frame_ok_def bands_ok_def map_filter_def in_s16_def)

theorem ProcessDigital_total_iff_witness:
  "digital_inv digital_example \<and> digital_rate 8000 = Some (8, 3) \<and> frame_ok (10 * 8) [replicate 80 100] 1 [None]
   \<and> (\<exists>bs. digital_copy 8 [replicate 80 100] 1 [None] = Some bs \<and>
      (WebRtcAgc_ProcessDigital digital_example [replicate 80 100] 1 [None] 8000 0 = None
         \<longleftrightarrow> WebRtcAgc_ProcessVad (vadNearend digital_example) (bs ! 0) (8 * 10) = None))"
proof -
  have rate: "digital_rate 8000 = Some (8, 3)" by (simp add: digital_rate_def)
  show ?thesis
    using ProcessDigital_total_iff [OF digital_example_inv rate frame_example, of 0] digital_example_inv rate frame_example
    by auto
qed

text \<open>C13. The limiter's loop ends for every envelope and every gain of at most 8, with a gain that is not larger
  than the given one, does not overload the sub frame, and is the given one when that does not
  overload.\<close>

theorem limit_loop_terminates:
  assumes "env_ok e" "gain_ok g"
  shows "\<exists>r. limit_loop e 10 g = Some r \<and> 0 \<le> r \<and> r \<le> g \<and> limit_overload e 10 r = Some False
    \<and> (limit_overload e 10 g = Some False \<longrightarrow> r = g)"
  using limit_loop_runs [OF assms] assms by (auto simp: runs_def limit_overload_eq gain_ok_def)

theorem limit_loop_terminates_witness:
  "\<exists>r. limit_loop 1073741824 10 524288 = Some r \<and> 0 \<le> r \<and> r \<le> 524288 \<and> limit_overload 1073741824 10 r = Some False"
  using limit_loop_terminates [of 1073741824 524288] by (auto simp: env_ok_def gain_ok_def)

text \<open>C7. No clipping: the gains of a frame, limited and smoothed, keep every sample of the
  sub frames 1 to 9 of the low band inside 16 bits, whatever point of the ramp between two gains is
  applied to it: the saturation of the output is never used there and the exact product is
  stored.\<close>

theorem limiter_prevents_clipping:
  assumes s: "digital_inv s" and d: "-65 \<le> decay" "decay \<le> 0"
    and xs: "\<forall>x \<in> set xs. in_s16 x" "10 * L \<le> length xs" and env: "digital_env L xs = Some env"
  shows "\<exists>s' gains. digital_frame_gains s decay env = Some (s', gains) \<and> length gains = 11 \<and>
    (\<forall>k \<in> {1..9}. \<forall>n < L. \<forall>G. 0 \<le> G \<and> G \<le> 16 * max (gains ! k) (gains ! Suc k) \<longrightarrow>
      gain_sample G (xs ! (k * L + n)) = Some (xs ! (k * L + n) * (G div 16) div 65536))"
proof -
  have e: "length env = 10" "\<forall>e \<in> set env. env_ok e"
      "\<forall>k < 10. \<forall>n < L. xs ! (k * L + n) * xs ! (k * L + n) \<le> env ! k"
    using digital_env_runs [OF xs] env by (auto simp: runs_def)
  from digital_frame_gains_runs [OF s d e(1,2)] obtain s' gains where g: "digital_frame_gains s decay env = Some (s', gains)"
      "length gains = 11" "limited env gains" by (auto simp: runs_def)
  have "gain_sample G (xs ! (k * L + n)) = Some (xs ! (k * L + n) * (G div 16) div 65536)"
    if k: "k \<in> {1..9}" "n < L" and G: "0 \<le> G" "G \<le> 16 * max (gains ! k) (gains ! Suc k)" for k n G
  proof -
    define x where "x = xs ! (k * L + n)"
    have "k * L \<le> 9 * L" using k by (intro mult_right_mono) auto
    then have "k * L + n < length xs" using xs(2) k(2) by linarith
    then have x: "in_s16 x" "x * x \<le> env ! k" using xs(1) e k by (auto simp: x_def)
    have "k < length env" "0 < k" using k e(1) by auto
    with g(3) obtain b where b: "gain_ok b" "\<not> overloads (env ! k) b" "gains ! Suc k \<le> b" "gains ! k \<le> b"
      unfolding limited_def by blast
    have G16: "0 \<le> G div 16" "G div 16 \<le> b" using G b by auto
    have "env_ok (env ! k)" using e k by auto
    from not_overloads_fits [OF this b(1,2) x(2) G16] have "gain_exact G x = x * (G div 16) div 65536"
      by (simp add: gain_exact_def)
    moreover have "G \<le> 8388608" using G b by (auto simp: gain_ok_def)
    ultimately show ?thesis using gain_sample_eq [of G x] G x by (simp add: x_def)
  qed
  with g show ?thesis by blast
qed

lemma env_example: "digital_env 1 (replicate 10 20000) = Some (replicate 10 400000000)"
  by code_simp

theorem limiter_prevents_clipping_witness:
  "\<exists>s' gains. digital_frame_gains digital_example 0 (replicate 10 400000000) = Some (s', gains) \<and> length gains = 11
    \<and> (0 \<le> gains ! 1 \<longrightarrow> gain_sample (16 * (gains ! 1)) 20000 = Some (20000 * (gains ! 1) div 65536))"
proof -
  let ?xs = "replicate 10 20000 :: int list"
  have "\<forall>x \<in> set ?xs. in_s16 x" by (simp add: in_s16_def)
  from limiter_prevents_clipping [OF digital_example_inv _ _ this _ env_example, of 0] obtain s' gains
    where *: "digital_frame_gains digital_example 0 (replicate 10 400000000) = Some (s', gains)" "length gains = 11"
      and clip: "\<forall>k \<in> {1..9}. \<forall>n < 1. \<forall>G. 0 \<le> G \<and> G \<le> 16 * max (gains ! k) (gains ! Suc k) \<longrightarrow>
        gain_sample G (?xs ! (k * 1 + n)) = Some (?xs ! (k * 1 + n) * (G div 16) div 65536)"
    by auto
  have "0 \<le> gains ! 1 \<longrightarrow> gain_sample (16 * (gains ! 1)) 20000 = Some (20000 * (gains ! 1) div 65536)"
    using clip [THEN bspec, of 1, THEN spec, of 0, THEN mp, THEN spec, of "16 * (gains ! 1)"] by simp
  with * show ?thesis by blast
qed

text \<open>C18. The first sub frame is scaled in 32-bit arithmetic: for gains of at most 8 and 16-bit samples
  the routine has no overflow and its result is within 4 of the saturated exact product, which is
  what the 64-bit routine of the other sub frames returns.\<close>

theorem gain_sample_first_accurate:
  assumes "0 \<le> G" "G \<le> 16 * 524288" "in_s16 x"
  shows "\<exists>y z. gain_sample_first G x = Some y \<and> gain_sample G x = Some z \<and> in_s16 y \<and> \<bar>y - z\<bar> \<le> 4
    \<and> z = max (-32768) (min 32767 (x * (G div 16) div 65536))"
  using gain_sample_first_runs [of G x] gain_sample_eq [of G x] assms
  by (auto simp: runs_def gain_exact_def)

theorem gain_sample_first_accurate_witness:
  "\<exists>y z. gain_sample_first 8388608 (-32768) = Some y \<and> gain_sample 8388608 (-32768) = Some z \<and> z = -32768
    \<and> \<bar>y - z\<bar> \<le> 4"
  using gain_sample_first_accurate [of 8388608 "-32768"] by (auto simp: in_s16_def)




section \<open>Interleavings of near end and far end\<close>

text \<open>The calls a client makes between two initialisations, in any order.\<close>

datatype digital_event =
  FarFrame "int list" nat
| NearFrame "int list list" nat "int list option list" int int

fun digital_step :: "digital_event \<Rightarrow> DigitalAgc \<Rightarrow> (DigitalAgc \<times> int list list \<times> int) option" where
  "digital_step (FarFrame inp n) s = do {
     (s', r) \<leftarrow> WebRtcAgc_AddFarendToDigital (Some s) inp n;
     (case s' of None \<Rightarrow> None | Some s' \<Rightarrow> Some (s', [], r))
   }"
| "digital_step (NearFrame in_near nb out FS low) s = WebRtcAgc_ProcessDigital s in_near nb out FS low"

fun digital_good :: "digital_event \<Rightarrow> bool" where
  "digital_good (FarFrame inp n) \<longleftrightarrow> vad_frame n inp"
| "digital_good (NearFrame in_near nb out FS low) \<longleftrightarrow>
     (case digital_rate FS of None \<Rightarrow> True | Some (L, L2) \<Rightarrow> frame_ok (10 * L) in_near nb out)"

fun digital_post :: "digital_event \<Rightarrow> int list list \<times> int \<Rightarrow> bool" where
  "digital_post (FarFrame inp n) r \<longleftrightarrow> snd r = 0"
| "digital_post (NearFrame in_near nb out FS low) r \<longleftrightarrow>
     (case digital_rate FS of None \<Rightarrow> r = (out_contents in_near out, -1)
      | Some (L, L2) \<Rightarrow> snd r = 0 \<and> length (fst r) = nb \<and> bands_ok (10 * L) (fst r))"

lemma digital_step_post:
  assumes "digital_inv s" "digital_good i" "digital_step i s = Some (s', r)"
  shows "digital_inv s' \<and> digital_post i r"
proof (cases i)
  case (FarFrame inp n)
  with assms obtain s1 where "WebRtcAgc_AddFarendToDigital (Some s) inp n = Some (Some s1, snd r)" "s' = s1"
    by (auto split: bind_splits option.splits)
  with AddFarendToDigital_inv [of s n inp s1 "snd r"] assms FarFrame show ?thesis by auto
next
  case (NearFrame in_near nb out FS low)
  show ?thesis
  proof (cases "digital_rate FS")
    case None
    with assms NearFrame show ?thesis by (simp add: WebRtcAgc_ProcessDigital_def)
  next
    case (Some p)
    obtain L L2 where p: "p = (L, L2)" by (cases p)
    with Some assms NearFrame have fr: "frame_ok (10 * L) in_near nb out" by simp
    from ProcessDigital_cases [OF assms(1) Some [unfolded p] fr, of low] assms(3) NearFrame Some p
    show ?thesis by (auto simp: runs_def split: if_splits)
  qed
qed

interpretation digital: frame_processor digital_step digital_inv digital_good digital_post
  by unfold_locales (rule digital_step_post)


lemma far_example:
  "WebRtcAgc_ProcessVad (WebRtcAgc_InitVad vad_stuck) (replicate 80 0) 80 \<noteq> None"
  by code_simp


end
