(* ===== verification/Analog_State.thy ===== *)
theory Analog_State
  imports Digital_Agc
begin

text \<open>
  State and constants of the legacy gain control: \<^verbatim>\<open>src/digital_agc/analog_agc.h\<close>, the tables
  at the head of \<^verbatim>\<open>src/digital_agc/analog_agc.c\<close> and the error codes and configuration of
  \<^verbatim>\<open>src/digital_agc/gain_control.h\<close>. The code under \<open>MIC_LEVEL_FEEDBACK\<close> and
  \<open>WEBRTC_AGC_DEBUG_DUMP\<close>, which the build does not enable, is left out.

  A field of \<open>LegacyAgc\<close> has the name of its C member; the mode is \<open>stt_agcMode\<close>, since
  \<open>DigitalAgc\<close> has a member of the same name, and the members of \<open>WebRtcAgcConfig\<close> have the
  prefix \<open>cfg_\<close> for the same reason.
\<close>

section \<open>Codes and configuration\<close>

definition AGC_UNSPECIFIED_ERROR :: int where "AGC_UNSPECIFIED_ERROR = 18000"

definition AGC_UNINITIALIZED_ERROR :: int where "AGC_UNINITIALIZED_ERROR = 18002"

definition AGC_NULL_POINTER_ERROR :: int where "AGC_NULL_POINTER_ERROR = 18003"

definition AGC_BAD_PARAMETER_ERROR :: int where "AGC_BAD_PARAMETER_ERROR = 18004"

definition kAgcFalse :: int where "kAgcFalse = 0"

definition kAgcTrue :: int where "kAgcTrue = 1"

record WebRtcAgcConfig =
  cfg_targetLevelDbfs :: int
  cfg_compressionGaindB :: int
  cfg_limiterEnable :: int

section \<open>Constants\<close>

definition RXX_BUFFER_LEN :: nat where "RXX_BUFFER_LEN = 10"

definition kMsecSpeechInner :: int where "kMsecSpeechInner = 520"

definition kMsecSpeechOuter :: int where "kMsecSpeechOuter = 340"

definition kNormalVadThreshold :: int where "kNormalVadThreshold = 400"

definition kAlphaShortTerm :: int where "kAlphaShortTerm = 6"

definition kAlphaLongTerm :: int where "kAlphaLongTerm = 10"

definition kSlope1 :: "int list" where
  "kSlope1 =
   [21793, 12517, 7189, 4129, 2372, 1362, 472, 78]"

definition kOffset1 :: "int list" where
  "kOffset1 =
   [25395, 23911, 22206, 20737, 19612, 18805, 17951, 17367]"

definition kSlope2 :: "int list" where
  "kSlope2 =
   [2063, 1731, 1452, 1218, 1021, 857, 597, 337]"

definition kOffset2 :: "int list" where
  "kOffset2 =
   [18432, 18379, 18290, 18177, 18052, 17920, 17670, 17286]"

definition kMuteGuardTimeMs :: int where "kMuteGuardTimeMs = 8000"

definition kInitCheck :: int where "kInitCheck = 42"

definition kNumSubframes :: nat where "kNumSubframes = 10"

definition AGC_DEFAULT_TARGET_LEVEL :: int where "AGC_DEFAULT_TARGET_LEVEL = 3"

definition AGC_DEFAULT_COMP_GAIN :: int where "AGC_DEFAULT_COMP_GAIN = 9"

definition ANALOG_TARGET_LEVEL :: int where "ANALOG_TARGET_LEVEL = 11"

definition ANALOG_TARGET_LEVEL_2 :: int where "ANALOG_TARGET_LEVEL_2 = 5"

definition OFFSET_ENV_TO_RMS :: int where "OFFSET_ENV_TO_RMS = 9"

definition DIGITAL_REF_AT_0_COMP_GAIN :: int where "DIGITAL_REF_AT_0_COMP_GAIN = 4"

definition DIFF_REF_TO_ANALOG :: int where "DIFF_REF_TO_ANALOG = 5"

definition GAIN_TBL_LEN :: int where "GAIN_TBL_LEN = 32"

definition kGainTableAnalog :: "int list" where
  "kGainTableAnalog =
   [4096, 4251, 4412, 4579, 4752, 4932, 5118, 5312, 5513, 5722, 5938, 6163, 6396, 6638, 6889, 7150,
    7420, 7701, 7992, 8295, 8609, 8934, 9273, 9623, 9987, 10365, 10758, 11165, 11587, 12025, 12480,
    12953]"

definition kGainTableVirtualMic :: "int list" where
  "kGainTableVirtualMic =
   [1052, 1081, 1110, 1141, 1172, 1204, 1237, 1271, 1305, 1341, 1378, 1416, 1454, 1494, 1535, 1577,
    1620, 1664, 1710, 1757, 1805, 1854, 1905, 1957, 2010, 2065, 2122, 2180, 2239, 2301, 2364, 2428,
    2495, 2563, 2633, 2705, 2779, 2855, 2933, 3013, 3096, 3180, 3267, 3357, 3449, 3543, 3640, 3739,
    3842, 3947, 4055, 4166, 4280, 4397, 4517, 4640, 4767, 4898, 5032, 5169, 5311, 5456, 5605, 5758,
    5916, 6078, 6244, 6415, 6590, 6770, 6956, 7146, 7341, 7542, 7748, 7960, 8178, 8402, 8631, 8867,
    9110, 9359, 9615, 9878, 10148, 10426, 10711, 11004, 11305, 11614, 11932, 12258, 12593, 12938,
    13292, 13655, 14029, 14412, 14807, 15212, 15628, 16055, 16494, 16945, 17409, 17885, 18374,
    18877, 19393, 19923, 20468, 21028, 21603, 22194, 22801, 23425, 24065, 24724, 25400, 26095,
    26808, 27541, 28295, 29069, 29864, 30681, 31520, 32382]"

definition kSuppressionTableVirtualMic :: "int list" where
  "kSuppressionTableVirtualMic =
   [1024, 1006, 988, 970, 952, 935, 918, 902, 886, 870, 854, 839, 824, 809, 794, 780, 766, 752,
    739, 726, 713, 700, 687, 675, 663, 651, 639, 628, 616, 605, 594, 584, 573, 563, 553, 543, 533,
    524, 514, 505, 496, 487, 478, 470, 461, 453, 445, 437, 429, 421, 414, 406, 399, 392, 385, 378,
    371, 364, 358, 351, 345, 339, 333, 327, 321, 315, 309, 304, 298, 293, 288, 283, 278, 273, 268,
    263, 258, 254, 249, 244, 240, 236, 232, 227, 223, 219, 215, 211, 208, 204, 200, 197, 193, 190,
    186, 183, 180, 176, 173, 170, 167, 164, 161, 158, 155, 153, 150, 147, 145, 142, 139, 137, 134,
    132, 130, 127, 125, 123, 121, 118, 116, 114, 112, 110, 108, 106, 104, 102]"

definition kTargetLevelTable :: "int list" where
  "kTargetLevelTable =
   [134209536, 106606424, 84680493, 67264106, 53429779, 42440782, 33711911, 26778323, 21270778,
    16895980, 13420954, 10660642, 8468049, 6726411, 5342978, 4244078, 3371191, 2677832, 2127078,
    1689598, 1342095, 1066064, 846805, 672641, 534298, 424408, 337119, 267783, 212708, 168960,
    134210, 106606, 84680, 67264, 53430, 42441, 33712, 26778, 21271, 16896, 13421, 10661, 8468,
    6726, 5343, 4244, 3371, 2678, 2127, 1690, 1342, 1066, 847, 673, 534, 424, 337, 268, 213, 169,
    134, 107, 85, 67]"

section \<open>State\<close>

record LegacyAgc =
  fs :: int
  compressionGaindB :: int
  targetLevelDbfs :: int
  stt_agcMode :: int
  limiterEnable :: int
  defaultConfig :: WebRtcAgcConfig
  usedConfig :: WebRtcAgcConfig
  initFlag :: int
  lastError :: int
  analogTargetLevel :: int
  startUpperLimit :: int
  startLowerLimit :: int
  upperPrimaryLimit :: int
  lowerPrimaryLimit :: int
  upperSecondaryLimit :: int
  lowerSecondaryLimit :: int
  targetIdx :: int
  analogTarget :: int
  filterState :: "int list"
  upperLimit :: int
  lowerLimit :: int
  Rxx160w32 :: int
  Rxx16_LPw32 :: int
  Rxx160_LPw32 :: int
  Rxx16_LPw32Max :: int
  Rxx16_vectorw32 :: "int list"
  Rxx16w32_array :: "int list list"
  env :: "int list list"
  Rxx16pos :: int
  envSum :: int
  vadThreshold :: int
  inActive :: int
  msTooLow :: int
  msTooHigh :: int
  changeToSlowMode :: int
  firstCall :: int
  msZero :: int
  msecSpeechOuterChange :: int
  msecSpeechInnerChange :: int
  activeSpeech :: int
  muteGuardMs :: int
  inQueue :: int
  micRef :: int
  gainTableIdx :: int
  micGainIdx :: int
  micVol :: int
  maxLevel :: int
  maxAnalog :: int
  maxInit :: int
  minLevel :: int
  minOutput :: int
  zeroCtrlMax :: int
  lastInMicLevel :: int
  scale :: int
  vadMic :: AgcVad
  digitalAgc :: DigitalAgc
  lowLevelSignal :: int

section \<open>Exponential curves\<close>

definition WebRtcAgc_ExpCurve :: "int \<Rightarrow> int" where
  "WebRtcAgc_ExpCurve volume =
     (if volume > 5243 then
        if volume > 7864 then (if volume > 12124 then 7 else 6)
        else (if volume > 6554 then 5 else 4)
      else
        if volume > 2621 then (if volume > 3932 then 3 else 2)
        else (if volume > 1311 then 1 else 0))"

section \<open>Volume levels\<close>

text \<open>
  The levels \<open>WebRtcAgc_Init\<close> sets up for a volume range inside 0 to 65535 that the operations keep:
  the analog range lies below the range with digital gain, and the least output level is at least two
  steps above the lowest level.
\<close>

definition level_ok :: "LegacyAgc \<Rightarrow> bool" where
  "level_ok s \<longleftrightarrow> 0 \<le> minLevel s \<and> minLevel s + 42 \<le> maxAnalog s \<and> minLevel s + 2 \<le> minOutput s \<and> minOutput s \<le> maxAnalog s
    \<and> maxAnalog s \<le> 65535 \<and> maxAnalog s \<le> maxLevel s \<and> maxLevel s \<le> maxInit s
    \<and> maxInit s \<le> maxAnalog s + 16383 \<and> minLevel s \<le> micVol s \<and> micVol s \<le> maxLevel s \<and> scale s = 0"

text \<open>The arrays have the lengths of their declarations.\<close>

definition legacy_shape :: "LegacyAgc \<Rightarrow> bool" where
  "legacy_shape s \<longleftrightarrow> length (filterState s) = 8 \<and> length (Rxx16_vectorw32 s) = 10
    \<and> length (Rxx16w32_array s) = 2 \<and> (\<forall>r \<in> set (Rxx16w32_array s). length r = 5)
    \<and> length (env s) = 2 \<and> (\<forall>r \<in> set (env s). length r = 10) \<and> length (gainTable (digitalAgc s)) = 32"

text \<open>A block of memory of the right shape, for concrete evaluations.\<close>

definition agc_memory :: LegacyAgc where
  "agc_memory =
    \<lparr>fs = 0, compressionGaindB = 0, targetLevelDbfs = 0, stt_agcMode = 0, limiterEnable = 0,
     defaultConfig = \<lparr>cfg_targetLevelDbfs = 0, cfg_compressionGaindB = 0, cfg_limiterEnable = 0\<rparr>,
     usedConfig = \<lparr>cfg_targetLevelDbfs = 0, cfg_compressionGaindB = 0, cfg_limiterEnable = 0\<rparr>,
     initFlag = 0, lastError = 0, analogTargetLevel = 0, startUpperLimit = 0, startLowerLimit = 0,
     upperPrimaryLimit = 0, lowerPrimaryLimit = 0, upperSecondaryLimit = 0, lowerSecondaryLimit = 0,
     targetIdx = 0, analogTarget = 0, filterState = replicate 8 0, upperLimit = 0, lowerLimit = 0,
     Rxx160w32 = 0, Rxx16_LPw32 = 0, Rxx160_LPw32 = 0, Rxx16_LPw32Max = 0, Rxx16_vectorw32 = replicate 10 0,
     Rxx16w32_array = replicate 2 (replicate 5 0), env = replicate 2 (replicate 10 0), Rxx16pos = 0,
     envSum = 0, vadThreshold = 0, inActive = 0, msTooLow = 0, msTooHigh = 0, changeToSlowMode = 0,
     firstCall = 0, msZero = 0, msecSpeechOuterChange = 0, msecSpeechInnerChange = 0, activeSpeech = 0,
     muteGuardMs = 0, inQueue = 0, micRef = 0, gainTableIdx = 0, micGainIdx = 0, micVol = 0, maxLevel = 0,
     maxAnalog = 0, maxInit = 0, minLevel = 0, minOutput = 0, zeroCtrlMax = 0, lastInMicLevel = 0, scale = 0,
     vadMic = vad_stuck, digitalAgc = digital_example, lowLevelSignal = 0\<rparr>"

end
