(* ===== verification/Analog_Input.thy ===== *)
theory Analog_Input
  imports Analog_State
begin

text \<open>
  The input side of \<^verbatim>\<open>src/digital_agc/analog_agc.c\<close>: \<open>WebRtcAgc_AddMic\<close> with its slowly varying
  digital gain, envelope, energy and queue, \<open>WebRtcAgc_AddFarend\<close> and \<open>WebRtcAgc_VirtualMic\<close>. The
  arrays of bands that the functions change in place are passed and returned; \<open>None\<close> is undefined
  behaviour. The theory shows that both functions stay inside their tables and keep every sample a
  16-bit value, and that the pair of buffers and \<open>inQueue\<close> is a queue of at most two frames.
\<close>

section \<open>Sample arrays\<close>

definition rd2 :: "'a list list \<Rightarrow> int \<Rightarrow> int \<Rightarrow> 'a option" where
  "rd2 m j i = do { b \<leftarrow> rd m j; rd b i }"

definition wr2 :: "'a list list \<Rightarrow> int \<Rightarrow> int \<Rightarrow> 'a \<Rightarrow> 'a list list option" where
  "wr2 m j i v = do { b \<leftarrow> rd m j; b' \<leftarrow> wr b i v; wr m j b' }"

section \<open>Microphone input\<close>

text \<open>
  The target of the digital gain. The outer option is undefined behaviour, the inner one the early
  return of -1.
\<close>

definition addmic_target :: "LegacyAgc \<Rightarrow> int option option" where
  "addmic_target stt =
     (if \<not> maxLevel stt > maxAnalog stt then Some None
      else do {
        tmp32 \<leftarrow> chk32 (micVol stt - maxAnalog stt);
        tmp32 \<leftarrow> chk32 ((GAIN_TBL_LEN - 1) * s16 tmp32);
        tmp16 \<leftarrow> chk32 (maxLevel stt - maxAnalog stt);
        q \<leftarrow> div32 tmp32 (s16 tmp16);
        let targetGainIdx = u16 q;
        Some (if \<not> targetGainIdx < GAIN_TBL_LEN then None else Some targetGainIdx)
      })"

definition addmic_step_idx :: "int \<Rightarrow> int \<Rightarrow> int" where
  "addmic_step_idx idx target =
     (if idx < target then u16 (idx + 1) else if idx > target then u16 (idx - 1) else idx)"

definition addmic_sample :: "int \<Rightarrow> int \<Rightarrow> int option" where
  "addmic_sample gn x = do {
     p \<leftarrow> chk32 (x * gn);
     let sample = p div 2 ^ 12;
     Some (if sample > 32767 then 32767 else if sample < -32768 then -32768 else s16 sample)
   }"

definition addmic_gain :: "int \<Rightarrow> int list list \<Rightarrow> nat \<Rightarrow> nat \<Rightarrow> int list list option" where
  "addmic_gain gn in_mic num_bands samples =
     foldM (\<lambda>i m. foldM (\<lambda>j m. do {
         x \<leftarrow> rd2 m (int j) (int i);
         y \<leftarrow> addmic_sample gn x;
         wr2 m (int j) (int i) y
       }) [0..<num_bands] m) [0..<samples] in_mic"

definition addmic_digital_gain ::
  "LegacyAgc \<Rightarrow> int list list \<Rightarrow> nat \<Rightarrow> nat \<Rightarrow> (LegacyAgc \<times> int list list) option option" where
  "addmic_digital_gain stt in_mic num_bands samples =
     (if micVol stt > maxAnalog stt then do {
        target \<leftarrow> addmic_target stt;
        (case target of
           None \<Rightarrow> Some None
         | Some targetGainIdx \<Rightarrow> do {
             let idx = addmic_step_idx (gainTableIdx stt) targetGainIdx;
             gn \<leftarrow> rd kGainTableAnalog idx;
             in_mic \<leftarrow> addmic_gain gn in_mic num_bands samples;
             Some (Some (stt\<lparr>gainTableIdx := idx\<rparr>, in_mic))
           })
      } else Some (Some (stt\<lparr>gainTableIdx := 0\<rparr>, in_mic)))"

definition addmic_envelope :: "nat \<Rightarrow> int list \<Rightarrow> int list option" where
  "addmic_envelope L x = mapM (\<lambda>i. foldM (\<lambda>n max_nrg. do {
       a \<leftarrow> rd x (int (i * L + n));
       nrg \<leftarrow> chk32 (a * a);
       Some (if nrg > max_nrg then nrg else max_nrg)
     }) [0..<L] 0) [0..<kNumSubframes]"

definition addmic_block :: "LegacyAgc \<Rightarrow> int list \<Rightarrow> nat \<Rightarrow> (int list \<times> int list) option" where
  "addmic_block stt x i =
     (if fs stt = 16000 then do {
        b \<leftarrow> rd_block x (i * 32) 32;
        WebRtcSpl_DownsampleBy2 b 32 (filterState stt)
      } else do {
        tmp_speech \<leftarrow> rd_block x (i * 16) 16;
        Some (tmp_speech, filterState stt)
      })"

definition addmic_energy :: "LegacyAgc \<Rightarrow> int list \<Rightarrow> (LegacyAgc \<times> int list) option" where
  "addmic_energy stt x = foldM (\<lambda>i (stt, acc). do {
       (tmp_speech, state) \<leftarrow> addmic_block stt x i;
       e \<leftarrow> WebRtcSpl_DotProductWithScale tmp_speech tmp_speech 16 4;
       Some (stt\<lparr>filterState := state\<rparr>, acc @ [e])
     }) [0..<kNumSubframes div 2] (stt, [])"

definition addmic_rows :: "LegacyAgc \<Rightarrow> int" where
  "addmic_rows stt = (if inQueue stt > 0 then 1 else 0)"

definition addmic_queue :: "LegacyAgc \<Rightarrow> LegacyAgc" where
  "addmic_queue stt = stt\<lparr>inQueue := (if inQueue stt = 0 then 1 else 2)\<rparr>"

definition addmic_length :: "LegacyAgc \<Rightarrow> nat" where
  "addmic_length stt = (if fs stt = 8000 then 8 else 16)"

definition WebRtcAgc_AddMic ::
  "LegacyAgc \<Rightarrow> int list list \<Rightarrow> nat \<Rightarrow> nat \<Rightarrow> (LegacyAgc \<times> int list list \<times> int) option" where
  "WebRtcAgc_AddMic stt in_mic num_bands samples =
     (if samples \<noteq> 10 * addmic_length stt then Some (stt, in_mic, -1)
      else do {
        r \<leftarrow> addmic_digital_gain stt in_mic num_bands samples;
        (case r of
           None \<Rightarrow> Some (stt, in_mic, -1)
         | Some (stt, in_mic) \<Rightarrow> do {
             x \<leftarrow> rd in_mic 0;
             e \<leftarrow> addmic_envelope (addmic_length stt) x;
             rows \<leftarrow> wr (env stt) (addmic_rows stt) e;
             let stt = stt\<lparr>env := rows\<rparr>;
             (stt, nrg) \<leftarrow> addmic_energy stt x;
             rows \<leftarrow> wr (Rxx16w32_array stt) (addmic_rows stt) nrg;
             let stt = addmic_queue (stt\<lparr>Rxx16w32_array := rows\<rparr>);
             (vad, ratio) \<leftarrow> WebRtcAgc_ProcessVad (vadMic stt) x samples;
             Some (stt\<lparr>vadMic := vad\<rparr>, in_mic, 0)
           })
      })"

section \<open>Far-end input\<close>

definition WebRtcAgc_GetAddFarendError :: "LegacyAgc option \<Rightarrow> nat \<Rightarrow> int" where
  "WebRtcAgc_GetAddFarendError state samples =
     (case state of
        None \<Rightarrow> -1
      | Some stt \<Rightarrow>
          if fs stt = 8000 then (if samples \<noteq> 80 then -1 else 0)
          else if fs stt = 16000 \<or> fs stt = 32000 \<or> fs stt = 48000 then (if samples \<noteq> 160 then -1 else 0)
          else -1)"

definition WebRtcAgc_AddFarend :: "LegacyAgc option \<Rightarrow> int list \<Rightarrow> nat \<Rightarrow> (LegacyAgc option \<times> int) option" where
  "WebRtcAgc_AddFarend state in_far samples =
     (let err = WebRtcAgc_GetAddFarendError state samples in
      if err \<noteq> 0 then Some (state, err)
      else case state of
        None \<Rightarrow> None
      | Some stt \<Rightarrow> do {
          (d, r) \<leftarrow> WebRtcAgc_AddFarendToDigital (Some (digitalAgc stt)) in_far samples;
          (case d of None \<Rightarrow> None | Some d \<Rightarrow> Some (Some (stt\<lparr>digitalAgc := d\<rparr>), r))
        })"

section \<open>Virtual microphone\<close>

text \<open>The low level decision; the pair is the frame energy and the number of zero crossings.\<close>

definition virtual_count :: "int \<Rightarrow> int list \<Rightarrow> nat \<Rightarrow> (int \<times> int) option" where
  "virtual_count frameNrgLimit x samples = do {
     a \<leftarrow> rd x 0;
     p \<leftarrow> chk32 (a * a);
     foldM (\<lambda>sampleCntr (frameNrg, numZeroCrossing). do {
         a \<leftarrow> rd x (int sampleCntr);
         b \<leftarrow> rd x (int sampleCntr - 1);
         frameNrg \<leftarrow> (if frameNrg < frameNrgLimit
           then do { nrg \<leftarrow> chk32 (a * a); Some (u32 (frameNrg + u32 nrg)) } else Some frameNrg);
         Some (frameNrg, s16 (numZeroCrossing + (if (a XOR b) < 0 then 1 else 0)))
       }) [1..<samples] (u32 p, 0)
   }"

definition virtual_low_level :: "int \<Rightarrow> int \<Rightarrow> int \<Rightarrow> int" where
  "virtual_low_level frameNrgLimit frameNrg numZeroCrossing =
     (if frameNrg < 500 \<or> numZeroCrossing \<le> 5 then 1
      else if numZeroCrossing \<le> 15 then 1
      else if frameNrg \<le> frameNrgLimit then 1
      else if numZeroCrossing \<ge> 20 then 1
      else 0)"

definition virtual_limit :: "LegacyAgc \<Rightarrow> int" where
  "virtual_limit stt = (if fs stt \<noteq> 8000 then 5500 * 2 else 5500)"

text \<open>The restart when the physical level has changed; the index of the gain is returned.\<close>

definition virtual_level :: "LegacyAgc \<Rightarrow> int \<Rightarrow> LegacyAgc \<times> int" where
  "virtual_level stt micLevelTmp =
     (let gainIdx = (if micVol stt > maxAnalog stt then maxAnalog stt else micVol stt) in
      if micLevelTmp \<noteq> micRef stt
      then (stt\<lparr>micRef := micLevelTmp, micVol := 127, micGainIdx := 127\<rparr>, 127)
      else (stt, gainIdx))"

definition virtual_first_gain :: "int \<Rightarrow> int option" where
  "virtual_first_gain gainIdx =
     (if gainIdx > 127 then rd kGainTableVirtualMic (gainIdx - 128)
      else rd kSuppressionTableVirtualMic (127 - gainIdx))"

definition virtual_next_gain :: "int \<Rightarrow> int option" where
  "virtual_next_gain gainIdx =
     (if gainIdx \<ge> 127 then rd kGainTableVirtualMic (gainIdx - 127)
      else rd kSuppressionTableVirtualMic (127 - gainIdx))"

text \<open>A sample of the first band: a saturated sample moves the gain one step down.\<close>

definition virtual_sample :: "int \<Rightarrow> int \<Rightarrow> int \<Rightarrow> (int \<times> int \<times> int) option" where
  "virtual_sample gainIdx gn x = do {
     p \<leftarrow> chk32 (x * gn);
     let tmpFlt = p div 2 ^ 10;
     (tmpFlt, gainIdx, gn) \<leftarrow>
       (if tmpFlt > 32767 then do {
          i \<leftarrow> chk32 (gainIdx - 1);
          g \<leftarrow> virtual_next_gain i;
          Some (32767, i, g)
        } else Some (tmpFlt, gainIdx, gn));
     (tmpFlt, gainIdx, gn) \<leftarrow>
       (if tmpFlt < -32768 then do {
          i \<leftarrow> chk32 (gainIdx - 1);
          g \<leftarrow> virtual_next_gain i;
          Some (-32768, i, g)
        } else Some (tmpFlt, gainIdx, gn));
     Some (s16 tmpFlt, gainIdx, gn)
   }"

definition virtual_band_sample :: "int \<Rightarrow> int \<Rightarrow> int option" where
  "virtual_band_sample gn x = do {
     p \<leftarrow> chk32 (x * gn);
     let tmpFlt = p div 2 ^ 10;
     let tmpFlt = (if tmpFlt > 32767 then 32767 else tmpFlt);
     let tmpFlt = (if tmpFlt < -32768 then -32768 else tmpFlt);
     Some (s16 tmpFlt)
   }"

definition virtual_loop ::
  "nat \<Rightarrow> nat \<Rightarrow> int \<times> int \<times> int list list \<Rightarrow> (int \<times> int \<times> int list list) option" where
  "virtual_loop num_bands samples = foldM (\<lambda>ii (gainIdx, gn, m). do {
       x \<leftarrow> rd2 m 0 (int ii);
       (y, gainIdx, gn) \<leftarrow> virtual_sample gainIdx gn x;
       m \<leftarrow> wr2 m 0 (int ii) y;
       m \<leftarrow> foldM (\<lambda>j m. do {
           x \<leftarrow> rd2 m (int j) (int ii);
           y \<leftarrow> virtual_band_sample gn x;
           wr2 m (int j) (int ii) y
         }) [1..<num_bands] m;
       Some (gainIdx, gn, m)
     }) [0..<samples]"

text \<open>The result holds the state, the bands, \<open>*micLevelOut\<close> and the return value.\<close>

definition WebRtcAgc_VirtualMic ::
  "LegacyAgc \<Rightarrow> int list list \<Rightarrow> nat \<Rightarrow> nat \<Rightarrow> int \<Rightarrow> (LegacyAgc \<times> int list list \<times> int \<times> int) option" where
  "WebRtcAgc_VirtualMic stt in_near num_bands samples micLevelIn = do {
     x \<leftarrow> rd in_near 0;
     (frameNrg, numZeroCrossing) \<leftarrow> virtual_count (virtual_limit stt) x samples;
     let stt = stt\<lparr>lowLevelSignal := virtual_low_level (virtual_limit stt) frameNrg numZeroCrossing\<rparr>;
     micLevelTmp \<leftarrow> shl32 micLevelIn (scale stt);
     let (stt, gainIdx) = virtual_level stt micLevelTmp;
     gn \<leftarrow> virtual_first_gain gainIdx;
     (gainIdx, gn, in_near) \<leftarrow> virtual_loop num_bands samples (gainIdx, gn, in_near);
     let stt = stt\<lparr>micGainIdx := gainIdx\<rparr>;
     micLevelOut \<leftarrow> sar32 gainIdx (scale stt);
     (stt, in_near, r) \<leftarrow> WebRtcAgc_AddMic stt in_near num_bands samples;
     Some (stt, in_near, micLevelOut, if r \<noteq> 0 then -1 else 0)
   }"

section \<open>Sample loops\<close>

lemma bands_ok_nth: "bands_ok n m \<Longrightarrow> j < length m \<Longrightarrow> n \<le> length (m ! j) \<and> (\<forall>x \<in> set (m ! j). in_s16 x)"
  by (auto simp: bands_ok_def)

lemma runs_rd2: "bands_ok n m \<Longrightarrow> j < length m \<Longrightarrow> i < n \<Longrightarrow> runs (rd2 m (int j) (int i)) in_s16"
  using bands_ok_nth [of n m j] by (auto simp: rd2_def runs_simps)

lemma runs_wr2:
  assumes m: "bands_ok n m" "j < length m" "i < n" and v: "in_s16 v"
  shows "runs (wr2 m (int j) (int i) v) (\<lambda>m'. length m' = length m \<and> bands_ok n m')"
proof -
  have i: "i < length (m ! j)" using bands_ok_nth [OF m(1,2)] m(3) by simp
  have row: "in_s16 x" if "x \<in> set ((m ! j)[i := v])" for x
    using that bands_ok_nth [OF m(1,2)] v set_update_subset_insert [of "m ! j" i v] by auto
  have "bands_ok n (m[j := (m ! j)[i := v]])"
    unfolding bands_ok_def
  proof
    fix r assume "r \<in> set (m[j := (m ! j)[i := v]])"
    then consider "r = (m ! j)[i := v]" | "r \<in> set m" using set_update_subset_insert [of m j] by blast
    then show "n \<le> length r \<and> (\<forall>x \<in> set r. in_s16 x)"
      using row bands_ok_nth [OF m(1,2)] m(1) by cases (auto simp: bands_ok_def)
  qed
  with i m show ?thesis by (simp add: wr2_def runs_simps)
qed

text \<open>A loop over bands that applies a total sample function keeps the shape of the bands.\<close>

lemma band_loop_runs:
  assumes f: "\<And>x. in_s16 x \<Longrightarrow> runs (f x) in_s16"
    and m: "bands_ok n m" "nb \<le> length m" "i < n" and js: "set js \<subseteq> {..<nb}"
  shows "runs (foldM (\<lambda>j m. do { x \<leftarrow> rd2 m (int j) (int i); y \<leftarrow> f x; wr2 m (int j) (int i) y }) js m)
    (\<lambda>m'. length m' = length m \<and> bands_ok n m')"
proof (rule runs_foldM [where I = "\<lambda>m'. length m' = length m \<and> bands_ok n m'"], goal_cases)
  case 1
  with m show ?case by simp
next
  case (2 j m')
  with js m have "bands_ok n m'" "j < length m'" by auto
  then show ?case
    using 2 m f runs_wr2 [of n m' j i]
    by (auto intro!: runs_seq [OF runs_rd2] runs_seq [OF f])
qed

lemma addmic_sample_eq:
  assumes "in_s16 x" "0 \<le> g" "g \<le> 65535"
  shows "addmic_sample g x = Some (WebRtcSpl_SatW32ToW16 (x * g div 2 ^ 12))"
proof -
  have "\<bar>x * g\<bar> \<le> 32768 * 65535" using assms by (intro abs_mult_le) (auto simp: in_s16_def)
  then have "in_s32 (x * g)" by (intro in_s32I) linarith+
  then show ?thesis
    by (simp add: addmic_sample_def chk32_def WebRtcSpl_SatW32ToW16_def)
qed

lemma addmic_gain_runs:
  assumes "bands_ok n m" "nb \<le> length m" "0 \<le> g" "g \<le> 65535"
  shows "runs (addmic_gain g m nb n) (\<lambda>m'. length m' = length m \<and> bands_ok n m')"
  unfolding addmic_gain_def
proof (rule runs_foldM [where I = "\<lambda>m'. length m' = length m \<and> bands_ok n m'"], goal_cases)
  case 1
  with assms show ?case by simp
next
  case (2 i m')
  then have "runs (foldM (\<lambda>j m. do { x \<leftarrow> rd2 m (int j) (int i); y \<leftarrow> addmic_sample g x; wr2 m (int j) (int i) y })
      [0..<nb] m') (\<lambda>m''. length m'' = length m' \<and> bands_ok n m'')"
    using assms by (intro band_loop_runs) (auto simp: addmic_sample_eq runs_simps)
  with 2 show ?case by (auto elim!: runs_mono)
qed

section \<open>Digital gain, envelope and energy\<close>

lemma addmic_target_runs:
  assumes "level_ok s" "micVol s > maxAnalog s"
  shows "runs (addmic_target s) (\<lambda>t. \<exists>k. t = Some k \<and> 0 \<le> k \<and> k \<le> 31)"
proof -
  define a b where "a = micVol s - maxAnalog s" and "b = maxLevel s - maxAnalog s"
  have lvl: "maxAnalog s < maxLevel s" and ab: "0 < a" "a \<le> b" "b \<le> 16383" using assms by (auto simp: a_def b_def level_ok_def)
  have q: "31 * a sdiv b = 31 * a div b" "0 \<le> 31 * a div b" using ab by (simp_all add: sdiv_nonneg pos_imp_zdiv_nonneg_iff)
  have "31 * a \<le> 31 * b" using ab by simp
  then have "31 * a div b \<le> 31 * b div b" using ab by (intro zdiv_mono1) auto
  then have q31: "31 * a div b \<le> 31" using ab by simp
  have "in_s32 a" "in_s32 b" "in_s32 (31 * a)" "in_s32 (31 * a div b)" "s16 a = a" "s16 b = b" "u16 (31 * a div b) = 31 * a div b"
    using ab q(2) q31 by (auto simp: in_s32_def in_u16_def intro!: s16_small u16_id)
  then show ?thesis
    using lvl ab q q31 by (simp add: addmic_target_def runs_simps GAIN_TBL_LEN_def a_def [symmetric] b_def [symmetric])
qed

lemma addmic_step_idx_range:
  "0 \<le> i \<Longrightarrow> i \<le> 31 \<Longrightarrow> 0 \<le> t \<Longrightarrow> t \<le> 31 \<Longrightarrow> 0 \<le> addmic_step_idx i t \<and> addmic_step_idx i t \<le> 31"
  by (simp add: addmic_step_idx_def u16_def)

lemma kGainTableAnalog_range: "rd kGainTableAnalog i = Some g \<Longrightarrow> 4096 \<le> g \<and> g \<le> 12953"
proof -
  assume "rd kGainTableAnalog i = Some g"
  then have "g \<in> set kGainTableAnalog" by (auto simp: rd_def split: if_splits)
  moreover have "\<forall>g \<in> set kGainTableAnalog. 4096 \<le> g \<and> g \<le> 12953" by (simp add: kGainTableAnalog_def)
  ultimately show ?thesis by blast
qed

lemma addmic_digital_gain_runs:
  assumes s: "level_ok s" "0 \<le> gainTableIdx s" "gainTableIdx s \<le> 31" and m: "bands_ok n m" "nb \<le> length m"
  shows "runs (addmic_digital_gain s m nb n) (\<lambda>r. \<exists>k m'. r = Some (s\<lparr>gainTableIdx := k\<rparr>, m') \<and> 0 \<le> k \<and> k \<le> 31
    \<and> length m' = length m \<and> bands_ok n m')"
proof (cases "micVol s > maxAnalog s")
  case True
  have step: "runs (do {
      gn \<leftarrow> rd kGainTableAnalog (addmic_step_idx (gainTableIdx s) t);
      in_mic \<leftarrow> addmic_gain gn m nb n;
      Some (Some (s\<lparr>gainTableIdx := addmic_step_idx (gainTableIdx s) t\<rparr>, in_mic)) })
    (\<lambda>r. \<exists>k m'. r = Some (s\<lparr>gainTableIdx := k\<rparr>, m') \<and> 0 \<le> k \<and> k \<le> 31 \<and> length m' = length m \<and> bands_ok n m')"
    if "0 \<le> t" "t \<le> 31" for t
  proof -
    define k where "k = addmic_step_idx (gainTableIdx s) t"
    have k: "0 \<le> k" "k \<le> 31" using addmic_step_idx_range s that by (simp_all add: k_def)
    then obtain g where g: "rd kGainTableAnalog k = Some g" by (simp add: rd_def kGainTableAnalog_def)
    then have "runs (addmic_gain g m nb n) (\<lambda>m'. length m' = length m \<and> bands_ok n m')"
      using kGainTableAnalog_range m by (intro addmic_gain_runs) force+
    with g k show ?thesis by (auto simp: k_def runs_simps elim!: runs_mono)
  qed
  show ?thesis
    unfolding addmic_digital_gain_def using True
    by (auto simp: Let_def intro!: runs_seq [OF addmic_target_runs [OF s(1)]] step)
next
  case False
  with m show ?thesis by (auto simp: addmic_digital_gain_def runs_simps)
qed

lemma addmic_envelope_eq: "addmic_envelope = digital_env"
  by (intro ext) (simp add: addmic_envelope_def digital_env_def kNumSubframes_def)

text \<open>The energy of a block in Q-4; sixteen products of at most 2^26 add up to at most 2^30.\<close>

definition energy_ok :: "int \<Rightarrow> bool" where
  "energy_ok e \<longleftrightarrow> 0 \<le> e \<and> e \<le> 1073741824"

lemma block_energy_runs:
  assumes "length v = 16" "\<forall>x \<in> set v. in_s16 x"
  shows "runs (WebRtcSpl_DotProductWithScale v v 16 4) (\<lambda>e. energy_ok e \<and> e = (\<Sum>i<16. v ! i * v ! i div 16))"
proof -
  have t: "0 \<le> v ! i * v ! i div 16 \<and> v ! i * v ! i div 16 \<le> 67108864" if "i < 16" for i
  proof -
    have "v ! i * v ! i \<le> 32768 * 32768"
      using assms that by (intro square_bounds) (auto simp: in_s16_def all_set_conv_all_nth)
    then show ?thesis using zdiv_mono1 [of "v ! i * v ! i" "32768 * 32768" 16] by (simp add: pos_imp_zdiv_nonneg_iff)
  qed
  have "0 \<le> (\<Sum>i<16. v ! i * v ! i div 16)" using t by (intro sum_nonneg) auto
  moreover have "(\<Sum>i<16. v ! i * v ! i div 16) \<le> of_nat (card {..<16::nat}) * 67108864"
    using t by (intro sum_bounded_above) auto
  ultimately show ?thesis
    using assms by (intro runs_mono [OF DotProductWithScale_runs]) (auto simp: energy_ok_def)
qed

lemma addmic_block_runs:
  assumes "downsample_inv (filterState s)" "\<forall>x \<in> set x. in_s16 x" "10 * addmic_length s \<le> length x" "i < 5"
  shows "runs (addmic_block s x i) (\<lambda>r. length (fst r) = 16 \<and> (\<forall>y \<in> set (fst r). in_s16 y) \<and> downsample_inv (snd r))"
proof (cases "fs s = 16000")
  case True
  with assms have l: "i * 32 + 32 \<le> length x" by (simp add: addmic_length_def)
  have "\<forall>y \<in> set (take 32 (drop (i * 32) x)). in_s16 y" using assms(2) by (meson in_set_dropD in_set_takeD)
  then have "runs (WebRtcSpl_DownsampleBy2 (take 32 (drop (i * 32) x)) 32 (filterState s))
      (\<lambda>(ys, fs'). length ys = 32 div 2 \<and> (\<forall>y \<in> set ys. in_s16 y) \<and> downsample_inv fs')"
    using assms(1) l by (intro DownsampleBy2_runs) auto
  with True l show ?thesis
    by (auto simp: addmic_block_def runs_simps elim!: runs_mono)
next
  case False
  with assms have l: "i * 16 + 16 \<le> length x" by (auto simp: addmic_length_def split: if_splits)
  have "\<forall>y \<in> set (take 16 (drop (i * 16) x)). in_s16 y" using assms(2) by (meson in_set_dropD in_set_takeD)
  with False l assms(1) show ?thesis
    by (auto simp: addmic_block_def runs_simps)
qed

lemma addmic_energy_runs:
  assumes "downsample_inv (filterState s)" "\<forall>x \<in> set x. in_s16 x" "10 * addmic_length s \<le> length x"
  shows "runs (addmic_energy s x) (\<lambda>r. \<exists>f. fst r = s\<lparr>filterState := f\<rparr> \<and> downsample_inv f
    \<and> length (snd r) = 5 \<and> (\<forall>e \<in> set (snd r). energy_ok e))"
proof -
  let ?I = "\<lambda>i r. \<exists>f. fst r = s\<lparr>filterState := f\<rparr> \<and> downsample_inv f \<and> length (snd r) = i \<and> (\<forall>e \<in> set (snd r). energy_ok e)"
  have "runs (addmic_energy s x) (?I (length [0..<kNumSubframes div 2]))"
    unfolding addmic_energy_def
  proof (rule runs_foldM_index [where I = ?I], goal_cases)
    case 1
    have "s = s\<lparr>filterState := filterState s\<rparr>" by simp
    with assms(1) show ?case by (intro exI [of _ "filterState s"]) simp
  next
    case (2 i r)
    then obtain f where f: "fst r = s\<lparr>filterState := f\<rparr>" "downsample_inv f" "length (snd r) = i" "\<forall>e \<in> set (snd r). energy_ok e"
      by auto
    have i: "[0..<kNumSubframes div 2] ! i = i" "i < 5" using 2 by (simp_all add: kNumSubframes_def)
    have "runs (addmic_block (fst r) x i) (\<lambda>r. length (fst r) = 16 \<and> (\<forall>y \<in> set (fst r). in_s16 y) \<and> downsample_inv (snd r))"
      using f assms i by (intro addmic_block_runs) (auto simp: addmic_length_def)
    with i f show ?case
      by (cases r) (auto simp: case_prod_beta runs_simps elim!: runs_mono intro!: runs_mono [OF block_energy_runs] exI)
  qed
  then show ?thesis by (simp add: kNumSubframes_def)
qed

section \<open>The input queue\<close>

text \<open>
  The frames waiting to be processed, oldest first: row 0 and, when two frames are queued, row 1 of the
  envelope and energy buffers. \<open>queue_push\<close> and \<open>queue_pop\<close> are the abstract operations: a third
  frame replaces the second one.
\<close>

type_synonym mic_frame = "int list \<times> int list"

definition mic_queue :: "LegacyAgc \<Rightarrow> mic_frame list" where
  "mic_queue s = take (nat (inQueue s)) (zip (env s) (Rxx16w32_array s))"

definition queue_push :: "mic_frame \<Rightarrow> mic_frame list \<Rightarrow> mic_frame list" where
  "queue_push x q = take 1 q @ [x]"

definition frame_row_ok :: "mic_frame \<Rightarrow> bool" where
  "frame_row_ok x \<longleftrightarrow> length (fst x) = 10 \<and> (\<forall>e \<in> set (fst x). env_ok e)
    \<and> length (snd x) = 5 \<and> (\<forall>e \<in> set (snd x). energy_ok e)"

text \<open>
  Row 0 is always valid (\<open>WebRtcAgc_Init\<close> clears it), row 1 only while it is queued: \<open>Init\<close> does not
  clear the second row of the energies.
\<close>

definition buffers_ok :: "LegacyAgc \<Rightarrow> bool" where
  "buffers_ok s \<longleftrightarrow> length (env s) = 2 \<and> length (Rxx16w32_array s) = 2 \<and> 0 \<le> inQueue s \<and> inQueue s \<le> 2
    \<and> frame_row_ok (env s ! 0, Rxx16w32_array s ! 0) \<and> (\<forall>x \<in> set (mic_queue s). frame_row_ok x)"

definition input_inv :: "LegacyAgc \<Rightarrow> bool" where
  "input_inv s \<longleftrightarrow> level_ok s \<and> 0 \<le> gainTableIdx s \<and> gainTableIdx s \<le> 31 \<and> downsample_inv (filterState s)
    \<and> buffers_ok s \<and> vad_inv (vadMic s)"

lemma two_rows: "length xs = 2 \<Longrightarrow> xs = [xs ! 0, xs ! Suc 0]"
  by (auto simp: numeral_2_eq_2 length_Suc_conv)

lemma enqueue_row:
  assumes s: "buffers_ok s" and x: "frame_row_ok (e, w)"
    and s': "env s' = (env s)[nat (addmic_rows s) := e]" "Rxx16w32_array s' = (Rxx16w32_array s)[nat (addmic_rows s) := w]"
      "inQueue s' = (if inQueue s = 0 then 1 else 2)"
  shows "buffers_ok s' \<and> mic_queue s' = queue_push (e, w) (mic_queue s)"
proof -
  obtain e0 e1 w0 w1 where ew: "env s = [e0, e1]" "Rxx16w32_array s = [w0, w1]"
    using s two_rows [of "env s"] two_rows [of "Rxx16w32_array s"] by (auto simp: buffers_ok_def)
  have "0 \<le> inQueue s" "inQueue s \<le> 2" using s by (simp_all add: buffers_ok_def)
  then consider "inQueue s = 0" | "inQueue s = 1" | "inQueue s = 2" by linarith
  then show ?thesis
    using s x s' ew
    by cases (simp_all add: buffers_ok_def mic_queue_def queue_push_def addmic_rows_def frame_row_ok_def)
qed

text \<open>\<open>WebRtcAgc_AddMic\<close>: what it changes, and that it fails only where the activity detector does.\<close>

lemma AddMic_cases:
  assumes s: "input_inv s" and n: "n = 10 * addmic_length s"
    and m: "bands_ok n m" "0 < nb" "nb \<le> length m"
  shows "\<exists>x. vad_frame n x \<and> (if WebRtcAgc_ProcessVad (vadMic s) x n = None then WebRtcAgc_AddMic s m nb n = None
    else runs (WebRtcAgc_AddMic s m nb n) (\<lambda>(s', m', r). r = 0 \<and> input_inv s' \<and> length m' = length m \<and> bands_ok n m'
      \<and> (\<exists>e w. addmic_envelope (addmic_length s) (m' ! 0) = Some e \<and> frame_row_ok (e, w)
            \<and> mic_queue s' = queue_push (e, w) (mic_queue s))
      \<and> (\<exists>k e f w q v. s' = s\<lparr>gainTableIdx := k, env := e, filterState := f, Rxx16w32_array := w, inQueue := q, vadMic := v\<rparr>)))"
proof -
  note inv = s [unfolded input_inv_def]
  obtain k m' where g: "addmic_digital_gain s m nb n = Some (Some (s\<lparr>gainTableIdx := k\<rparr>, m'))"
      "0 \<le> k" "k \<le> 31" "length m' = length m" "bands_ok n m'"
    using addmic_digital_gain_runs [of s n m nb] inv m by (auto simp: runs_def)
  define x where "x = m' ! 0"
  have x: "rd m' 0 = Some x" "n \<le> length x" "\<forall>y \<in> set x. in_s16 y"
    using g(4) m bands_ok_nth [OF g(5), of 0] by (cases m; auto simp: x_def rd_def)+
  obtain e where e: "addmic_envelope (addmic_length s) x = Some e" "length e = 10" "\<forall>y \<in> set e. env_ok y"
    using digital_env_runs [OF x(3), of "addmic_length s"] x(2) n by (auto simp: runs_def addmic_envelope_eq)
  let ?s1 = "s\<lparr>gainTableIdx := k, env := (env s)[nat (addmic_rows s) := e]\<rparr>"
  have "runs (addmic_energy ?s1 x) (\<lambda>r. \<exists>f. fst r = ?s1\<lparr>filterState := f\<rparr> \<and> downsample_inv f
    \<and> length (snd r) = 5 \<and> (\<forall>e \<in> set (snd r). energy_ok e))"
    using inv x n by (intro addmic_energy_runs) (simp_all add: addmic_length_def)
  then obtain f w where w: "addmic_energy ?s1 x = Some (?s1\<lparr>filterState := f\<rparr>, w)" "downsample_inv f"
      "length w = 5" "\<forall>e \<in> set w. energy_ok e"
    by (auto simp: runs_def)
  let ?w = "(Rxx16w32_array s)[nat (addmic_rows s) := w]"
  let ?s2 = "s\<lparr>gainTableIdx := k, env := (env s)[nat (addmic_rows s) := e], filterState := f, Rxx16w32_array := ?w,
    inQueue := (if inQueue s = 0 then 1 else 2)\<rparr>"
  have row: "0 \<le> addmic_rows s" "addmic_rows s < int (length (env s))" "addmic_rows s < int (length (Rxx16w32_array s))"
    using inv by (simp_all add: addmic_rows_def buffers_ok_def)
  have run: "WebRtcAgc_AddMic s m nb n = do {
      (vad, ratio) \<leftarrow> WebRtcAgc_ProcessVad (vadMic s) x n; Some (?s2\<lparr>vadMic := vad\<rparr>, m', 0) }"
    using n g(1) x(1) e(1) w(1) row
    by (simp add: WebRtcAgc_AddMic_def addmic_length_def addmic_rows_def addmic_queue_def wr_def Let_def)
  have q: "buffers_ok (?s2\<lparr>vadMic := v\<rparr>) \<and> mic_queue (?s2\<lparr>vadMic := v\<rparr>) = queue_push (e, w) (mic_queue s)" for v
    using inv e w by (intro enqueue_row) (simp_all add: frame_row_ok_def)
  have lvl: "level_ok (?s2\<lparr>vadMic := v\<rparr>)" for v using inv by (simp add: level_ok_def)
  have fr: "vad_frame n x" using x n by (simp add: vad_frame_def addmic_length_def)
  moreover have "runs (WebRtcAgc_AddMic s m nb n) (\<lambda>(s', m', r). r = 0 \<and> input_inv s' \<and> length m' = length m \<and> bands_ok n m'
      \<and> (\<exists>e w. addmic_envelope (addmic_length s) (m' ! 0) = Some e \<and> frame_row_ok (e, w)
            \<and> mic_queue s' = queue_push (e, w) (mic_queue s))
      \<and> (\<exists>k e f w q v. s' = s\<lparr>gainTableIdx := k, env := e, filterState := f, Rxx16w32_array := w, inQueue := q, vadMic := v\<rparr>))"
    if "WebRtcAgc_ProcessVad (vadMic s) x n = Some (v, ratio)" for v ratio
  proof -
    have "vad_inv v" using vad.step_post [of "vadMic s" "(n, x)" v ratio] inv fr that by (simp add: vad_step_def)
    then have "input_inv (?s2\<lparr>vadMic := v\<rparr>)" using q lvl w(2) g(2,3) by (simp add: input_inv_def)
    moreover have "frame_row_ok (e, w)" using e w by (simp add: frame_row_ok_def)
    ultimately show ?thesis
      unfolding run that using q e(1) g(4,5) by (simp add: runs_simps x_def) blast
  qed
  ultimately show ?thesis using run by (intro exI [of _ x]) (auto split: if_splits)
qed

section \<open>The virtual microphone\<close>

lemma virtual_count_runs:
  assumes x: "\<forall>y \<in> set x. in_s16 y" "0 < n" "n \<le> length x" "n \<le> 32768"
  shows "runs (virtual_count fl x n) (\<lambda>r. snd r = int (card {i. 1 \<le> i \<and> i < n \<and> (x ! i < 0) \<noteq> (x ! (i - 1) < 0)}))"
proof -
  have s: "in_s32 (x ! i * x ! i)" if "i < n" for i
  proof -
    have "in_s16 (x ! i)" using x that by simp
    then have "\<bar>x ! i * x ! i\<bar> \<le> 32768 * 32768" by (intro abs_mult_le) (auto simp: in_s16_def)
    then show ?thesis by (intro in_s32I) linarith+
  qed
  let ?Z = "\<lambda>k. {i. 1 \<le> i \<and> i < k \<and> (x ! i < 0) \<noteq> (x ! (i - 1) < 0)}"
  let ?body = "\<lambda>c (frameNrg, z). do {
      a \<leftarrow> rd x (int c);
      b \<leftarrow> rd x (int c - 1);
      frameNrg \<leftarrow> (if frameNrg < fl then do { nrg \<leftarrow> chk32 (a * a); Some (u32 (frameNrg + u32 nrg)) } else Some frameNrg);
      Some (frameNrg, s16 (z + (if (a XOR b) < 0 then 1 else 0))) }"
  have "runs (foldM ?body [1..<n] p) (\<lambda>r. snd r = int (card (?Z (Suc (length [1..<n])))))" if "snd p = 0" for p
  proof (rule runs_foldM_index [where I = "\<lambda>k r. snd r = int (card (?Z (Suc k)))"], goal_cases)
    case 1
    have "?Z (Suc 0) = {}" by auto
    with that show ?case by simp
  next
    case (2 k r)
    let ?c = "Suc k"
    have c: "[1..<n] ! k = ?c" "?c < n" using 2 by auto
    have "?Z (Suc ?c) = (if (x ! ?c < 0) \<noteq> (x ! k < 0) then insert ?c (?Z ?c) else ?Z ?c)"
      by (auto simp: less_Suc_eq)
    then have card: "card (?Z (Suc ?c)) = card (?Z ?c) + (if (x ! ?c < 0) \<noteq> (x ! k < 0) then 1 else 0)"
      by simp
    have "card (?Z (Suc ?c)) \<le> card {1..<Suc ?c}" by (intro card_mono) auto
    then have le: "card (?Z (Suc ?c)) \<le> ?c" by simp
    have "s16 (int (card (?Z ?c)) + (if (x ! ?c XOR x ! k) < 0 then 1 else 0)) = int (card (?Z (Suc ?c)))"
      unfolding card using le [unfolded card] c x(4) by (intro trans [OF s16_small]) (auto simp: xor_negative_int_iff)
    moreover have "rd x (int ?c) = Some (x ! ?c)" "rd x (int ?c - 1) = Some (x ! k)" using c x(3) by (simp_all add: rd_def nat_add_distrib)
    moreover have "snd r = int (card (?Z ?c))" using 2 by simp
    ultimately show ?case
      unfolding c(1) using s [OF c(2)] by (cases r) (simp only: prod.case snd_conv bind.bind_lunit runs_simps if_cancel cong: if_cong; simp)
  qed
  moreover have "x \<noteq> []" using x(2,3) by auto
  ultimately show ?thesis
    using x s [of 0] by (simp add: virtual_count_def runs_simps)
qed

text \<open>Only a gain above one can saturate a sample, and such a gain belongs to an index of at least 127.\<close>

definition virtual_gain_ok :: "int \<Rightarrow> int \<Rightarrow> bool" where
  "virtual_gain_ok i g \<longleftrightarrow> 0 \<le> i \<and> i \<le> 255 \<and> 0 < g \<and> g \<le> 32382 \<and> (1024 < g \<longrightarrow> 127 \<le> i)"

lemma runs_rd_all:
  "\<forall>x \<in> set xs. P x \<Longrightarrow> 0 \<le> i \<Longrightarrow> i < int (length xs) \<Longrightarrow> runs (rd xs i) P"
  by (simp add: runs_simps)

lemma kGainTableVirtualMic_runs:
  assumes "0 \<le> i" "i < 128"
  shows "runs (rd kGainTableVirtualMic i) (\<lambda>g. 1024 < g \<and> g \<le> 32382)"
  by (rule runs_rd_all) (use assms in \<open>simp_all add: kGainTableVirtualMic_def\<close>)

lemma kSuppressionTableVirtualMic_runs:
  assumes "0 \<le> i" "i < 128"
  shows "runs (rd kSuppressionTableVirtualMic i) (\<lambda>g. 0 < g \<and> g \<le> 1024)"
  by (rule runs_rd_all) (use assms in \<open>simp_all add: kSuppressionTableVirtualMic_def\<close>)

lemmas virtual_tables = runs_mono [OF kGainTableVirtualMic_runs] runs_mono [OF kSuppressionTableVirtualMic_runs]

lemma virtual_first_gain_runs: "0 \<le> i \<Longrightarrow> i \<le> 255 \<Longrightarrow> runs (virtual_first_gain i) (virtual_gain_ok i)"
  by (auto simp: virtual_first_gain_def virtual_gain_ok_def intro!: virtual_tables)

lemma virtual_next_gain_runs: "126 \<le> i \<Longrightarrow> i \<le> 254 \<Longrightarrow> runs (virtual_next_gain i) (virtual_gain_ok i)"
  by (auto simp: virtual_next_gain_def virtual_gain_ok_def intro!: virtual_tables)

lemma virtual_sample_runs:
  assumes "virtual_gain_ok i g" "in_s16 x"
  shows "runs (virtual_sample i g x) (\<lambda>(y, i', g'). in_s16 y \<and> virtual_gain_ok i' g' \<and> i' \<le> i \<and> min i 126 \<le> i')"
proof -
  define p where "p = x * g"
  have "\<bar>x * g\<bar> \<le> 32768 * 32382" using assms by (intro abs_mult_le) (auto simp: in_s16_def virtual_gain_ok_def)
  then have p: "in_s32 p" "-1061093376 \<le> p" "p \<le> 1061093376" unfolding p_def by (auto simp: in_s32_def)
  have small: "- 32768 \<le> p div 1024 \<and> p div 1024 \<le> 32767" if "g \<le> 1024"
  proof -
    have "x * g \<le> 32767 * 1024" "- (32768 * 1024) \<le> x * g"
    proof -
      show "x * g \<le> 32767 * 1024"
      proof (cases "0 \<le> x")
        case True
        with assms that show ?thesis by (intro mult_mono) (auto simp: in_s16_def virtual_gain_ok_def)
      next
        case False
        with assms have "x * g \<le> 0" by (intro mult_nonpos_nonneg) (auto simp: virtual_gain_ok_def)
        then show ?thesis by simp
      qed
      have "\<bar>x * g\<bar> \<le> 32768 * 1024" using assms that by (intro abs_mult_le) (auto simp: in_s16_def virtual_gain_ok_def)
      then show "- (32768 * 1024) \<le> x * g" by linarith
    qed
    with div_window [of 1024 p] show ?thesis unfolding p_def by linarith
  qed
  have down: "runs (virtual_next_gain (i - 1)) (virtual_gain_ok (i - 1)) \<and> in_s32 (i - 1) \<and> min i 126 \<le> i - 1"
    if "p div 1024 > 32767 \<or> p div 1024 < -32768"
  proof -
    have "1024 < g" using small that by linarith
    with assms(1) have "126 \<le> i - 1" "i - 1 \<le> 254" by (auto simp: virtual_gain_ok_def)
    then show ?thesis by (auto intro: virtual_next_gain_runs simp: in_s32_def)
  qed
  have nt: "runs (virtual_next_gain (i - 1)) (\<lambda>g'. virtual_gain_ok (i - 1) g' \<and> i - 1 \<le> i \<and> min i 126 \<le> i - 1)"
    if "p div 1024 > 32767 \<or> p div 1024 < -32768"
    using down [OF that] by (auto elim!: runs_mono)
  consider "p div 1024 > 32767" | "p div 1024 < -32768" | "- 32768 \<le> p div 1024" "p div 1024 \<le> 32767" by linarith
  then show ?thesis
    using p(1) assms nt down
    by cases (auto simp: virtual_sample_def p_def [symmetric] runs_simps in_s16_def s16_small elim!: runs_mono)
qed

lemma virtual_band_sample_runs:
  assumes "virtual_gain_ok i g" "in_s16 x"
  shows "runs (virtual_band_sample g x) in_s16"
proof -
  have "\<bar>x * g\<bar> \<le> 32768 * 32382" using assms by (intro abs_mult_le) (auto simp: in_s16_def virtual_gain_ok_def)
  then have "in_s32 (x * g)" by (intro in_s32I) linarith+
  then show ?thesis by (simp add: virtual_band_sample_def runs_simps)
qed

lemma virtual_loop_runs:
  assumes "virtual_gain_ok i g" "bands_ok n m" "0 < nb" "nb \<le> length m"
  shows "runs (virtual_loop nb n (i, g, m)) (\<lambda>(i', g', m'). virtual_gain_ok i' g' \<and> i' \<le> i \<and> min i 126 \<le> i'
    \<and> length m' = length m \<and> bands_ok n m')"
  unfolding virtual_loop_def
proof (rule runs_foldM, goal_cases)
  case 1
  with assms show ?case by simp
next
  case (2 ii r)
  obtain i' g' m' where r: "r = (i', g', m')" by (cases r)
  with 2 assms have v: "virtual_gain_ok i' g'" "i' \<le> i" "min i 126 \<le> i'" "length m' = length m" "bands_ok n m'" and ii: "ii < n"
    by auto
  have m': "0 < length m'" using v(4) assms(3,4) by linarith
  have rd: "runs (rd2 m' 0 (int ii)) in_s16" using runs_rd2 [of n m' 0 ii] v m' ii by simp
  have wr: "runs (wr2 m' 0 (int ii) y) (\<lambda>m''. length m'' = length m \<and> bands_ok n m'')" if "in_s16 y" for y
    using runs_wr2 [of n m' 0 ii y] v m' ii that by simp
  have bands: "runs (foldM (\<lambda>j m. do { x \<leftarrow> rd2 m (int j) (int ii); y \<leftarrow> virtual_band_sample g'' x; wr2 m (int j) (int ii) y })
      [1..<nb] m'') (\<lambda>m'''. length m''' = length m \<and> bands_ok n m''')"
    if "virtual_gain_ok i'' g''" "length m'' = length m" "bands_ok n m''" for i'' g'' m''
    using band_loop_runs [of "virtual_band_sample g''" n m'' nb ii "[1..<nb]"] virtual_band_sample_runs [OF that(1)] that assms ii
    by (simp add: atLeastLessThan_subset_iff subset_iff)
  show ?case
    unfolding r prod.case
  proof (rule runs_seq [OF rd], rule runs_seq [OF virtual_sample_runs [OF v(1)]], assumption, goal_cases)
    case (1 x p)
    obtain y i'' g'' where p: "p = (y, i'', g'')" by (cases p)
    with 1 have y: "in_s16 y" "virtual_gain_ok i'' g''" "i'' \<le> i'" "min i' 126 \<le> i''" by auto
    then show ?case
      unfolding p prod.case using v(2,3)
      by (intro runs_seq [OF wr [OF y(1)]] runs_seq [OF bands [OF y(2)]]) (auto simp: runs_simps)
  qed
qed

text \<open>The virtual microphone works on the static range 0 to 255 of the adaptive digital mode.\<close>

definition virtual_ok :: "LegacyAgc \<Rightarrow> bool" where
  "virtual_ok s \<longleftrightarrow> input_inv s \<and> minLevel s = 0 \<and> maxAnalog s = 255"

lemma VirtualMic_cases:
  assumes s: "virtual_ok s" and n: "n = 10 * addmic_length s"
    and m: "bands_ok n m" "0 < nb" "nb \<le> length m" and l: "0 \<le> l" "l \<le> 2147483647"
  shows "\<exists>x. vad_frame n x \<and> (if WebRtcAgc_ProcessVad (vadMic s) x n = None then WebRtcAgc_VirtualMic s m nb n l = None
    else runs (WebRtcAgc_VirtualMic s m nb n l) (\<lambda>(s', m', out, r). r = 0 \<and> virtual_ok s' \<and> length m' = length m
      \<and> bands_ok n m' \<and> 0 \<le> out \<and> out \<le> 255 \<and> micRef s' = l \<and> (l \<noteq> micRef s \<longrightarrow> micVol s' = 127)
      \<and> (l = micRef s \<longrightarrow> micVol s' = micVol s \<and> min (micVol s) 126 \<le> out \<and> out \<le> micVol s)
      \<and> (\<exists>ll rf vol gi k e f w q v. s' = s\<lparr>lowLevelSignal := ll, micRef := rf, micVol := vol, micGainIdx := gi,
            gainTableIdx := k, env := e, filterState := f, Rxx16w32_array := w, inQueue := q, vadMic := v\<rparr>)))"
proof -
  note inv = s [unfolded virtual_ok_def input_inv_def level_ok_def]
  define x where "x = m ! 0"
  have x: "rd m 0 = Some x" "n \<le> length x" "\<forall>y \<in> set x. in_s16 y"
    using m bands_ok_nth [OF m(1), of 0] by (cases m; auto simp: x_def rd_def)+
  have n_range: "0 < n" "n \<le> 32768" using n by (simp_all add: addmic_length_def)
  obtain e z where count: "virtual_count (virtual_limit s) x n = Some (e, z)"
    using virtual_count_runs [OF x(3) n_range(1) x(2) n_range(2), of "virtual_limit s"] by (auto simp: runs_def)
  define s1 where "s1 = s\<lparr>lowLevelSignal := virtual_low_level (virtual_limit s) e z\<rparr>"
  define s2 i where "s2 = fst (virtual_level s1 l)" and "i = snd (virtual_level s1 l)"
  have lvl: "virtual_level s1 l = (s2, i)" by (simp add: s2_def i_def)
  have i: "0 \<le> i" "i \<le> 255" and i': "l = micRef s \<longrightarrow> i = min (micVol s) 255"
    using inv by (auto simp: i_def s1_def virtual_level_def Let_def)
  obtain g where g: "virtual_first_gain i = Some g" "virtual_gain_ok i g"
    using virtual_first_gain_runs [OF i] by (auto simp: runs_def)
  obtain i2 g2 m2 where loop: "virtual_loop nb n (i, g, m) = Some (i2, g2, m2)" "virtual_gain_ok i2 g2" "i2 \<le> i"
      "min i 126 \<le> i2" "length m2 = length m" "bands_ok n m2"
    using virtual_loop_runs [OF g(2) m] by (auto simp: runs_def)
  define s3 where "s3 = s2\<lparr>micGainIdx := i2\<rparr>"
  have s3: "input_inv s3" "minLevel s3 = 0" "maxAnalog s3 = 255" "micRef s3 = l" "l \<noteq> micRef s \<longrightarrow> micVol s3 = 127"
      "l = micRef s \<longrightarrow> micVol s3 = micVol s" "addmic_length s3 = addmic_length s" "vadMic s3 = vadMic s"
    using inv s by (auto simp: s3_def s2_def s1_def virtual_level_def Let_def virtual_ok_def input_inv_def level_ok_def
        buffers_ok_def mic_queue_def addmic_length_def)
  have fr: "\<exists>ll rf vol gi. s3 = s\<lparr>lowLevelSignal := ll, micRef := rf, micVol := vol, micGainIdx := gi\<rparr>"
  proof (cases "l = micRef s")
    case True
    then have "s3 = s\<lparr>lowLevelSignal := lowLevelSignal s1, micRef := micRef s, micVol := micVol s, micGainIdx := i2\<rparr>"
      by (simp add: s3_def s2_def s1_def virtual_level_def Let_def)
    then show ?thesis by blast
  next
    case False
    then have "s3 = s\<lparr>lowLevelSignal := lowLevelSignal s1, micRef := l, micVol := 127, micGainIdx := i2\<rparr>"
      by (simp add: s3_def s2_def s1_def virtual_level_def Let_def)
    then show ?thesis by blast
  qed
  then obtain ll rf vol gi where fr: "s3 = s\<lparr>lowLevelSignal := ll, micRef := rf, micVol := vol, micGainIdx := gi\<rparr>" by blast
  have out: "sar32 i2 0 = Some i2" by (simp add: sar32_def)
  have sc: "scale s1 = 0" "scale s2 = 0" "scale s = 0" using inv s3(1) by (simp_all add: s1_def s3_def input_inv_def level_ok_def)
  have run: "WebRtcAgc_VirtualMic s m nb n l = do {
      (stt, in_near, r) \<leftarrow> WebRtcAgc_AddMic s3 m2 nb n; Some (stt, in_near, i2, if r \<noteq> 0 then -1 else 0) }"
    using x(1) count lvl g(1) loop(1) l out sc
    by (simp add: WebRtcAgc_VirtualMic_def s1_def [symmetric] s3_def shl32_def chk32_def in_s32_def)
  obtain y where y: "vad_frame n y" "if WebRtcAgc_ProcessVad (vadMic s3) y n = None then WebRtcAgc_AddMic s3 m2 nb n = None
    else runs (WebRtcAgc_AddMic s3 m2 nb n) (\<lambda>(s', m', r). r = 0 \<and> input_inv s' \<and> length m' = length m2 \<and> bands_ok n m'
      \<and> (\<exists>e w. addmic_envelope (addmic_length s3) (m' ! 0) = Some e \<and> frame_row_ok (e, w)
            \<and> mic_queue s' = queue_push (e, w) (mic_queue s3))
      \<and> (\<exists>k e f w q v. s' = s3\<lparr>gainTableIdx := k, env := e, filterState := f, Rxx16w32_array := w, inQueue := q, vadMic := v\<rparr>))"
    using AddMic_cases [OF s3(1) n [folded s3(7)] loop(6) m(2) m(3) [folded loop(5)]] by blast
  have "runs (WebRtcAgc_VirtualMic s m nb n l) (\<lambda>(s', m', out, r). r = 0 \<and> virtual_ok s' \<and> length m' = length m
      \<and> bands_ok n m' \<and> 0 \<le> out \<and> out \<le> 255 \<and> micRef s' = l \<and> (l \<noteq> micRef s \<longrightarrow> micVol s' = 127)
      \<and> (l = micRef s \<longrightarrow> micVol s' = micVol s \<and> min (micVol s) 126 \<le> out \<and> out \<le> micVol s)
      \<and> (\<exists>ll rf vol gi k e f w q v. s' = s\<lparr>lowLevelSignal := ll, micRef := rf, micVol := vol, micGainIdx := gi,
            gainTableIdx := k, env := e, filterState := f, Rxx16w32_array := w, inQueue := q, vadMic := v\<rparr>))"
    if vad: "WebRtcAgc_ProcessVad (vadMic s) y n \<noteq> None"
  proof -
    have "runs (WebRtcAgc_AddMic s3 m2 nb n) (\<lambda>(s', m', r). r = 0 \<and> input_inv s' \<and> length m' = length m2 \<and> bands_ok n m'
        \<and> (\<exists>e w. addmic_envelope (addmic_length s3) (m' ! 0) = Some e \<and> frame_row_ok (e, w)
            \<and> mic_queue s' = queue_push (e, w) (mic_queue s3))
        \<and> (\<exists>k e f w q v. s' = s3\<lparr>gainTableIdx := k, env := e, filterState := f, Rxx16w32_array := w, inQueue := q, vadMic := v\<rparr>))"
      using y(2) vad unfolding s3(8) by (simp only: if_False)
    then obtain r where r: "WebRtcAgc_AddMic s3 m2 nb n = Some r" "case r of (s', m', r) \<Rightarrow> r = 0 \<and> input_inv s' \<and> length m' = length m2 \<and> bands_ok n m'
        \<and> (\<exists>e w. addmic_envelope (addmic_length s3) (m' ! 0) = Some e \<and> frame_row_ok (e, w)
            \<and> mic_queue s' = queue_push (e, w) (mic_queue s3))
        \<and> (\<exists>k e f w q v. s' = s3\<lparr>gainTableIdx := k, env := e, filterState := f, Rxx16w32_array := w, inQueue := q, vadMic := v\<rparr>)"
      unfolding runs_def by blast
    then obtain s' m' k e f w q v where add: "WebRtcAgc_AddMic s3 m2 nb n = Some (s', m', 0)" "input_inv s'" "length m' = length m2" "bands_ok n m'"
      and s': "s' = s3\<lparr>gainTableIdx := k, env := e, filterState := f, Rxx16w32_array := w, inQueue := q, vadMic := v\<rparr>"
      by (cases r) blast
    have v: "minLevel s' = 0" "maxAnalog s' = 255" "micRef s' = l" "l \<noteq> micRef s \<longrightarrow> micVol s' = 127" "l = micRef s \<longrightarrow> micVol s' = micVol s"
      using s3 by (simp_all add: s')
    have "s' = s\<lparr>lowLevelSignal := ll, micRef := rf, micVol := vol, micGainIdx := gi,
            gainTableIdx := k, env := e, filterState := f, Rxx16w32_array := w, inQueue := q, vadMic := v\<rparr>"
      by (simp add: s' fr)
    then have "\<exists>ll rf vol gi k e f w q v. s' = s\<lparr>lowLevelSignal := ll, micRef := rf, micVol := vol, micGainIdx := gi,
            gainTableIdx := k, env := e, filterState := f, Rxx16w32_array := w, inQueue := q, vadMic := v\<rparr>" by blast
    moreover have "WebRtcAgc_VirtualMic s m nb n l = Some (s', m', i2, 0)" using run add(1) by simp
    moreover have "0 \<le> i2" "i2 \<le> 255" "l = micRef s \<longrightarrow> min (micVol s) 126 \<le> i2 \<and> i2 \<le> micVol s"
      using loop(2-4) i i' by (auto simp: virtual_gain_ok_def)
    ultimately show ?thesis using add(2-4) v loop(5) by (simp add: runs_Some virtual_ok_def)
  qed
  with y s3(8) run show ?thesis by (intro exI [of _ y]) auto
qed

end
