(* ===== verification/Analog_Control.thy ===== *)
theory Analog_Control
  imports Analog_Input
begin

text \<open>
  The analog gain control of \<^verbatim>\<open>src/digital_agc/analog_agc.c\<close>: saturation, zero and speaker
  inactivity control and \<open>WebRtcAgc_ProcessAnalog\<close>. The body of \<open>ProcessAnalog\<close> is split in the
  order of the code; \<open>inMicLevelTmp\<close> and \<open>*saturationWarning\<close> are passed and returned beside the
  state. The theory shows that a frame has no undefined behaviour, that the microphone level stays in
  its range and how the running energy measure behaves.
\<close>

section \<open>Saturation, zero and inactivity control\<close>

definition saturation_sum :: "int list \<Rightarrow> int \<Rightarrow> int option" where
  "saturation_sum e s = foldM (\<lambda>i s. do {
       x \<leftarrow> rd e (int i);
       let tmpW16 = s16 (x div 2 ^ 20);
       Some (if tmpW16 > 875 then s16 (s + tmpW16) else s)
     }) [0..<10] s"

definition WebRtcAgc_SaturationCtrl :: "LegacyAgc \<Rightarrow> int \<Rightarrow> int list \<Rightarrow> (LegacyAgc \<times> int) option" where
  "WebRtcAgc_SaturationCtrl stt saturated e = do {
     s \<leftarrow> saturation_sum e (envSum stt);
     let (saturated, s) = (if s > 25000 then (1, 0) else (saturated, s));
     p \<leftarrow> chk32 (s * 32440);
     Some (stt\<lparr>envSum := s16 (p div 2 ^ 15)\<rparr>, saturated)
   }"

definition zero_sum :: "int list \<Rightarrow> int option" where
  "zero_sum e = foldM (\<lambda>i tmp. do { x \<leftarrow> rd e (int i); chk64 (tmp + x) }) [0..<10] 0"

definition zero_timers :: "LegacyAgc \<Rightarrow> int \<Rightarrow> LegacyAgc" where
  "zero_timers stt tmp =
     (let stt = (if tmp < 500 then stt\<lparr>msZero := s16 (msZero stt + 10)\<rparr> else stt\<lparr>msZero := 0\<rparr>)
      in if muteGuardMs stt > 0 then stt\<lparr>muteGuardMs := s16 (muteGuardMs stt - 10)\<rparr> else stt)"

definition zero_level :: "LegacyAgc \<Rightarrow> int \<Rightarrow> (LegacyAgc \<times> int) option" where
  "zero_level stt inMicLevel = do {
     m \<leftarrow> chk32 (maxAnalog stt + minLevel stt);
     m \<leftarrow> chk32 (m + 1);
     midVal \<leftarrow> div32 m 2;
     (if inMicLevel < midVal then do {
        p \<leftarrow> chk32 (1126 * inMicLevel);
        let l = p div 2 ^ 10;
        let l = (if l < zeroCtrlMax stt then l else zeroCtrlMax stt);
        Some (stt\<lparr>micVol := l\<rparr>, l)
      } else Some (stt, inMicLevel))
   }"

definition WebRtcAgc_ZeroCtrl :: "LegacyAgc \<Rightarrow> int \<Rightarrow> int list \<Rightarrow> (LegacyAgc \<times> int) option" where
  "WebRtcAgc_ZeroCtrl stt inMicLevel e = do {
     tmp \<leftarrow> zero_sum e;
     let stt = zero_timers stt tmp;
     (if msZero stt > 500 then do {
        (stt, inMicLevel) \<leftarrow> zero_level (stt\<lparr>msZero := 0\<rparr>) inMicLevel;
        Some (stt\<lparr>activeSpeech := 0, Rxx16_LPw32Max := 0, muteGuardMs := kMuteGuardTimeMs\<rparr>, inMicLevel)
      } else Some (stt, inMicLevel))
   }"

definition WebRtcAgc_SpeakerInactiveCtrl :: "LegacyAgc \<Rightarrow> LegacyAgc option" where
  "WebRtcAgc_SpeakerInactiveCtrl stt =
     (if stdLongTerm (vadMic stt) < 2500 then Some (stt\<lparr>vadThreshold := 1500\<rparr>)
      else do {
        vadThresh \<leftarrow> (if stdLongTerm (vadMic stt) < 4500 then do {
            d \<leftarrow> div32 (4500 - stdLongTerm (vadMic stt)) 2;
            Some (s16 (kNormalVadThreshold + d))
          } else Some kNormalVadThreshold);
        p \<leftarrow> chk32 (31 * vadThreshold stt);
        tmp32 \<leftarrow> chk32 (vadThresh + p);
        Some (stt\<lparr>vadThreshold := s16 (tmp32 div 2 ^ 5)\<rparr>)
      })"

section \<open>Level updates\<close>

text \<open>A level ten percent above the lowest one.\<close>

definition analog_low_level :: "LegacyAgc \<Rightarrow> int option" where
  "analog_low_level stt = do {
     d \<leftarrow> chk32 (maxLevel stt - minLevel stt);
     p \<leftarrow> chk32 (d * 51);
     chk32 (minLevel stt + p div 2 ^ 9)
   }"

definition analog_first_call :: "LegacyAgc \<Rightarrow> int \<Rightarrow> (LegacyAgc \<times> int) option" where
  "analog_first_call stt inMicLevelTmp =
     (if firstCall stt = 0 then do {
        let stt = stt\<lparr>firstCall := 1\<rparr>;
        tmpVol \<leftarrow> analog_low_level stt;
        let inMicLevelTmp = (if inMicLevelTmp < tmpVol \<and> stt_agcMode stt = kAgcModeAdaptiveAnalog
                             then tmpVol else inMicLevelTmp);
        Some (stt\<lparr>micVol := inMicLevelTmp\<rparr>, inMicLevelTmp)
      } else Some (stt, inMicLevelTmp))"

definition analog_manual_level :: "LegacyAgc \<Rightarrow> int \<Rightarrow> int \<Rightarrow> (LegacyAgc \<times> int) option" where
  "analog_manual_level stt inMicLevel inMicLevelTmp = do {
     let inMicLevelTmp = (if inMicLevelTmp = maxAnalog stt \<and> micVol stt > maxAnalog stt
                          then micVol stt else inMicLevelTmp);
     (stt, inMicLevelTmp) \<leftarrow>
       (if inMicLevelTmp \<noteq> micVol stt \<and> inMicLevelTmp < minOutput stt then do {
          l \<leftarrow> analog_low_level stt;
          Some (stt\<lparr>micVol := l\<rparr>, l)
        } else Some (stt, inMicLevelTmp));
     let (stt, inMicLevelTmp) =
       (if inMicLevelTmp \<noteq> micVol stt then
          if inMicLevel = lastInMicLevel stt then (stt, micVol stt)
          else (stt\<lparr>micVol := inMicLevelTmp\<rparr>, inMicLevelTmp)
        else (stt, inMicLevelTmp));
     let stt = (if inMicLevelTmp > maxLevel stt then stt\<lparr>maxLevel := inMicLevelTmp\<rparr> else stt);
     Some (stt\<lparr>lastInMicLevel := inMicLevel\<rparr>, inMicLevelTmp)
   }"

definition WEBRTC_SPL_UMUL :: "int \<Rightarrow> int \<Rightarrow> int" where
  "WEBRTC_SPL_UMUL a b = u32 (u32 a * u32 b)"

text \<open>
  The level above the lowest one is scaled by a factor in Q15 and the result kept below a bound; the sum
  with \<open>minLevel\<close> is an unsigned sum stored in an \<open>int32_t\<close>.
\<close>

definition analog_scale_level :: "LegacyAgc \<Rightarrow> int \<Rightarrow> int \<Rightarrow> int \<Rightarrow> int option" where
  "analog_scale_level stt factor inMicLevelTmp bound = do {
     tmp32 \<leftarrow> chk32 (inMicLevelTmp - minLevel stt);
     let tmpU32 = WEBRTC_SPL_UMUL factor tmp32;
     let l = s32 (tmpU32 div 2 ^ 15 + minLevel stt);
     Some (if l > bound then bound else l)
   }"

definition analog_saturated ::
  "LegacyAgc \<Rightarrow> int \<Rightarrow> int \<Rightarrow> int \<Rightarrow> (LegacyAgc \<times> int \<times> int) option" where
  "analog_saturated stt lastMicVol inMicLevelTmp saturationWarning = do {
     q \<leftarrow> div32 (Rxx160_LPw32 stt) 8;
     lp \<leftarrow> chk32 (q * 7);
     let stt = stt\<lparr>Rxx160_LPw32 := lp, zeroCtrlMax := micVol stt\<rparr>;
     bound \<leftarrow> chk32 (lastMicVol - 2);
     l \<leftarrow> analog_scale_level stt 29591 inMicLevelTmp bound;
     let stt = stt\<lparr>micVol := l\<rparr>;
     let warning = (if l < minOutput stt then 1 else saturationWarning);
     Some (stt\<lparr>msTooHigh := -100, activeSpeech := 0, Rxx16_LPw32Max := 0,
               msecSpeechInnerChange := kMsecSpeechInner, msecSpeechOuterChange := kMsecSpeechOuter,
               changeToSlowMode := 0, muteGuardMs := 0,
               upperLimit := startUpperLimit stt, lowerLimit := startLowerLimit stt\<rparr>, l, warning)
   }"

section \<open>One block of speech\<close>

definition analog_energy :: "LegacyAgc \<Rightarrow> nat \<Rightarrow> LegacyAgc option" where
  "analog_energy stt i = do {
     Rxx16w32 \<leftarrow> rd2 (Rxx16w32_array stt) 0 (int i);
     old \<leftarrow> rd (Rxx16_vectorw32 stt) (Rxx16pos stt);
     d \<leftarrow> chk32 (Rxx16w32 - old);
     e \<leftarrow> chk32 (Rxx160w32 stt + d div 2 ^ 3);
     v \<leftarrow> wr (Rxx16_vectorw32 stt) (Rxx16pos stt) Rxx16w32;
     let stt = stt\<lparr>Rxx160w32 := e, Rxx16_vectorw32 := v\<rparr>;
     let pos = s16 (Rxx16pos stt + 1);
     let stt = stt\<lparr>Rxx16pos := (if pos = int RXX_BUFFER_LEN then 0 else pos)\<rparr>;
     d \<leftarrow> chk32 (Rxx16w32 - Rxx16_LPw32 stt);
     lp \<leftarrow> chk32 (Rxx16_LPw32 stt + d div 2 ^ nat kAlphaShortTerm);
     Some (stt\<lparr>Rxx16_LPw32 := lp\<rparr>)
   }"

definition analog_active_speech :: "LegacyAgc \<Rightarrow> LegacyAgc option" where
  "analog_active_speech stt =
     (if activeSpeech stt < 250 then
        let stt = stt\<lparr>activeSpeech := s16 (activeSpeech stt + 2)\<rparr>
        in Some (if Rxx16_LPw32 stt > Rxx16_LPw32Max stt then stt\<lparr>Rxx16_LPw32Max := Rxx16_LPw32 stt\<rparr> else stt)
      else if activeSpeech stt = 250 then do {
        let stt = stt\<lparr>activeSpeech := s16 (activeSpeech stt + 2)\<rparr>;
        p \<leftarrow> chk32 (Rxx16_LPw32Max stt div 2 ^ 3 * int RXX_BUFFER_LEN);
        Some (stt\<lparr>Rxx160_LPw32 := p\<rparr>)
      } else Some stt)"

definition analog_long_term :: "LegacyAgc \<Rightarrow> LegacyAgc option" where
  "analog_long_term stt = do {
     d \<leftarrow> chk32 (Rxx160w32 stt - Rxx160_LPw32 stt);
     lp \<leftarrow> chk32 (Rxx160_LPw32 stt + d div 2 ^ nat kAlphaLongTerm);
     Some (stt\<lparr>Rxx160_LPw32 := lp\<rparr>)
   }"

text \<open>The reduction of the largest level and of the microphone level when the energy is too high.\<close>

definition analog_lower :: "LegacyAgc \<Rightarrow> int \<Rightarrow> int \<Rightarrow> int \<Rightarrow> (LegacyAgc \<times> int) option" where
  "analog_lower stt factor lastMicVol inMicLevelTmp = do {
     p \<leftarrow> chk32 (15 * maxLevel stt);
     p \<leftarrow> chk32 (p + micVol stt);
     l \<leftarrow> div32 p 16;
     let stt = stt\<lparr>maxLevel := (if l > maxAnalog stt then l else maxAnalog stt), zeroCtrlMax := micVol stt\<rparr>;
     bound \<leftarrow> chk32 (lastMicVol - 1);
     l \<leftarrow> analog_scale_level stt factor inMicLevelTmp bound;
     Some (stt\<lparr>micVol := l\<rparr>, l)
   }"

definition analog_above_secondary :: "LegacyAgc \<Rightarrow> int \<Rightarrow> int \<Rightarrow> (LegacyAgc \<times> int) option" where
  "analog_above_secondary stt lastMicVol inMicLevelTmp =
     (let stt = stt\<lparr>msTooHigh := s16 (msTooHigh stt + 2), msTooLow := 0, changeToSlowMode := 0\<rparr> in
      if msTooHigh stt > msecSpeechOuterChange stt then do {
        lp \<leftarrow> chk32 (Rxx160_LPw32 stt div 2 ^ 6 * 53);
        (stt, l) \<leftarrow> analog_lower (stt\<lparr>msTooHigh := 0, Rxx160_LPw32 := lp\<rparr>) 31130 lastMicVol inMicLevelTmp;
        Some (stt\<lparr>activeSpeech := 0, Rxx16_LPw32Max := 0\<rparr>, l)
      } else Some (stt, inMicLevelTmp))"

definition analog_above :: "LegacyAgc \<Rightarrow> int \<Rightarrow> int \<Rightarrow> (LegacyAgc \<times> int) option" where
  "analog_above stt lastMicVol inMicLevelTmp =
     (let stt = stt\<lparr>msTooHigh := s16 (msTooHigh stt + 2), msTooLow := 0, changeToSlowMode := 0\<rparr> in
      if msTooHigh stt > msecSpeechInnerChange stt then do {
        q \<leftarrow> div32 (Rxx160_LPw32 stt) 64;
        lp \<leftarrow> chk32 (q * 53);
        analog_lower (stt\<lparr>msTooHigh := 0, Rxx160_LPw32 := lp\<rparr>) 31621 lastMicVol inMicLevelTmp
      } else Some (stt, inMicLevelTmp))"

text \<open>The increase of the level by a weight that depends on the level itself.\<close>

definition analog_volume :: "LegacyAgc \<Rightarrow> int \<Rightarrow> int option" where
  "analog_volume stt inMicLevelTmp = do {
     d \<leftarrow> chk32 (inMicLevelTmp - minLevel stt);
     tmp32 \<leftarrow> shl32 d 14;
     (if maxInit stt \<noteq> minLevel stt then do {
        r \<leftarrow> chk32 (maxInit stt - minLevel stt);
        q \<leftarrow> div32 tmp32 r;
        Some (s16 q)
      } else Some 16384)
   }"

definition analog_weight :: "int list \<Rightarrow> int list \<Rightarrow> int \<Rightarrow> int option" where
  "analog_weight kOffset kSlope volNormFIX = do {
     let index = WebRtcAgc_ExpCurve volNormFIX;
     o1 \<leftarrow> rd kOffset index;
     s1 \<leftarrow> rd kSlope index;
     p \<leftarrow> chk32 (s1 * volNormFIX);
     Some (s16 (o1 - s16 (p div 2 ^ 13)))
   }"

definition analog_raise ::
  "LegacyAgc \<Rightarrow> int list \<Rightarrow> int list \<Rightarrow> int \<Rightarrow> int \<Rightarrow> int \<Rightarrow> (LegacyAgc \<times> int) option" where
  "analog_raise stt kOffset kSlope step lastMicVol inMicLevelTmp = do {
     volNormFIX \<leftarrow> analog_volume stt inMicLevelTmp;
     weightFIX \<leftarrow> analog_weight kOffset kSlope volNormFIX;
     q \<leftarrow> div32 (Rxx160_LPw32 stt) 64;
     lp \<leftarrow> chk32 (q * 67);
     d \<leftarrow> chk32 (inMicLevelTmp - minLevel stt);
     let tmpU32 = u32 (u32 weightFIX * u32 d);
     let l = s32 (tmpU32 div 2 ^ 14 + minLevel stt);
     bound \<leftarrow> chk32 (lastMicVol + step);
     let l = (if l < bound then bound else l);
     Some (stt\<lparr>Rxx160_LPw32 := lp, micVol := l\<rparr>, l)
   }"

definition analog_below_secondary :: "LegacyAgc \<Rightarrow> int \<Rightarrow> int \<Rightarrow> (LegacyAgc \<times> int) option" where
  "analog_below_secondary stt lastMicVol inMicLevelTmp =
     (let stt = stt\<lparr>msTooHigh := 0, changeToSlowMode := 0, msTooLow := s16 (msTooLow stt + 2)\<rparr> in
      if msTooLow stt > msecSpeechOuterChange stt
      then analog_raise (stt\<lparr>msTooLow := 0\<rparr>) kOffset1 kSlope1 2 lastMicVol inMicLevelTmp
      else Some (stt, inMicLevelTmp))"

definition analog_below :: "LegacyAgc \<Rightarrow> int \<Rightarrow> int \<Rightarrow> (LegacyAgc \<times> int) option" where
  "analog_below stt lastMicVol inMicLevelTmp =
     (let stt = stt\<lparr>msTooHigh := 0, changeToSlowMode := 0, msTooLow := s16 (msTooLow stt + 2)\<rparr> in
      if msTooLow stt > msecSpeechInnerChange stt
      then analog_raise (stt\<lparr>msTooLow := 0\<rparr>) kOffset2 kSlope2 1 lastMicVol inMicLevelTmp
      else Some (stt, inMicLevelTmp))"

definition analog_inside :: "LegacyAgc \<Rightarrow> int \<Rightarrow> LegacyAgc" where
  "analog_inside stt inMicLevelTmp =
     (let stt = (if changeToSlowMode stt > 4000
                 then stt\<lparr>msecSpeechInnerChange := 1000, msecSpeechOuterChange := 500,
                          upperLimit := upperPrimaryLimit stt, lowerLimit := lowerPrimaryLimit stt\<rparr>
                 else stt\<lparr>changeToSlowMode := s16 (changeToSlowMode stt + 2)\<rparr>)
      in stt\<lparr>msTooLow := 0, msTooHigh := 0, micVol := inMicLevelTmp\<rparr>)"

definition analog_adapt :: "LegacyAgc \<Rightarrow> int \<Rightarrow> int \<Rightarrow> (LegacyAgc \<times> int) option" where
  "analog_adapt stt lastMicVol inMicLevelTmp =
     (if Rxx160_LPw32 stt > upperSecondaryLimit stt then analog_above_secondary stt lastMicVol inMicLevelTmp
      else if Rxx160_LPw32 stt > upperLimit stt then analog_above stt lastMicVol inMicLevelTmp
      else if Rxx160_LPw32 stt < lowerSecondaryLimit stt then analog_below_secondary stt lastMicVol inMicLevelTmp
      else if Rxx160_LPw32 stt < lowerLimit stt then analog_below stt lastMicVol inMicLevelTmp
      else Some (analog_inside stt inMicLevelTmp, inMicLevelTmp))"

definition analog_block :: "int \<Rightarrow> int \<Rightarrow> nat \<Rightarrow> LegacyAgc \<times> int \<Rightarrow> (LegacyAgc \<times> int) option" where
  "analog_block vadLogRatio lastMicVol i = (\<lambda>(stt, inMicLevelTmp). do {
     stt \<leftarrow> analog_energy stt i;
     (if vadLogRatio > vadThreshold stt then do {
        stt \<leftarrow> analog_active_speech stt;
        stt \<leftarrow> analog_long_term stt;
        analog_adapt stt lastMicVol inMicLevelTmp
      } else Some (stt, inMicLevelTmp))
   })"

section \<open>One frame\<close>

definition analog_limit :: "LegacyAgc \<Rightarrow> int \<Rightarrow> int \<Rightarrow> LegacyAgc" where
  "analog_limit stt echo lastMicVol =
     (let stt = (if echo = 1 \<or> muteGuardMs stt > 0 \<and> muteGuardMs stt < kMuteGuardTimeMs
                 then if micVol stt > lastMicVol then stt\<lparr>micVol := lastMicVol\<rparr> else stt
                 else stt)
      in if micVol stt > maxLevel stt then stt\<lparr>micVol := maxLevel stt\<rparr>
         else if micVol stt < minOutput stt then stt\<lparr>micVol := minOutput stt\<rparr> else stt)"

text \<open>
  The result holds the state, \<open>*outMicLevel\<close>, \<open>*saturationWarning\<close> and the return value; the two
  pointers keep their contents on an error.
\<close>

definition WebRtcAgc_ProcessAnalog ::
  "LegacyAgc \<Rightarrow> int \<Rightarrow> int \<Rightarrow> int \<Rightarrow> int \<Rightarrow> int \<Rightarrow> (LegacyAgc \<times> int \<times> int \<times> int) option" where
  "WebRtcAgc_ProcessAnalog stt inMicLevel outMicLevel vadLogRatio echo saturationWarning = do {
     inMicLevelTmp \<leftarrow> shl32 inMicLevel (scale stt);
     (if inMicLevelTmp > maxAnalog stt then Some (stt, outMicLevel, saturationWarning, -1)
      else if inMicLevelTmp < minLevel stt then Some (stt, outMicLevel, saturationWarning, -1)
      else do {
        (stt, inMicLevelTmp) \<leftarrow> analog_first_call stt inMicLevelTmp;
        (stt, inMicLevelTmp) \<leftarrow> analog_manual_level stt inMicLevel inMicLevelTmp;
        let lastMicVol = micVol stt;
        e \<leftarrow> rd (env stt) 0;
        (stt, saturated) \<leftarrow> WebRtcAgc_SaturationCtrl stt 0 e;
        (stt, inMicLevelTmp, warning) \<leftarrow>
          (if saturated = 1 then analog_saturated stt lastMicVol inMicLevelTmp saturationWarning
           else Some (stt, inMicLevelTmp, saturationWarning));
        (stt, inMicLevelTmp) \<leftarrow> WebRtcAgc_ZeroCtrl stt inMicLevelTmp e;
        stt \<leftarrow> WebRtcAgc_SpeakerInactiveCtrl stt;
        (stt, inMicLevelTmp) \<leftarrow> foldM (analog_block vadLogRatio lastMicVol) [0..<5] (stt, inMicLevelTmp);
        let stt = analog_limit stt echo lastMicVol;
        out \<leftarrow> sar32 (if micVol stt < maxAnalog stt then micVol stt else maxAnalog stt) (scale stt);
        Some (stt, out, warning, 0)
      })
   }"

section \<open>Energies\<close>

text \<open>
  \<open>Rxx160w32\<close> is meant to be an eighth of the sum of the ten energies in the circular buffer. Each
  update shifts the difference of two energies right, which rounds down, so the measure falls behind the
  sum: the deficit never shrinks and grows by at most 7 per block.
\<close>

definition energy_deficit :: "LegacyAgc \<Rightarrow> int" where
  "energy_deficit s = sum_list (Rxx16_vectorw32 s) - 8 * Rxx160w32 s"

definition energy_inv :: "LegacyAgc \<Rightarrow> bool" where
  "energy_inv s \<longleftrightarrow> length (Rxx16_vectorw32 s) = 10 \<and> (\<forall>e \<in> set (Rxx16_vectorw32 s). energy_ok e)
    \<and> 0 \<le> Rxx16pos s \<and> Rxx16pos s < 10 \<and> energy_ok (Rxx16_LPw32 s) \<and> energy_ok (Rxx16_LPw32Max s)
    \<and> 0 \<le> energy_deficit s"

definition deficit_limit :: int where "deficit_limit = 2 ^ 31"

lemma sum_list_replace: "i < length xs \<Longrightarrow> sum_list (xs[i := x]) = sum_list xs + x - (xs ! i :: int)"
  by (induction xs arbitrary: i) (auto split: nat.splits)

lemma energy_sum_bounds:
  assumes "\<forall>e \<in> set v. energy_ok e"
  shows "0 \<le> sum_list v \<and> sum_list v \<le> 1073741824 * int (length v)"
  using assms by (induction v) (auto simp: energy_ok_def algebra_simps)

lemma energy_measure_bounds:
  assumes "energy_inv s" "energy_deficit s \<le> deficit_limit + 64"
  shows "-268435464 \<le> Rxx160w32 s \<and> Rxx160w32 s \<le> 1342177280"
  using assms energy_sum_bounds [of "Rxx16_vectorw32 s"]
  by (simp add: energy_inv_def energy_deficit_def deficit_limit_def)

lemma smooth_between:
  assumes "a \<le> x" "x \<le> b" "a \<le> y" "y \<le> b" "0 < m"
  shows "a \<le> x + (y - x) div m \<and> x + (y - x) div m \<le> (b::int)"
proof -
  have "(y - x) div m \<le> b - x"
  proof (cases "x \<le> y")
    case True
    then have "(y - x) div m \<le> (y - x) div 1" using assms by (intro zdiv_mono2) auto
    with assms show ?thesis by simp
  next
    case False
    then have "(y - x) div m \<le> 0" using assms by (simp add: div_nonpos_pos_le0)
    with assms show ?thesis by linarith
  qed
  moreover have "a - x \<le> (y - x) div m"
  proof (cases "x \<le> y")
    case True
    then have "0 \<le> (y - x) div m" using assms by (simp add: pos_imp_zdiv_nonneg_iff)
    with assms show ?thesis by linarith
  next
    case False
    have "m * (y - x) \<le> y - x" using False assms by (simp add: mult_le_cancel_right1)
    then have "(m * (y - x)) div m \<le> (y - x) div m" using assms by (intro zdiv_mono1) auto
    with assms show ?thesis by simp
  qed
  ultimately show ?thesis by linarith
qed

lemma analog_energy_runs:
  assumes s: "energy_inv s" and d: "energy_deficit s \<le> deficit_limit + 57"
    and row: "length (Rxx16w32_array s) = 2" "length (Rxx16w32_array s ! 0) = 5" "\<forall>e \<in> set (Rxx16w32_array s ! 0). energy_ok e"
    and i: "i < 5"
  shows "runs (analog_energy s i) (\<lambda>s'. (\<exists>e v p lp. s' = s\<lparr>Rxx160w32 := e, Rxx16_vectorw32 := v, Rxx16pos := p, Rxx16_LPw32 := lp\<rparr>)
    \<and> energy_inv s' \<and> energy_deficit s \<le> energy_deficit s' \<and> energy_deficit s' \<le> energy_deficit s + 7)"
proof -
  note inv = s [unfolded energy_inv_def]
  define x where "x = Rxx16w32_array s ! 0 ! i"
  define p where "p = nat (Rxx16pos s)"
  define old where "old = Rxx16_vectorw32 s ! p"
  define v where "v = (Rxx16_vectorw32 s)[p := x]"
  define e where "e = Rxx160w32 s + (x - old) div 8"
  define lp where "lp = Rxx16_LPw32 s + (x - Rxx16_LPw32 s) div 64"
  define q where "q = (if Rxx16pos s + 1 = 10 then 0 else Rxx16pos s + 1)"
  let ?s = "s\<lparr>Rxx160w32 := e, Rxx16_vectorw32 := v, Rxx16pos := q, Rxx16_LPw32 := lp\<rparr>"
  have p: "p < 10" "int p = Rxx16pos s" using inv by (auto simp: p_def)
  have ok: "energy_ok x" "energy_ok old" using row i p inv by (simp_all add: x_def old_def)
  have v: "length v = 10" "\<forall>e \<in> set v. energy_ok e" "sum_list v = sum_list (Rxx16_vectorw32 s) + x - old"
    using inv p ok set_update_subset_insert [of "Rxx16_vectorw32 s" p x] by (auto simp: v_def old_def sum_list_replace)
  have lp: "energy_ok lp"
    using smooth_between [of 0 "Rxx16_LPw32 s" 1073741824 x 64] inv ok by (simp add: lp_def energy_ok_def)
  define D where "D = energy_deficit ?s - energy_deficit s"
  have "D = (x - old) mod 8" using v(3) by (simp add: D_def energy_deficit_def e_def minus_mult_div_eq_mod [symmetric])
  then have D: "0 \<le> D" "D \<le> 7" by simp_all
  have s': "energy_inv ?s" using inv v lp D p by (auto simp: energy_inv_def q_def D_def)
  have "in_s32 e"
    using energy_measure_bounds [OF s'] d D by (auto simp: in_s32_def D_def)
  moreover have "in_s32 (x - old)" "in_s32 (x - Rxx16_LPw32 s)" "in_s32 lp"
    using ok lp inv by (auto simp: in_s32_def energy_ok_def)
  moreover have "s16 (Rxx16pos s + 1) = Rxx16pos s + 1" using inv by (intro s16_small) auto
  moreover have "rd2 (Rxx16w32_array s) 0 (int i) = Some x" "rd (Rxx16_vectorw32 s) (Rxx16pos s) = Some old"
      "wr (Rxx16_vectorw32 s) (Rxx16pos s) x = Some v"
    using row i inv by (auto simp: rd2_def rd_def wr_def x_def old_def v_def p_def)
  ultimately have "analog_energy s i = Some ?s"
    by (simp add: analog_energy_def chk32_def e_def lp_def q_def RXX_BUFFER_LEN_def kAlphaShortTerm_def)
  with s' D show ?thesis by (auto simp: runs_simps D_def)
qed

text \<open>
  The long-term measure \<open>Rxx160_LPw32\<close> has a lower bound that rises with the time the level has been
  too low, since every block of speech moves it towards \<open>Rxx160w32\<close>; it makes up for the factor 67/64
  applied when the level is raised.
\<close>

definition lp_floor :: "int \<Rightarrow> int" where
  "lp_floor t = -536870912 + min (t div 2) 170 * 200000"

definition lp_inv :: "LegacyAgc \<Rightarrow> bool" where
  "lp_inv s \<longleftrightarrow> lp_floor (msTooLow s) \<le> Rxx160_LPw32 s \<and> Rxx160_LPw32 s \<le> 1342177280"

lemma lp_floor_bounds: "0 \<le> t \<Longrightarrow> -536870912 \<le> lp_floor t \<and> lp_floor t \<le> -502870912"
  by (simp add: lp_floor_def)

lemma lp_floor_step:
  assumes "0 \<le> t" "lp_floor t \<le> lp" "-268435464 \<le> r"
  shows "lp_floor (t + 2) \<le> lp + (r - lp) div 1024"
proof -
  define k where "k = min (t div 2) 170"
  have k: "0 \<le> k" "k \<le> 170" "-536870912 + k * 200000 \<le> lp" using assms by (simp_all add: k_def lp_floor_def)
  have f: "lp_floor (t + 2) \<le> -536870912 + (k + 1) * 200000" by (auto simp: lp_floor_def k_def min_def)
  define q where "q = (r - lp) div 1024"
  have "r - lp < 1024 * q + 1024" using div_window [of 1024 "r - lp"] by (simp add: q_def)
  then have "-536870912 + (k + 1) * 200000 \<le> lp + q" using k assms(3) by simp
  with f show ?thesis by (simp add: q_def)
qed

section \<open>Level steps\<close>

definition timers_inv :: "LegacyAgc \<Rightarrow> bool" where
  "timers_inv s \<longleftrightarrow> 0 \<le> msTooLow s \<and> msTooLow s \<le> 1000 \<and> -100 \<le> msTooHigh s \<and> msTooHigh s \<le> 1000
    \<and> (msecSpeechOuterChange s = 340 \<and> msecSpeechInnerChange s = 520
       \<or> msecSpeechOuterChange s = 500 \<and> msecSpeechInnerChange s = 1000)"

text \<open>The energy limits are positive and the lower ones far from the largest energy.\<close>

definition limits_inv :: "LegacyAgc \<Rightarrow> bool" where
  "limits_inv s \<longleftrightarrow> 0 \<le> lowerSecondaryLimit s \<and> 0 \<le> upperSecondaryLimit s
    \<and> lowerSecondaryLimit s \<le> 134217728 \<and> lowerLimit s \<le> 134217728
    \<and> startLowerLimit s \<le> 134217728 \<and> lowerPrimaryLimit s \<le> 134217728
    \<and> 0 \<le> upperLimit s \<and> 0 \<le> startUpperLimit s \<and> 0 \<le> upperPrimaryLimit s"

text \<open>No level step can happen in the rest of a frame of which \<open>k\<close> blocks have been processed.\<close>

definition settled :: "nat \<Rightarrow> LegacyAgc \<Rightarrow> bool" where
  "settled k s \<longleftrightarrow> msTooHigh s \<le> 2 * int k \<and> msTooLow s \<le> 2 * int k"

definition levels_inv :: "nat \<Rightarrow> LegacyAgc \<Rightarrow> int \<Rightarrow> bool" where
  "levels_inv k s l \<longleftrightarrow> 0 \<le> minLevel s \<and> minLevel s + 42 \<le> maxAnalog s \<and> maxAnalog s \<le> 65535
    \<and> maxAnalog s \<le> maxLevel s \<and> maxLevel s \<le> maxInit s \<and> maxInit s \<le> maxAnalog s + 16383
    \<and> minLevel s \<le> zeroCtrlMax s \<and> zeroCtrlMax s \<le> maxInit s
    \<and> (minLevel s \<le> l \<and> l \<le> maxInit s \<and> minLevel s \<le> micVol s \<and> micVol s \<le> maxInit s
       \<or> settled k s \<and> -10 \<le> l \<and> l \<le> 210000 \<and> -10 \<le> micVol s \<and> micVol s \<le> 210000)"

lemma scaled_level_runs:
  assumes "0 \<le> f" "f \<le> 32768" "0 \<le> minLevel s" "minLevel s \<le> l" "l \<le> 131071"
  shows "runs (analog_scale_level s f l b) (\<lambda>l'. min b (minLevel s) \<le> l' \<and> l' \<le> b \<and> l' \<le> l)"
proof -
  define d where "d = l - minLevel s"
  have d: "0 \<le> d" "d \<le> 131071" using assms by (simp_all add: d_def)
  define p where "p = f * d"
  have p: "0 \<le> p" "p \<le> 32768 * d" "p \<le> 4294967295"
    using assms d mult_mono [of f 32768 d 131071] mult_right_mono [of f 32768 d] by (simp_all add: p_def)
  define q where "q = p div 32768"
  have q: "0 \<le> q" "q \<le> d" using p div_window [of 32768 p] by (auto simp: q_def pos_imp_zdiv_nonneg_iff)
  have "u32 f = f" "u32 d = d" "u32 p = p" using assms d p by (auto intro!: u32_id simp: in_u32_def)
  then have u: "WEBRTC_SPL_UMUL f d = p" by (simp add: WEBRTC_SPL_UMUL_def p_def)
  have "s32 (q + minLevel s) = q + minLevel s" using q d assms by (intro s32_small) auto
  moreover have "in_s32 d" using d by (simp add: in_s32_def)
  ultimately show ?thesis
    using u q by (auto simp: analog_scale_level_def runs_simps d_def [symmetric] q_def [symmetric] Let_def) (auto simp: d_def)
qed

text \<open>The largest volume (Q14) for which each of the eight curves is used.\<close>

definition curve_bound :: "int list" where
  "curve_bound = [1311, 2621, 3932, 5243, 6554, 7864, 12124, 16384]"

lemma ExpCurve_bound:
  assumes "v \<le> 16384"
  shows "0 \<le> WebRtcAgc_ExpCurve v \<and> WebRtcAgc_ExpCurve v < 8 \<and> v \<le> curve_bound ! nat (WebRtcAgc_ExpCurve v)"
  using assms by (simp add: WebRtcAgc_ExpCurve_def curve_bound_def)

definition curve_ok :: "int list \<Rightarrow> int list \<Rightarrow> bool" where
  "curve_ok os ss \<longleftrightarrow> length os = 8 \<and> length ss = 8 \<and> (\<forall>i < 8. 0 \<le> ss ! i \<and> ss ! i \<le> 21793 \<and> os ! i \<le> 25395
     \<and> 16384 \<le> os ! i - ss ! i * curve_bound ! i div 8192)"

lemma curve1_ok: "curve_ok kOffset1 kSlope1" and curve2_ok: "curve_ok kOffset2 kSlope2"
  by (simp_all add: curve_ok_def kOffset1_def kSlope1_def kOffset2_def kSlope2_def curve_bound_def
      numeral_eq_Suc All_less_Suc)

lemma analog_weight_runs:
  assumes c: "curve_ok os ss" and v: "0 \<le> v" "v \<le> 16384"
  shows "runs (analog_weight os ss v) (\<lambda>w. 16384 \<le> w \<and> w \<le> 25395)"
proof -
  define i where "i = nat (WebRtcAgc_ExpCurve v)"
  define b where "b = curve_bound ! i"
  have i: "i < 8" "WebRtcAgc_ExpCurve v = int i" "v \<le> b" using ExpCurve_bound [OF v(2)] by (auto simp: i_def b_def)
  define o1 s1 where "o1 = os ! i" and "s1 = ss ! i"
  have t: "rd os (int i) = Some o1" "rd ss (int i) = Some s1" "0 \<le> s1" "s1 \<le> 21793" "o1 \<le> 25395" "16384 \<le> o1 - s1 * b div 8192"
    using c i(1) by (auto simp: curve_ok_def rd_def o1_def s1_def b_def)
  define p where "p = s1 * v"
  have p: "0 \<le> p" "p \<le> s1 * b" "p \<le> 21793 * 16384"
    using t v i(3) mult_mono [of s1 21793 v 16384] mult_left_mono [of v b s1] by (simp_all add: p_def)
  define q where "q = p div 8192"
  have q: "0 \<le> q" "q \<le> s1 * b div 8192"
    using p zdiv_mono1 [of p "s1 * b" 8192] by (simp_all add: q_def pos_imp_zdiv_nonneg_iff)
  have "s16 q = q" "s16 (o1 - q) = o1 - q" using q t(5,6) by (intro s16_small; linarith)+
  moreover have "in_s32 p" using p by (intro in_s32I) linarith+
  ultimately show ?thesis
    using t q i(2) by (simp add: analog_weight_def Let_def runs_simps p_def [symmetric] q_def [symmetric])
qed

lemma analog_volume_runs:
  assumes "0 \<le> minLevel s" "minLevel s \<le> l" "l \<le> maxInit s" "minLevel s < maxInit s" "maxInit s \<le> 81918"
  shows "runs (analog_volume s l) (\<lambda>v. 0 \<le> v \<and> v \<le> 16384)"
proof -
  define d r where "d = l - minLevel s" and "r = maxInit s - minLevel s"
  have dr: "0 \<le> d" "d \<le> r" "0 < r" "r \<le> 81918" using assms by (simp_all add: d_def r_def)
  define p where "p = d * 16384"
  have p: "0 \<le> p" "p \<le> r * 16384" "p \<le> 81918 * 16384" using dr by (simp_all add: p_def)
  define q where "q = p div r"
  have q: "0 \<le> q" "q \<le> 16384"
    using p dr zdiv_mono1 [of p "r * 16384" r] by (simp_all add: q_def pos_imp_zdiv_nonneg_iff)
  have "p sdiv r = q" using p dr by (simp add: sdiv_nonneg q_def)
  moreover have "in_s32 d" "in_s32 r" "in_s32 p" "in_s32 q" "s16 q = q"
    using p q dr by (auto simp: in_s32_def s16_small)
  ultimately show ?thesis
    using dr q by (simp add: analog_volume_def runs_simps d_def [symmetric] r_def [symmetric] p_def [symmetric])
qed

lemma analog_raise_runs:
  assumes c: "curve_ok os ss"
    and l: "0 \<le> minLevel s" "minLevel s \<le> l" "l \<le> maxInit s" "minLevel s < maxInit s" "maxInit s \<le> 81918"
    and st: "1 \<le> step" "step \<le> 2" and lst: "0 \<le> lst" "lst \<le> 81918"
    and lp: "-502870912 \<le> Rxx160_LPw32 s" "Rxx160_LPw32 s \<le> 134217728"
  shows "runs (analog_raise s os ss step lst l) (\<lambda>r. \<exists>lp l'. r = (s\<lparr>Rxx160_LPw32 := lp, micVol := l'\<rparr>, l')
    \<and> -536870912 \<le> lp \<and> lp \<le> 1342177280 \<and> lst + step \<le> l' \<and> l \<le> l' \<and> l' \<le> 210000)"
proof -
  define LP where "LP = Rxx160_LPw32 s"
  define q where "q = LP sdiv 64"
  have q: "- 7857358 \<le> q" "q \<le> 2097152" unfolding q_def LP_def using lp by (intro sdiv_ge sdiv_le; linarith)+
  have "runs (do {
      q \<leftarrow> div32 (Rxx160_LPw32 s) 64;
      lp \<leftarrow> chk32 (q * 67);
      d \<leftarrow> chk32 (l - minLevel s);
      let tmpU32 = u32 (u32 w * u32 d);
      let l = s32 (tmpU32 div 2 ^ 14 + minLevel s);
      bound \<leftarrow> chk32 (lst + step);
      let l = (if l < bound then bound else l);
      Some (s\<lparr>Rxx160_LPw32 := lp, micVol := l\<rparr>, l) }) (\<lambda>r. \<exists>lp l'. r = (s\<lparr>Rxx160_LPw32 := lp, micVol := l'\<rparr>, l')
    \<and> -536870912 \<le> lp \<and> lp \<le> 1342177280 \<and> lst + step \<le> l' \<and> l \<le> l' \<and> l' \<le> 210000)"
    if w: "16384 \<le> w" "w \<le> 25395" for w
  proof -
    define d where "d = l - minLevel s"
    have d: "0 \<le> d" "d \<le> 81918" using l by (simp_all add: d_def)
    define p where "p = w * d"
    have p: "16384 * d \<le> p" "p \<le> 25395 * 81918"
      using w d mult_mono [of w 25395 d 81918] mult_right_mono [of 16384 w d] by (simp_all add: p_def)
    define e where "e = p div 16384"
    have e: "d \<le> e" "e \<le> 126974" using p zdiv_mono1 [of p "25395 * 81918" 16384] zdiv_mono1 [of "16384 * d" p 16384] by (simp_all add: e_def)
    have "u32 w = w" "u32 d = d" "u32 p = p" using w d p by (auto intro!: u32_id simp: in_u32_def)
    moreover have "s32 (e + minLevel s) = e + minLevel s" using e d l by (intro s32_small) auto
    moreover have "in_s32 q" "in_s32 (q * 67)" "in_s32 d" "in_s32 (lst + step)"
      using q d st lst by (auto simp: in_s32_def)
    moreover define l' where "l' = (if e + minLevel s < lst + step then lst + step else e + minLevel s)"
    ultimately have "do {
        q \<leftarrow> div32 (Rxx160_LPw32 s) 64;
        lp \<leftarrow> chk32 (q * 67);
        d \<leftarrow> chk32 (l - minLevel s);
        let tmpU32 = u32 (u32 w * u32 d);
        let l = s32 (tmpU32 div 2 ^ 14 + minLevel s);
        bound \<leftarrow> chk32 (lst + step);
        let l = (if l < bound then bound else l);
        Some (s\<lparr>Rxx160_LPw32 := lp, micVol := l\<rparr>, l) } = Some (s\<lparr>Rxx160_LPw32 := q * 67, micVol := l'\<rparr>, l')"
      by (simp add: div32_def chk32_def Let_def d_def [symmetric] p_def [symmetric] e_def [symmetric] LP_def [symmetric]
          q_def [symmetric])
    moreover have "-536870912 \<le> q * 67" "q * 67 \<le> 1342177280" using q by linarith+
    moreover have "lst + step \<le> l'" "l \<le> l'" "l' \<le> 210000" using e d l lst st by (simp_all add: l'_def d_def)
    ultimately show ?thesis by (simp only: runs_Some) blast
  qed
  then show ?thesis
    unfolding analog_raise_def
    by (intro runs_seq [OF analog_volume_runs [OF l]] runs_seq [OF analog_weight_runs [OF c]]) auto
qed

lemma analog_lower_runs:
  assumes l: "0 \<le> minLevel s" "minLevel s \<le> l" "l \<le> maxInit s" "minLevel s \<le> micVol s" "micVol s \<le> maxInit s"
    and m: "maxAnalog s \<le> maxLevel s" "maxLevel s \<le> maxInit s" "maxInit s \<le> 81918" "0 \<le> maxAnalog s"
    and f: "0 \<le> f" "f \<le> 32768" and lst: "minLevel s \<le> lst" "lst \<le> 81918"
  shows "runs (analog_lower s f lst l) (\<lambda>r. \<exists>M l'. r = (s\<lparr>maxLevel := M, zeroCtrlMax := micVol s, micVol := l'\<rparr>, l')
    \<and> maxAnalog s \<le> M \<and> M \<le> maxInit s \<and> -1 \<le> l' \<and> l' < lst \<and> l' \<le> l)"
proof -
  define p where "p = 15 * maxLevel s + micVol s"
  have p: "0 \<le> p" "p \<le> 16 * maxInit s" "in_s32 (15 * maxLevel s)" "in_s32 p" using l m by (auto simp: p_def in_s32_def)
  define q where "q = p div 16"
  have q: "p sdiv 16 = q" "0 \<le> q" "q \<le> maxInit s"
    using p div_window [of 16 p] by (simp_all add: q_def sdiv_nonneg pos_imp_zdiv_nonneg_iff)
  define M where "M = (if q > maxAnalog s then q else maxAnalog s)"
  have M: "maxAnalog s \<le> M" "M \<le> maxInit s" using q m by (auto simp: M_def)
  let ?s = "s\<lparr>maxLevel := M, zeroCtrlMax := micVol s\<rparr>"
  have "runs (analog_scale_level ?s f l (lst - 1)) (\<lambda>l'. min (lst - 1) (minLevel ?s) \<le> l' \<and> l' \<le> lst - 1 \<and> l' \<le> l)"
    using l m f by (intro scaled_level_runs) auto
  then have "runs (do { l' \<leftarrow> analog_scale_level ?s f l (lst - 1); Some (?s\<lparr>micVol := l'\<rparr>, l') })
    (\<lambda>r. \<exists>M l'. r = (s\<lparr>maxLevel := M, zeroCtrlMax := micVol s, micVol := l'\<rparr>, l')
      \<and> maxAnalog s \<le> M \<and> M \<le> maxInit s \<and> -1 \<le> l' \<and> l' < lst \<and> l' \<le> l)"
    by (rule runs_seq) (use M l lst in \<open>auto simp: runs_Some\<close>)
  moreover have "in_s32 q" "in_s32 (lst - 1)" using q m l lst by (auto simp: in_s32_def)
  ultimately show ?thesis
    using p(3,4) q(1)
    by (simp add: analog_lower_def Let_def div32_def chk32_def p_def [symmetric] M_def [symmetric])
qed

section \<open>One block\<close>

text \<open>What the analog control never changes: the configuration, the limits, the input side and the levels set by \<open>Init\<close>.\<close>

definition untouched :: "LegacyAgc \<Rightarrow> LegacyAgc \<Rightarrow> bool" where
  "untouched s s' \<longleftrightarrow> fs s' = fs s \<and> compressionGaindB s' = compressionGaindB s \<and> targetLevelDbfs s' = targetLevelDbfs s
    \<and> stt_agcMode s' = stt_agcMode s \<and> limiterEnable s' = limiterEnable s \<and> defaultConfig s' = defaultConfig s
    \<and> usedConfig s' = usedConfig s \<and> initFlag s' = initFlag s \<and> lastError s' = lastError s
    \<and> analogTargetLevel s' = analogTargetLevel s \<and> startUpperLimit s' = startUpperLimit s
    \<and> startLowerLimit s' = startLowerLimit s \<and> upperPrimaryLimit s' = upperPrimaryLimit s
    \<and> lowerPrimaryLimit s' = lowerPrimaryLimit s \<and> upperSecondaryLimit s' = upperSecondaryLimit s
    \<and> lowerSecondaryLimit s' = lowerSecondaryLimit s \<and> targetIdx s' = targetIdx s \<and> analogTarget s' = analogTarget s
    \<and> filterState s' = filterState s \<and> Rxx16w32_array s' = Rxx16w32_array s \<and> env s' = env s \<and> inQueue s' = inQueue s
    \<and> micRef s' = micRef s \<and> gainTableIdx s' = gainTableIdx s \<and> micGainIdx s' = micGainIdx s \<and> maxAnalog s' = maxAnalog s
    \<and> maxInit s' = maxInit s \<and> minLevel s' = minLevel s \<and> minOutput s' = minOutput s \<and> scale s' = scale s
    \<and> vadMic s' = vadMic s \<and> digitalAgc s' = digitalAgc s \<and> lowLevelSignal s' = lowLevelSignal s"

lemma untouched_refl [simp]: "untouched s s"
  by (simp add: untouched_def)

lemma untouched_trans: "untouched s t \<Longrightarrow> untouched t u \<Longrightarrow> untouched s u"
  by (simp add: untouched_def)

definition adapt_post :: "nat \<Rightarrow> LegacyAgc \<Rightarrow> LegacyAgc \<times> int \<Rightarrow> bool" where
  "adapt_post k s r \<longleftrightarrow> (case r of (s', l') \<Rightarrow> untouched s s' \<and> timers_inv s' \<and> limits_inv s' \<and> levels_inv k s' l' \<and> lp_inv s'
    \<and> Rxx160w32 s' = Rxx160w32 s \<and> Rxx16_vectorw32 s' = Rxx16_vectorw32 s \<and> Rxx16pos s' = Rxx16pos s
    \<and> Rxx16_LPw32 s' = Rxx16_LPw32 s \<and> (Rxx16_LPw32Max s' = Rxx16_LPw32Max s \<or> Rxx16_LPw32Max s' = 0)
    \<and> vadThreshold s' = vadThreshold s \<and> firstCall s' = firstCall s \<and> envSum s' = envSum s)"

lemmas adapt_simps = adapt_post_def untouched_def timers_inv_def limits_inv_def levels_inv_def lp_inv_def settled_def

text \<open>The premises of the five branches of the adaptation of one block.\<close>

definition adapt_pre :: "nat \<Rightarrow> int \<Rightarrow> LegacyAgc \<Rightarrow> int \<Rightarrow> bool" where
  "adapt_pre k lst s l \<longleftrightarrow> k < 5 \<and> timers_inv s \<and> limits_inv s \<and> levels_inv k s l \<and> minLevel s \<le> lst \<and> lst \<le> maxInit s
    \<and> lp_floor (msTooLow s + 2) \<le> Rxx160_LPw32 s \<and> Rxx160_LPw32 s \<le> 1342177280"

lemma adapt_pre_lp: "adapt_pre k lst s l \<Longrightarrow> -536870912 \<le> Rxx160_LPw32 s"
  using lp_floor_bounds [of "msTooLow s + 2"] by (simp add: adapt_pre_def timers_inv_def)

lemma lp_floor_0 [simp]: "lp_floor 0 = -536870912"
  by (simp add: lp_floor_def)

lemma analog_lower_adapts:
  assumes pre: "adapt_pre k lst s l" and t: "msTooHigh s > 8" and f: "0 \<le> f" "f \<le> 32768"
    and lp: "-536870912 \<le> lp" "lp \<le> 1342177280"
  shows "runs (analog_lower (s\<lparr>msTooLow := 0, changeToSlowMode := 0, msTooHigh := 0, Rxx160_LPw32 := lp\<rparr>) f lst l)
    (adapt_post (Suc k) s)"
proof -
  let ?s = "s\<lparr>msTooLow := 0, changeToSlowMode := 0, msTooHigh := 0, Rxx160_LPw32 := lp\<rparr>"
  have lv: "minLevel s \<le> l" "l \<le> maxInit s" "minLevel s \<le> micVol s" "micVol s \<le> maxInit s"
    using pre t by (auto simp: adapt_pre_def levels_inv_def settled_def)
  have "runs (analog_lower ?s f lst l) (\<lambda>r. \<exists>M l'. r = (?s\<lparr>maxLevel := M, zeroCtrlMax := micVol ?s, micVol := l'\<rparr>, l')
    \<and> maxAnalog ?s \<le> M \<and> M \<le> maxInit ?s \<and> -1 \<le> l' \<and> l' < lst \<and> l' \<le> l)"
    using pre f lv by (intro analog_lower_runs) (auto simp: adapt_pre_def levels_inv_def)
  then show ?thesis
  proof (rule runs_mono)
    fix r assume "\<exists>M l'. r = (?s\<lparr>maxLevel := M, zeroCtrlMax := micVol ?s, micVol := l'\<rparr>, l')
      \<and> maxAnalog ?s \<le> M \<and> M \<le> maxInit ?s \<and> -1 \<le> l' \<and> l' < lst \<and> l' \<le> l"
    then obtain M l' where r: "r = (?s\<lparr>maxLevel := M, zeroCtrlMax := micVol ?s, micVol := l'\<rparr>, l')"
      and b: "maxAnalog s \<le> M" "M \<le> maxInit s" "-1 \<le> l'" "l' < lst" "l' \<le> l" by auto
    show "adapt_post (Suc k) s r"
      using pre lv lp b unfolding r by (auto simp: adapt_pre_def adapt_simps)
  qed
qed

lemma analog_raise_adapts:
  assumes pre: "adapt_pre k lst s l" and t: "msTooLow s > 8" "340 \<le> msTooLow s + 2 \<or> 0 \<le> Rxx160_LPw32 s" and st: "1 \<le> step" "step \<le> 2"
    and lp: "Rxx160_LPw32 s \<le> 134217728" and c: "curve_ok os ss"
  shows "runs (analog_raise (s\<lparr>msTooHigh := 0, changeToSlowMode := 0, msTooLow := 0\<rparr>) os ss step lst l)
    (adapt_post (Suc k) s)"
proof -
  let ?s = "s\<lparr>msTooHigh := 0, changeToSlowMode := 0, msTooLow := 0\<rparr>"
  have lv: "minLevel s \<le> l" "l \<le> maxInit s" "minLevel s \<le> micVol s" "micVol s \<le> maxInit s"
    using pre t by (auto simp: adapt_pre_def levels_inv_def settled_def)
  have low: "-502870912 \<le> Rxx160_LPw32 s"
    using t(2) pre by (auto simp: adapt_pre_def lp_floor_def)
  have "runs (analog_raise ?s os ss step lst l) (\<lambda>r. \<exists>lp l'. r = (?s\<lparr>Rxx160_LPw32 := lp, micVol := l'\<rparr>, l')
    \<and> -536870912 \<le> lp \<and> lp \<le> 1342177280 \<and> lst + step \<le> l' \<and> l \<le> l' \<and> l' \<le> 210000)"
    using pre st lv lp c low by (intro analog_raise_runs) (auto simp: adapt_pre_def levels_inv_def)
  then show ?thesis
  proof (rule runs_mono)
    fix r assume "\<exists>lp l'. r = (?s\<lparr>Rxx160_LPw32 := lp, micVol := l'\<rparr>, l')
      \<and> -536870912 \<le> lp \<and> lp \<le> 1342177280 \<and> lst + step \<le> l' \<and> l \<le> l' \<and> l' \<le> 210000"
    then obtain lp' l' where r: "r = (?s\<lparr>Rxx160_LPw32 := lp', micVol := l'\<rparr>, l')"
      and b: "-536870912 \<le> lp'" "lp' \<le> 1342177280" "l \<le> l'" "l' \<le> 210000" by auto
    show "adapt_post (Suc k) s r"
      using pre lv b unfolding r by (auto simp: adapt_pre_def adapt_simps)
  qed
qed

lemma analog_wait_high:
  assumes pre: "adapt_pre k lst s l" and t: "msTooHigh s + 2 \<le> msecSpeechInnerChange s"
  shows "adapt_post (Suc k) s (s\<lparr>msTooHigh := msTooHigh s + 2, msTooLow := 0, changeToSlowMode := 0\<rparr>, l)"
  using assms adapt_pre_lp [OF pre] by (auto simp: adapt_pre_def adapt_simps)

lemma analog_wait_low:
  assumes pre: "adapt_pre k lst s l" and t: "msTooLow s + 2 \<le> msecSpeechInnerChange s"
  shows "adapt_post (Suc k) s (s\<lparr>msTooHigh := 0, changeToSlowMode := 0, msTooLow := msTooLow s + 2\<rparr>, l)"
  using assms by (auto simp: adapt_pre_def adapt_simps)

lemma analog_inside_adapts:
  assumes pre: "adapt_pre k lst s l"
  shows "adapt_post (Suc k) s (analog_inside s l, l)"
  using assms adapt_pre_lp [OF pre] by (auto simp: adapt_pre_def adapt_simps analog_inside_def Let_def)

lemma adapt_post_reset:
  assumes "adapt_post k s r"
  shows "adapt_post k s ((fst r)\<lparr>activeSpeech := 0, Rxx16_LPw32Max := 0\<rparr>, snd r)"
proof -
  let ?u = "\<lambda>a. a\<lparr>activeSpeech := 0, Rxx16_LPw32Max := 0\<rparr>"
  have "untouched s (?u a) = untouched s a" "timers_inv (?u a) = timers_inv a" "limits_inv (?u a) = limits_inv a"
      "levels_inv k (?u a) l = levels_inv k a l" "lp_inv (?u a) = lp_inv a" for a l
    by (simp_all add: untouched_def timers_inv_def limits_inv_def levels_inv_def settled_def lp_inv_def)
  with assms show ?thesis by (simp add: adapt_post_def case_prod_beta)
qed

lemma timers_s16:
  assumes "timers_inv s"
  shows "s16 (msTooHigh s + 2) = msTooHigh s + 2" "s16 (msTooLow s + 2) = msTooLow s + 2"
  using assms by (auto simp: timers_inv_def intro!: s16_small)

lemma analog_above_secondary_adapts:
  assumes pre: "adapt_pre k lst s l" and lp: "Rxx160_LPw32 s > upperSecondaryLimit s"
  shows "runs (analog_above_secondary s lst l) (adapt_post (Suc k) s)"
proof -
  have t: "timers_inv s" "0 \<le> upperSecondaryLimit s" "Rxx160_LPw32 s \<le> 1342177280"
    using pre by (auto simp: adapt_pre_def limits_inv_def)
  note s16 = timers_s16 [OF t(1)]
  define q where "q = Rxx160_LPw32 s div 64"
  have q: "0 \<le> q" "q \<le> 20971520" using t lp div_window [of 64 "Rxx160_LPw32 s"] by (simp_all add: q_def pos_imp_zdiv_nonneg_iff)
  have q53: "in_s32 (q * 53)" using q by (simp add: in_s32_def)
  show ?thesis
  proof (cases "msTooHigh s + 2 > msecSpeechOuterChange s")
    case True
    then have "msTooHigh s > 8" using t(1) by (auto simp: timers_inv_def)
    then have "runs (analog_lower (s\<lparr>msTooLow := 0, changeToSlowMode := 0, msTooHigh := 0, Rxx160_LPw32 := q * 53\<rparr>) 31130 lst l)
      (adapt_post (Suc k) s)"
      using q by (intro analog_lower_adapts [OF pre]) auto
    with True s16 q53 show ?thesis
      by (simp add: analog_above_secondary_def runs_simps q_def [symmetric])
        (erule runs_mono, erule adapt_post_reset)
  next
    case False
    then have "msTooHigh s + 2 \<le> msecSpeechInnerChange s" using t(1) by (auto simp: timers_inv_def)
    from analog_wait_high [OF pre this] False s16 show ?thesis
      by (simp add: analog_above_secondary_def runs_simps)
  qed
qed

lemma analog_above_adapts:
  assumes pre: "adapt_pre k lst s l" and lp: "Rxx160_LPw32 s > upperLimit s"
  shows "runs (analog_above s lst l) (adapt_post (Suc k) s)"
proof -
  have t: "timers_inv s" "0 \<le> upperLimit s" "Rxx160_LPw32 s \<le> 1342177280"
    using pre by (auto simp: adapt_pre_def limits_inv_def)
  note s16 = timers_s16 [OF t(1)]
  define q where "q = Rxx160_LPw32 s sdiv 64"
  have q: "0 \<le> q" "q \<le> 20971520" using t lp by (auto simp: q_def sdiv_nonneg pos_imp_zdiv_nonneg_iff intro!: sdiv_le)
  have q53: "in_s32 q" "in_s32 (q * 53)" using q by (simp_all add: in_s32_def)
  show ?thesis
  proof (cases "msTooHigh s + 2 > msecSpeechInnerChange s")
    case True
    then have "msTooHigh s > 8" using t(1) by (auto simp: timers_inv_def)
    then have "runs (analog_lower (s\<lparr>msTooLow := 0, changeToSlowMode := 0, msTooHigh := 0, Rxx160_LPw32 := q * 53\<rparr>) 31621 lst l)
      (adapt_post (Suc k) s)"
      using q by (intro analog_lower_adapts [OF pre]) auto
    with True s16 q53 show ?thesis
      by (simp add: analog_above_def runs_simps q_def [symmetric])
  next
    case False
    with analog_wait_high [OF pre] s16 show ?thesis
      by (simp add: analog_above_def runs_simps)
  qed
qed

lemma analog_below_secondary_adapts:
  assumes pre: "adapt_pre k lst s l" and lp: "Rxx160_LPw32 s < lowerSecondaryLimit s"
  shows "runs (analog_below_secondary s lst l) (adapt_post (Suc k) s)"
proof -
  have t: "timers_inv s" "lowerSecondaryLimit s \<le> 134217728" using pre by (auto simp: adapt_pre_def limits_inv_def)
  note s16 = timers_s16 [OF t(1)]
  show ?thesis
  proof (cases "msTooLow s + 2 > msecSpeechOuterChange s")
    case True
    then have "msTooLow s > 8" "340 \<le> msTooLow s + 2" using t(1) by (auto simp: timers_inv_def)
    then have "runs (analog_raise (s\<lparr>msTooHigh := 0, changeToSlowMode := 0, msTooLow := 0\<rparr>) kOffset1 kSlope1 2 lst l)
      (adapt_post (Suc k) s)"
      using lp t(2) curve1_ok by (intro analog_raise_adapts [OF pre]) auto
    with True s16 show ?thesis by (simp add: analog_below_secondary_def)
  next
    case False
    then have "msTooLow s + 2 \<le> msecSpeechInnerChange s" using t(1) by (auto simp: timers_inv_def)
    from analog_wait_low [OF pre this] False s16 show ?thesis
      by (simp add: analog_below_secondary_def runs_simps)
  qed
qed

lemma analog_below_adapts:
  assumes pre: "adapt_pre k lst s l" and lp: "lowerSecondaryLimit s \<le> Rxx160_LPw32 s" "Rxx160_LPw32 s < lowerLimit s"
  shows "runs (analog_below s lst l) (adapt_post (Suc k) s)"
proof -
  have t: "timers_inv s" "lowerLimit s \<le> 134217728" "0 \<le> lowerSecondaryLimit s" using pre by (auto simp: adapt_pre_def limits_inv_def)
  note s16 = timers_s16 [OF t(1)]
  show ?thesis
  proof (cases "msTooLow s + 2 > msecSpeechInnerChange s")
    case True
    then have "msTooLow s > 8" using t(1) by (auto simp: timers_inv_def)
    then have "runs (analog_raise (s\<lparr>msTooHigh := 0, changeToSlowMode := 0, msTooLow := 0\<rparr>) kOffset2 kSlope2 1 lst l)
      (adapt_post (Suc k) s)"
      using lp t curve2_ok by (intro analog_raise_adapts [OF pre]) auto
    with True s16 show ?thesis by (simp add: analog_below_def)
  next
    case False
    with analog_wait_low [OF pre] s16 show ?thesis
      by (simp add: analog_below_def runs_simps)
  qed
qed

lemma analog_adapt_runs:
  assumes "adapt_pre k lst s l"
  shows "runs (analog_adapt s lst l) (adapt_post (Suc k) s)"
  unfolding analog_adapt_def
  using analog_above_secondary_adapts [OF assms] analog_above_adapts [OF assms] analog_below_secondary_adapts [OF assms]
    analog_below_adapts [OF assms] analog_inside_adapts [OF assms]
  by (simp add: runs_Some)

lemma analog_active_speech_runs:
  assumes "energy_inv s" "lp_inv s" "timers_inv s"
  shows "runs (analog_active_speech s) (\<lambda>s'. \<exists>a m lp. s' = s\<lparr>activeSpeech := a, Rxx16_LPw32Max := m, Rxx160_LPw32 := lp\<rparr>
    \<and> energy_ok m \<and> lp_inv s')"
proof -
  note e = assms(1) [unfolded energy_inv_def energy_ok_def]
  define q where "q = Rxx16_LPw32Max s div 8"
  have q: "0 \<le> q" "q \<le> 134217728" using e zdiv_mono1 [of "Rxx16_LPw32Max s" 1073741824 8] by (simp_all add: q_def pos_imp_zdiv_nonneg_iff)
  have q10: "in_s32 (q * 10)" using q by (simp add: in_s32_def)
  have lp: "lp_floor (msTooLow s) \<le> q * 10" "q * 10 \<le> 1342177280"
    using q lp_floor_bounds [of "msTooLow s"] assms(3) by (simp_all add: timers_inv_def)
  consider "activeSpeech s < 250" | "activeSpeech s = 250" | "activeSpeech s > 250" by linarith
  then show ?thesis
  proof cases
    case 1
    let ?a = "s16 (activeSpeech s + 2)" and ?m = "max (Rxx16_LPw32Max s) (Rxx16_LPw32 s)"
    have "analog_active_speech s = Some (s\<lparr>activeSpeech := ?a, Rxx16_LPw32Max := ?m, Rxx160_LPw32 := Rxx160_LPw32 s\<rparr>)"
      using 1 by (simp add: analog_active_speech_def Let_def max_def)
    moreover have "energy_ok ?m" using e by (simp add: energy_ok_def max_def)
    ultimately show ?thesis
      using assms(2) by (simp only: runs_Some) (rule exI [of _ "?a"], rule exI [of _ "?m"], rule exI [of _ "Rxx160_LPw32 s"], simp add: lp_inv_def)
  next
    case 2
    let ?a = "s16 (activeSpeech s + 2)"
    have "analog_active_speech s = Some (s\<lparr>activeSpeech := ?a, Rxx16_LPw32Max := Rxx16_LPw32Max s, Rxx160_LPw32 := q * 10\<rparr>)"
      using 2 q10 by (simp add: analog_active_speech_def Let_def chk32_def RXX_BUFFER_LEN_def q_def [symmetric])
    moreover have "energy_ok (Rxx16_LPw32Max s)" using e by (simp add: energy_ok_def)
    ultimately show ?thesis
      using lp by (simp only: runs_Some) (rule exI [of _ "?a"], rule exI [of _ "Rxx16_LPw32Max s"], rule exI [of _ "q * 10"], simp add: lp_inv_def)
  next
    case 3
    have "analog_active_speech s = Some (s\<lparr>activeSpeech := activeSpeech s, Rxx16_LPw32Max := Rxx16_LPw32Max s, Rxx160_LPw32 := Rxx160_LPw32 s\<rparr>)"
      using 3 by (simp add: analog_active_speech_def)
    moreover have "energy_ok (Rxx16_LPw32Max s)" using e by (simp add: energy_ok_def)
    ultimately show ?thesis
      using assms(2) by (simp only: runs_Some) (rule exI [of _ "activeSpeech s"], rule exI [of _ "Rxx16_LPw32Max s"], rule exI [of _ "Rxx160_LPw32 s"], simp add: lp_inv_def)
  qed
qed

lemma analog_long_term_runs:
  assumes "lp_inv s" "timers_inv s" "-268435464 \<le> Rxx160w32 s" "Rxx160w32 s \<le> 1342177280"
  shows "runs (analog_long_term s) (\<lambda>s'. \<exists>lp. s' = s\<lparr>Rxx160_LPw32 := lp\<rparr> \<and> lp_floor (msTooLow s + 2) \<le> lp \<and> lp \<le> 1342177280)"
proof -
  define r lp lp' where "r = Rxx160w32 s" and "lp = Rxx160_LPw32 s" and "lp' = lp + (r - lp) div 1024"
  have t: "0 \<le> msTooLow s" using assms(2) by (simp add: timers_inv_def)
  have b: "-536870912 \<le> lp" "lp \<le> 1342177280" "-268435464 \<le> r" "r \<le> 1342177280"
    using assms lp_floor_bounds [OF t] by (simp_all add: lp_inv_def lp_def r_def)
  have low: "lp_floor (msTooLow s + 2) \<le> lp'"
    unfolding lp'_def using assms(1) t b(3) by (intro lp_floor_step) (simp_all add: lp_inv_def lp_def)
  have up: "-536870912 \<le> lp'" "lp' \<le> 1342177280"
    using smooth_between [of "-536870912" lp 1342177280 r 1024] b by (simp_all add: lp'_def)
  have "in_s32 (r - lp)" "in_s32 lp'" using b up by (auto simp: in_s32_def)
  then have "analog_long_term s = Some (s\<lparr>Rxx160_LPw32 := lp'\<rparr>)"
    by (simp add: analog_long_term_def chk32_def kAlphaLongTerm_def r_def [symmetric] lp_def [symmetric] lp'_def [symmetric])
  with low up show ?thesis by (simp only: runs_Some) blast
qed

definition block_inv :: "nat \<Rightarrow> LegacyAgc \<Rightarrow> LegacyAgc \<times> int \<Rightarrow> bool" where
  "block_inv k s0 r \<longleftrightarrow> (case r of (s, l) \<Rightarrow> untouched s0 s \<and> firstCall s = firstCall s0 \<and> vadThreshold s = vadThreshold s0 \<and> envSum s = envSum s0
    \<and> energy_inv s \<and> energy_deficit s0 \<le> energy_deficit s \<and> energy_deficit s \<le> energy_deficit s0 + 7 * int k
    \<and> lp_inv s \<and> timers_inv s \<and> limits_inv s \<and> levels_inv k s l)"

lemma levels_inv_mono: "levels_inv k s l \<Longrightarrow> levels_inv (Suc k) s l"
  by (auto simp: levels_inv_def settled_def)

lemma analog_block_runs:
  assumes inv: "block_inv k s0 r" and k: "k < 5" and d: "energy_deficit s0 \<le> deficit_limit"
    and row: "length (Rxx16w32_array s0) = 2" "length (Rxx16w32_array s0 ! 0) = 5" "\<forall>e \<in> set (Rxx16w32_array s0 ! 0). energy_ok e"
    and lst: "minLevel s0 \<le> lst" "lst \<le> maxInit s0"
  shows "runs (analog_block ratio lst k r) (block_inv (Suc k) s0)"
proof -
  obtain s l where r: "r = (s, l)" by (cases r)
  from inv have u: "untouched s0 s" "firstCall s = firstCall s0" "vadThreshold s = vadThreshold s0" "envSum s = envSum s0"
    and e: "energy_inv s" "energy_deficit s0 \<le> energy_deficit s" "energy_deficit s \<le> energy_deficit s0 + 7 * int k"
    and i: "lp_inv s" "timers_inv s" "limits_inv s" "levels_inv k s l"
    by (auto simp: block_inv_def r)
  have d': "energy_deficit s \<le> deficit_limit + 57" "energy_deficit s \<le> deficit_limit + 28" using e(3) d k by simp_all
  have rows: "length (Rxx16w32_array s) = 2" "length (Rxx16w32_array s ! 0) = 5" "\<forall>e \<in> set (Rxx16w32_array s ! 0). energy_ok e"
    using row u(1) by (simp_all add: untouched_def)
  show ?thesis
    unfolding analog_block_def r prod.case
  proof (rule runs_seq [OF analog_energy_runs [OF e(1) d'(1) rows k]], goal_cases)
    case (1 s1)
    then obtain e1 v1 p1 lp1 where s1: "s1 = s\<lparr>Rxx160w32 := e1, Rxx16_vectorw32 := v1, Rxx16pos := p1, Rxx16_LPw32 := lp1\<rparr>"
      and e1: "energy_inv s1" "energy_deficit s \<le> energy_deficit s1" "energy_deficit s1 \<le> energy_deficit s + 7" by auto
    have i1: "untouched s s1" "firstCall s1 = firstCall s" "vadThreshold s1 = vadThreshold s \<and> envSum s1 = envSum s" "lp_inv s1" "timers_inv s1" "limits_inv s1" "levels_inv k s1 l"
      using i by (simp_all add: s1 lp_inv_def timers_inv_def limits_inv_def levels_inv_def settled_def untouched_def)
    have R: "-268435464 \<le> Rxx160w32 s1" "Rxx160w32 s1 \<le> 1342177280"
      using energy_measure_bounds [OF e1(1)] e1(3) d'(2) by auto
    have speech: "runs (do { stt \<leftarrow> analog_active_speech s1; stt \<leftarrow> analog_long_term stt; analog_adapt stt lst l }) (block_inv (Suc k) s0)"
    proof (rule runs_seq [OF analog_active_speech_runs [OF e1(1) i1(4,5)]], goal_cases)
      case (1 s2)
      then obtain a2 m2 lp2 where s2: "s2 = s1\<lparr>activeSpeech := a2, Rxx16_LPw32Max := m2, Rxx160_LPw32 := lp2\<rparr>"
        and m2: "energy_ok m2" "lp_inv s2" by auto
      have i2: "timers_inv s2" "-268435464 \<le> Rxx160w32 s2" "Rxx160w32 s2 \<le> 1342177280"
        using i1 R by (simp_all add: s2 timers_inv_def)
      show ?case
      proof (rule runs_seq [OF analog_long_term_runs [OF m2(2) i2]], goal_cases)
        case (1 s3)
        then obtain lp3 where s3: "s3 = s2\<lparr>Rxx160_LPw32 := lp3\<rparr>" and lp3: "lp_floor (msTooLow s2 + 2) \<le> lp3" "lp3 \<le> 1342177280"
          by auto
        have lst3: "minLevel s3 \<le> lst" "lst \<le> maxInit s3" and u3: "untouched s0 s3"
          using lst u(1) by (simp_all add: s3 s2 s1 untouched_def)
        have "adapt_pre k lst s3 l"
          using i1 lp3 k lst3 by (simp add: adapt_pre_def s3 s2 timers_inv_def limits_inv_def levels_inv_def settled_def)
        then show ?case
        proof (rule runs_mono [OF analog_adapt_runs])
          fix p assume "adapt_post (Suc k) s3 p"
          then obtain s4 l4 where p: "p = (s4, l4)" and u4: "untouched s3 s4"
            and i4: "timers_inv s4" "limits_inv s4" "levels_inv (Suc k) s4 l4" "lp_inv s4"
            and f4: "Rxx160w32 s4 = Rxx160w32 s3" "Rxx16_vectorw32 s4 = Rxx16_vectorw32 s3" "Rxx16pos s4 = Rxx16pos s3"
              "Rxx16_LPw32 s4 = Rxx16_LPw32 s3" "Rxx16_LPw32Max s4 = Rxx16_LPw32Max s3 \<or> Rxx16_LPw32Max s4 = 0"
              "vadThreshold s4 = vadThreshold s3" "firstCall s4 = firstCall s3" "envSum s4 = envSum s3"
            by (auto simp: adapt_post_def)
          have "energy_inv s4 \<and> energy_deficit s4 = energy_deficit s1"
            using e1(1) m2(1) f4 by (auto simp: energy_inv_def energy_deficit_def s3 s2 energy_ok_def)
          with i4 untouched_trans [OF u3 u4] e e1 f4 u i1 show "block_inv (Suc k) s0 p"
            by (simp add: block_inv_def p s3 s2)
        qed
      qed
    qed
    have "block_inv (Suc k) s0 (s1, l)"
      using i1 levels_inv_mono untouched_trans [OF u(1) i1(1)] e e1 u by (simp add: block_inv_def)
    with speech show ?case by (simp add: runs_Some)
  qed
qed

lemma analog_blocks_runs:
  assumes inv: "block_inv 0 s0 r" and d: "energy_deficit s0 \<le> deficit_limit"
    and row: "length (Rxx16w32_array s0) = 2" "length (Rxx16w32_array s0 ! 0) = 5" "\<forall>e \<in> set (Rxx16w32_array s0 ! 0). energy_ok e"
    and lst: "minLevel s0 \<le> lst" "lst \<le> maxInit s0"
  shows "runs (foldM (analog_block ratio lst) [0..<5] r) (block_inv 5 s0)"
proof -
  have "runs (foldM (analog_block ratio lst) [0..<5] r) (block_inv (length [0..<5]) s0)"
    by (rule runs_foldM_index [where I = "\<lambda>k. block_inv k s0"])
      (use inv analog_block_runs [OF _ _ d row lst] in auto)
  then show ?thesis by simp
qed

section \<open>One frame\<close>

text \<open>The weight that a subframe adds to \<open>envSum\<close> in the saturation check.\<close>

definition overload_weight :: "int \<Rightarrow> int" where
  "overload_weight e = (if e div 2 ^ 20 > 875 then e div 2 ^ 20 else 0)"

lemma overload_weight_bounds: "env_ok e \<Longrightarrow> 0 \<le> overload_weight e \<and> overload_weight e \<le> 1024 \<and> s16 (e div 1048576) = e div 1048576"
proof -
  assume "env_ok e"
  then have "0 \<le> e div 1048576" "e div 1048576 \<le> 1024"
    using zdiv_mono1 [of e 1073741824 1048576] by (simp_all add: env_ok_def pos_imp_zdiv_nonneg_iff)
  then show ?thesis by (simp add: overload_weight_def s16_small)
qed

text \<open>The sum is kept in 16 bits and wraps.\<close>

lemma saturation_sum_eq:
  assumes "length e = 10" "\<forall>x \<in> set e. env_ok x" "in_s16 s"
  shows "saturation_sum e s = Some (s16 (s + (\<Sum>x\<leftarrow>e. overload_weight x)))"
proof -
  let ?S = "\<lambda>k. s + (\<Sum>x\<leftarrow>take k e. overload_weight x)"
  have "runs (saturation_sum e s) (\<lambda>r. r = s16 (?S (length [0..<10])))"
    unfolding saturation_sum_def
  proof (rule runs_foldM_index [where I = "\<lambda>k r. r = s16 (?S k)"], goal_cases)
    case 1
    with assms(3) show ?case by (simp add: s16_id)
  next
    case (2 k r)
    then have k: "k < 10" and r: "r = s16 (?S k)" by auto
    have x: "env_ok (e ! k)" using assms k by simp
    have "s16 (s16 (?S k) + d) = s16 (?S k + d)" for d
      by (simp add: s16_def mod_simps algebra_simps)
    moreover have "?S (Suc k) = ?S k + overload_weight (e ! k)" using k assms(1) by (simp add: take_Suc_conv_app_nth)
    ultimately have "s16 (?S (Suc k)) = s16 (r + overload_weight (e ! k))" using r by (simp add: add.assoc)
    moreover have "s16 r = r" by (simp add: r s16_id)
    ultimately show ?case
      using k assms(1) overload_weight_bounds [OF x] by (auto simp: runs_simps overload_weight_def)
  qed
  with assms(1) show ?thesis by (auto simp: runs_def)
qed

lemma SaturationCtrl_runs:
  assumes "length e = 10" "\<forall>x \<in> set e. env_ok x" "in_s16 (envSum s)"
  shows "runs (WebRtcAgc_SaturationCtrl s 0 e) (\<lambda>r. \<exists>n. r = (s\<lparr>envSum := n\<rparr>, if s16 (envSum s + (\<Sum>x\<leftarrow>e. overload_weight x)) > 25000 then 1 else 0)
    \<and> in_s16 n)"
proof -
  define t where "t = s16 (envSum s + (\<Sum>x\<leftarrow>e. overload_weight x))"
  have "-32768 \<le> t" "t \<le> 32767" by (simp_all add: t_def)
  then have "in_s32 (t * 32440)" by (simp add: in_s32_def)
  with saturation_sum_eq [OF assms] show ?thesis
    by (auto simp: WebRtcAgc_SaturationCtrl_def t_def [symmetric] chk32_def runs_Some in_s32_def intro!: exI)
qed

lemma zero_sum_runs:
  assumes "length e = 10" "\<forall>x \<in> set e. env_ok x"
  shows "runs (zero_sum e) (\<lambda>t. t = sum_list e)"
proof -
  have "runs (zero_sum e) (\<lambda>t. t = sum_list (take (length [0..<10]) e) \<and> 0 \<le> t \<and> t \<le> 1073741824 * int (length [0..<10]))"
    unfolding zero_sum_def
  proof (rule runs_foldM_index [where I = "\<lambda>k t. t = sum_list (take k e) \<and> 0 \<le> t \<and> t \<le> 1073741824 * int k"], goal_cases)
    case (2 k t)
    then have "env_ok (e ! k)" using assms by simp
    with 2 assms(1) show ?case
      by (auto simp: runs_simps take_Suc_conv_app_nth env_ok_def in_s64_def)
  qed simp
  with assms(1) show ?thesis by (auto elim!: runs_mono)
qed

text \<open>The state between the level updates and the blocks.\<close>

definition ready :: "LegacyAgc \<Rightarrow> int \<Rightarrow> bool" where
  "ready s l \<longleftrightarrow> energy_inv s \<and> lp_inv s \<and> timers_inv s \<and> limits_inv s \<and> levels_inv 0 s l"

lemmas ready_simps = ready_def energy_inv_def energy_deficit_def lp_inv_def timers_inv_def limits_inv_def levels_inv_def settled_def

lemma zero_level_runs:
  assumes "levels_inv 0 s l" "-2 \<le> l"
  shows "runs (zero_level s l) (\<lambda>r. levels_inv 0 (fst r) (snd r) \<and> (\<exists>v. fst r = s\<lparr>micVol := v\<rparr>))"
proof -
  note lv = assms(1) [unfolded levels_inv_def]
  have l: "l \<le> 210000" "-10 \<le> l" using lv assms(2) by auto
  define m where "m = (maxAnalog s + minLevel s + 1) sdiv 2"
  have "0 \<le> minLevel s" "minLevel s \<le> 65535" "0 \<le> maxAnalog s" "maxAnalog s \<le> 65535" using lv by auto
  moreover from this have "- 65536 \<le> m" "m \<le> 65536" unfolding m_def by (intro sdiv_le sdiv_ge; linarith)+
  ultimately have chk: "in_s32 (maxAnalog s + minLevel s)" "in_s32 (maxAnalog s + minLevel s + 1)" "in_s32 m" "in_s32 (1126 * l)"
    using l by (auto simp: in_s32_def)
  define q where "q = 1126 * l div 1024"
  define l' where "l' = (if q < zeroCtrlMax s then q else zeroCtrlMax s)"
  have w: "1024 * q \<le> 1126 * l" "1126 * l < 1024 * q + 1024" using div_window [of 1024 "1126 * l"] by (simp_all add: q_def)
  have q: "-10 \<le> q" "0 \<le> l \<longrightarrow> l \<le> q" using w assms(2) by linarith+
  have l': "levels_inv 0 (s\<lparr>micVol := l'\<rparr>) l'"
    using lv q l by (auto simp: levels_inv_def settled_def l'_def)
  have z: "zero_level s l = Some (if l < m then (s\<lparr>micVol := l'\<rparr>, l') else (s\<lparr>micVol := micVol s\<rparr>, l))"
    using chk by (simp add: zero_level_def chk32_def div32_def m_def [symmetric] Let_def q_def [symmetric] l'_def)
  have "levels_inv 0 (s\<lparr>micVol := micVol s\<rparr>) l" using assms(1) by simp
  with l' show ?thesis unfolding z runs_Some by (simp only: split: if_split) (simp only: fst_conv snd_conv, blast)
qed

lemma zero_timers_eq: "\<exists>z g. zero_timers s t = s\<lparr>msZero := z, muteGuardMs := g\<rparr>"
proof -
  have "zero_timers s t = s\<lparr>msZero := (if t < 500 then s16 (msZero s + 10) else 0),
      muteGuardMs := (if muteGuardMs s > 0 then s16 (muteGuardMs s - 10) else muteGuardMs s)\<rparr>"
    by (simp add: zero_timers_def Let_def)
  then show ?thesis by blast
qed

lemma ZeroCtrl_runs:
  assumes r: "ready s l" "-2 \<le> l" and e: "length e = 10" "\<forall>x \<in> set e. env_ok x"
  shows "runs (WebRtcAgc_ZeroCtrl s l e) (\<lambda>(s', l'). ready s' l' \<and> untouched s s' \<and> energy_deficit s' = energy_deficit s
    \<and> firstCall s' = firstCall s \<and> envSum s' = envSum s \<and> vadThreshold s' = vadThreshold s)"
  unfolding WebRtcAgc_ZeroCtrl_def
proof (rule runs_seq [OF zero_sum_runs [OF e]], goal_cases)
  case (1 t)
  let ?P = "\<lambda>(s', l'). ready s' l' \<and> untouched s s' \<and> energy_deficit s' = energy_deficit s
    \<and> firstCall s' = firstCall s \<and> envSum s' = envSum s \<and> vadThreshold s' = vadThreshold s"
  obtain z g where zg: "zero_timers s t = s\<lparr>msZero := z, muteGuardMs := g\<rparr>" using zero_timers_eq by blast
  let ?s = "s\<lparr>muteGuardMs := g, msZero := 0\<rparr>"
  have P: "?P (s\<lparr>msZero := z, muteGuardMs := g\<rparr>, l)" using r by (simp add: ready_simps untouched_def)
  have lv: "levels_inv 0 ?s l" using r by (simp add: ready_simps)
  have "runs (do { (stt, l') \<leftarrow> zero_level ?s l;
      Some (stt\<lparr>activeSpeech := 0, Rxx16_LPw32Max := 0, muteGuardMs := kMuteGuardTimeMs\<rparr>, l') }) ?P"
  proof (rule runs_seq [OF zero_level_runs [OF lv r(2)]], goal_cases)
    case (1 q)
    then obtain v where q: "q = (?s\<lparr>micVol := v\<rparr>, snd q)" "levels_inv 0 (?s\<lparr>micVol := v\<rparr>) (snd q)" by (metis prod.collapse)
    show ?case
      by (subst q(1)) (use r(1) q(2) in \<open>simp add: runs_Some ready_simps untouched_def energy_ok_def\<close>)
  qed
  with P show ?case by (simp add: zg Let_def runs_Some)
qed

lemma SpeakerInactiveCtrl_runs:
  assumes "in_s16 (stdLongTerm (vadMic s))" "in_s16 (vadThreshold s)"
  shows "runs (WebRtcAgc_SpeakerInactiveCtrl s) (\<lambda>s'. \<exists>v. s' = s\<lparr>vadThreshold := v\<rparr> \<and> in_s16 v)"
proof (cases "stdLongTerm (vadMic s) < 2500")
  case True
  then show ?thesis by (auto simp: WebRtcAgc_SpeakerInactiveCtrl_def runs_Some in_s16_def)
next
  case False
  have v: "-32768 \<le> vadThreshold s" "vadThreshold s \<le> 32767" using assms(2) by (simp_all add: in_s16_def)
  have d: "- 1000 \<le> (4500 - stdLongTerm (vadMic s)) sdiv 2" "(4500 - stdLongTerm (vadMic s)) sdiv 2 \<le> 1000"
    if "stdLongTerm (vadMic s) < 4500"
    using that False by (auto intro!: sdiv_le sdiv_ge)
  have fin: "runs (do { p \<leftarrow> chk32 (31 * vadThreshold s); tmp32 \<leftarrow> chk32 (t + p); Some (s\<lparr>vadThreshold := s16 (tmp32 div 2 ^ 5)\<rparr>) })
      (\<lambda>s'. \<exists>v. s' = s\<lparr>vadThreshold := v\<rparr> \<and> in_s16 v)" if "in_s16 t" for t
  proof -
    have "in_s32 (31 * vadThreshold s)" "in_s32 (t + 31 * vadThreshold s)" using v that by (auto simp: in_s32_def in_s16_def)
    then have "do { p \<leftarrow> chk32 (31 * vadThreshold s); tmp32 \<leftarrow> chk32 (t + p); Some (s\<lparr>vadThreshold := s16 (tmp32 div 2 ^ 5)\<rparr>) }
        = Some (s\<lparr>vadThreshold := s16 ((t + 31 * vadThreshold s) div 2 ^ 5)\<rparr>)"
      by (simp add: chk32_def)
    moreover have "in_s16 (s16 ((t + 31 * vadThreshold s) div 2 ^ 5))" by simp
    ultimately show ?thesis by (simp only: runs_Some) blast
  qed
  have "runs (if stdLongTerm (vadMic s) < 4500 then do {
            d \<leftarrow> div32 (4500 - stdLongTerm (vadMic s)) 2;
            Some (s16 (kNormalVadThreshold + d))
          } else Some kNormalVadThreshold) in_s16"
    using d by (auto simp: runs_simps in_s32_def kNormalVadThreshold_def in_s16_def)
  with False fin show ?thesis
    by (simp add: WebRtcAgc_SpeakerInactiveCtrl_def runs_seq)
qed

lemma analog_low_level_eq:
  assumes "level_ok s"
  shows "\<exists>v. analog_low_level s = Some v \<and> minLevel s + 2 \<le> v \<and> v \<le> maxLevel s"
proof -
  define d where "d = maxLevel s - minLevel s"
  have d: "42 \<le> d" "d \<le> 81918" "0 \<le> minLevel s" "minLevel s \<le> 65535" using assms by (auto simp: level_ok_def d_def)
  define q where "q = d * 51 div 512"
  have q: "2 \<le> q" "q \<le> d" using d div_window [of 512 "d * 51"] by (simp_all add: q_def)
  have "in_s32 d" "in_s32 (d * 51)" "in_s32 (minLevel s + q)" using d q by (auto simp: in_s32_def)
  then have "analog_low_level s = Some (minLevel s + q)"
    by (simp add: analog_low_level_def chk32_def d_def [symmetric] q_def [symmetric])
  with q show ?thesis by (simp add: d_def)
qed

text \<open>After the level updates the stored level and the working level agree.\<close>

lemma analog_start_runs:
  assumes s: "level_ok s" and l: "minLevel s \<le> l" "l \<le> maxAnalog s" and c: "firstCall s \<noteq> 0 \<longrightarrow> minOutput s \<le> micVol s"
  shows "runs (do { (s1, l1) \<leftarrow> analog_first_call s l; analog_manual_level s1 l l1 })
    (\<lambda>r. \<exists>f l'. r = (s\<lparr>firstCall := f, micVol := l', lastInMicLevel := l\<rparr>, l') \<and> f \<noteq> 0 \<and> minLevel s \<le> l' \<and> l' \<le> maxLevel s
      \<and> (firstCall s \<noteq> 0 \<longrightarrow> minLevel s + 2 \<le> l')
      \<and> (firstCall s \<noteq> 0 \<and> l = min (micVol s) (maxAnalog s) \<longrightarrow> l' = micVol s))"
    (is "runs _ ?P")
proof -
  note lv = s [unfolded level_ok_def]
  obtain v where v: "analog_low_level s = Some v" "minLevel s + 2 \<le> v" "v \<le> maxLevel s" using analog_low_level_eq [OF s] by blast
  show ?thesis
  proof (cases "firstCall s = 0")
    case True
    let ?s = "s\<lparr>firstCall := 1\<rparr>"
    have v': "analog_low_level ?s = Some v" using v(1) by (simp add: analog_low_level_def)
    define l1 where "l1 = (if l < v \<and> stt_agcMode s = kAgcModeAdaptiveAnalog then v else l)"
    have "analog_first_call s l = Some (?s\<lparr>micVol := l1\<rparr>, l1)"
      using True v' by (simp add: analog_first_call_def Let_def l1_def)
    moreover have "minLevel s \<le> l1" "l1 \<le> maxLevel s" using l v lv by (auto simp: l1_def)
    moreover from this have "analog_manual_level (?s\<lparr>micVol := l1\<rparr>) l l1 = Some (s\<lparr>firstCall := 1, micVol := l1, lastInMicLevel := l\<rparr>, l1)"
      by (simp add: analog_manual_level_def Let_def)
    ultimately show ?thesis
      using True by (simp only: bind.bind_lunit prod.case runs_Some)
        (rule exI [of _ 1], rule exI [of _ l1], simp)
  next
    case False
    define l1 where "l1 = (if l = maxAnalog s \<and> micVol s > maxAnalog s then micVol s else l)"
    have l1: "minLevel s \<le> l1" "l1 \<le> maxLevel s" "l = min (micVol s) (maxAnalog s) \<longrightarrow> l1 = micVol s"
      using l lv by (auto simp: l1_def)
    define l2 where "l2 = (if l1 \<noteq> micVol s \<and> l1 < minOutput s then v
        else if l1 \<noteq> micVol s \<and> l = lastInMicLevel s then micVol s else l1)"
    have idem: "(if l = maxAnalog s \<and> micVol s > maxAnalog s then micVol s else l) = l1" by (simp add: l1_def)
    have top: "\<not> l1 > maxLevel s" "\<not> v > maxLevel s" "\<not> micVol s > maxLevel s" using v l1 lv by simp_all
    have "analog_manual_level s l l = Some (s\<lparr>firstCall := firstCall s, micVol := l2, lastInMicLevel := l\<rparr>, l2)"
      unfolding analog_manual_level_def Let_def idem l2_def
      by (cases "l1 = micVol s"; cases "l1 < minOutput s"; cases "l = lastInMicLevel s") (simp_all add: v(1) top)
    moreover have "minLevel s + 2 \<le> l2" "l2 \<le> maxLevel s" using v l1 lv c False by (auto simp: l2_def)
    moreover have "l = min (micVol s) (maxAnalog s) \<longrightarrow> l2 = micVol s" using l1 by (simp add: l2_def)
    ultimately show ?thesis
      using False by (simp only: analog_first_call_def if_False bind.bind_lunit prod.case runs_Some)
        (rule exI [of _ "firstCall s"], rule exI [of _ l2], simp)
  qed
qed

lemma analog_saturated_runs:
  assumes r: "ready s l" and l: "micVol s = l" "minLevel s \<le> l" "minLevel s + 2 \<le> l \<or> settled 0 s" "l \<le> maxInit s"
  shows "runs (analog_saturated s l l w) (\<lambda>(s', l', w'). ready s' l' \<and> -2 \<le> l' \<and> untouched s s' \<and> energy_deficit s' = energy_deficit s
    \<and> firstCall s' = firstCall s \<and> envSum s' = envSum s \<and> vadThreshold s' = vadThreshold s)"
proof -
  note lv = r [unfolded ready_def levels_inv_def]
  define q where "q = Rxx160_LPw32 s sdiv 8"
  have lp: "-536870912 \<le> Rxx160_LPw32 s" "Rxx160_LPw32 s \<le> 1342177280" "lp_floor (msTooLow s) \<le> Rxx160_LPw32 s"
    using lv lp_floor_bounds [of "msTooLow s"] by (auto simp: lp_inv_def timers_inv_def)
  have q: "-67108864 \<le> q" "q \<le> 167772160" unfolding q_def using lp by (intro sdiv_le sdiv_ge; linarith)+
  have fl: "lp_floor (msTooLow s) \<le> q * 7"
  proof (cases "0 \<le> Rxx160_LPw32 s")
    case True
    then have "0 \<le> q" by (simp add: q_def sdiv_nonneg pos_imp_zdiv_nonneg_iff)
    with lp_floor_bounds [of "msTooLow s"] lv show ?thesis by (auto simp: timers_inv_def)
  next
    case False
    define a where "a = - Rxx160_LPw32 s div 8"
    have "8 * a \<le> - Rxx160_LPw32 s" "0 \<le> a" using False div_window [of 8 "- Rxx160_LPw32 s"] by (simp_all add: a_def pos_imp_zdiv_nonneg_iff)
    moreover have "q = - a" using False by (simp add: q_def a_def sdiv_neg)
    ultimately show ?thesis using lp(3) by linarith
  qed
  let ?s = "s\<lparr>Rxx160_LPw32 := q * 7, zeroCtrlMax := micVol s\<rparr>"
  have "runs (analog_scale_level ?s 29591 l (l - 2)) (\<lambda>l'. min (l - 2) (minLevel ?s) \<le> l' \<and> l' \<le> l - 2 \<and> l' \<le> l)"
    using lv l by (intro scaled_level_runs) auto
  then obtain l' where l': "analog_scale_level ?s 29591 l (l - 2) = Some l'" "min (l - 2) (minLevel s) \<le> l'" "l' \<le> l - 2"
    by (auto simp: runs_def)
  have chk: "in_s32 q" "in_s32 (q * 7)" "in_s32 (l - 2)" using q lv l by (auto simp: in_s32_def)
  let ?t = "s\<lparr>Rxx160_LPw32 := q * 7, zeroCtrlMax := micVol s, micVol := l', msTooHigh := -100, activeSpeech := 0, Rxx16_LPw32Max := 0,
       msecSpeechInnerChange := kMsecSpeechInner, msecSpeechOuterChange := kMsecSpeechOuter, changeToSlowMode := 0, muteGuardMs := 0,
       upperLimit := startUpperLimit s, lowerLimit := startLowerLimit s\<rparr>"
  have run: "analog_saturated s l l w = Some (?t, l', if l' < minOutput s then 1 else w)"
    using chk l'(1) by (simp add: analog_saturated_def div32_def chk32_def Let_def q_def [symmetric])
  have lower: "-2 \<le> l'" using l' l(2) lv by linarith
  have levels: "minLevel s \<le> l' \<or> msTooLow s \<le> 0" using l' l(3) by (auto simp: settled_def)
  have "energy_inv ?t" "lp_inv ?t" "timers_inv ?t" "limits_inv ?t"
    using lv fl q by (simp_all add: ready_simps energy_ok_def kMsecSpeechInner_def kMsecSpeechOuter_def)
  moreover have "levels_inv 0 ?t l'" using lv l l' lower levels by (auto simp: levels_inv_def settled_def)
  ultimately have "ready ?t l'" by (simp only: ready_def)
  with lower show ?thesis
    unfolding run by (simp add: runs_Some untouched_def energy_deficit_def)
qed

text \<open>The invariant of the analog control, beside the invariant of the input side.\<close>

definition control_inv :: "LegacyAgc \<Rightarrow> bool" where
  "control_inv s \<longleftrightarrow> energy_inv s \<and> lp_inv s \<and> timers_inv s \<and> limits_inv s
    \<and> minLevel s \<le> zeroCtrlMax s \<and> zeroCtrlMax s \<le> maxInit s \<and> in_s16 (vadThreshold s) \<and> in_s16 (envSum s)
    \<and> (firstCall s = 0 \<longrightarrow> settled 0 s) \<and> (firstCall s \<noteq> 0 \<longrightarrow> minOutput s \<le> micVol s)"

lemma analog_limit_post:
  assumes "block_inv 5 s0 (s, l)" "minOutput s \<le> maxAnalog s"
  shows "\<exists>v. analog_limit s echo lst = s\<lparr>micVol := v\<rparr> \<and> minOutput s \<le> v \<and> v \<le> maxLevel s
    \<and> (echo = 1 \<and> minOutput s \<le> lst \<longrightarrow> v \<le> lst)"
proof -
  have top: "minOutput s \<le> maxLevel s" using assms by (auto simp: block_inv_def levels_inv_def)
  define v1 where "v1 = (if (echo = 1 \<or> muteGuardMs s > 0 \<and> muteGuardMs s < kMuteGuardTimeMs) \<and> micVol s > lst then lst else micVol s)"
  define v where "v = (if v1 > maxLevel s then maxLevel s else if v1 < minOutput s then minOutput s else v1)"
  have "(if echo = 1 \<or> muteGuardMs s > 0 \<and> muteGuardMs s < kMuteGuardTimeMs
      then if micVol s > lst then s\<lparr>micVol := lst\<rparr> else s else s) = s\<lparr>micVol := v1\<rparr>" by (simp add: v1_def)
  then have "analog_limit s echo lst = s\<lparr>micVol := v\<rparr>" by (simp add: analog_limit_def Let_def v_def)
  moreover have "minOutput s \<le> v" "v \<le> maxLevel s" using top by (simp_all add: v_def)
  moreover have "echo = 1 \<and> minOutput s \<le> lst \<longrightarrow> v \<le> lst" by (simp add: v_def v1_def)
  ultimately show ?thesis by blast
qed

lemma analog_finish:
  assumes inv: "block_inv 5 s0 (s, l)" and b: "level_ok b" "untouched b s"
    and s0: "in_s16 (vadThreshold s0)" "in_s16 (envSum s0)" "firstCall s0 \<noteq> 0"
    and v: "minOutput s \<le> v" "v \<le> maxLevel s"
  shows "control_inv (s\<lparr>micVol := v\<rparr>) \<and> level_ok (s\<lparr>micVol := v\<rparr>) \<and> untouched b (s\<lparr>micVol := v\<rparr>)
    \<and> energy_deficit (s\<lparr>micVol := v\<rparr>) \<le> energy_deficit s0 + 35"
proof -
  from inv have u: "firstCall s = firstCall s0" "vadThreshold s = vadThreshold s0" "envSum s = envSum s0" "energy_deficit s \<le> energy_deficit s0 + 35"
    and i: "energy_inv s" "lp_inv s" "timers_inv s" "limits_inv s" "levels_inv 5 s l" by (auto simp: block_inv_def)
  have "untouched b (s\<lparr>micVol := v\<rparr>)" using b by (simp add: untouched_def)
  moreover have "level_ok (s\<lparr>micVol := v\<rparr>)"
    using b v i(5) by (auto simp: level_ok_def untouched_def levels_inv_def)
  moreover have "energy_inv (s\<lparr>micVol := v\<rparr>)" "lp_inv (s\<lparr>micVol := v\<rparr>)" "timers_inv (s\<lparr>micVol := v\<rparr>)" "limits_inv (s\<lparr>micVol := v\<rparr>)"
    using i by (simp_all add: ready_simps)
  moreover have "minLevel s \<le> zeroCtrlMax s" "zeroCtrlMax s \<le> maxInit s" using i(5) by (auto simp: levels_inv_def)
  ultimately show ?thesis
    using s0 u v by (simp add: control_inv_def energy_deficit_def)
qed

text \<open>The steps before the blocks, as one function of the code's variables.\<close>

lemma analog_prepare:
  assumes s: "input_inv s" "control_inv s" and l: "minLevel s \<le> l" "l \<le> maxAnalog s"
  obtains s1 l1 s2 l2 s3 sat s4 l4 w4 s5 l5 s6 e where
    "analog_first_call s l = Some (s1, l1)" "analog_manual_level s1 l l1 = Some (s2, l2)" "rd (env s2) 0 = Some e"
    "WebRtcAgc_SaturationCtrl s2 0 e = Some (s3, sat)"
    "(if sat = 1 then analog_saturated s3 l2 l2 w else Some (s3, l2, w)) = Some (s4, l4, w4)"
    "WebRtcAgc_ZeroCtrl s4 l4 e = Some (s5, l5)" "WebRtcAgc_SpeakerInactiveCtrl s5 = Some s6"
    "micVol s2 = l2" "minLevel s \<le> l2" "l2 \<le> maxLevel s"
    "firstCall s \<noteq> 0 \<and> l = min (micVol s) (maxAnalog s) \<longrightarrow> l2 = micVol s"
    "ready s6 l5" "untouched s s6" "energy_deficit s6 = energy_deficit s" "firstCall s6 \<noteq> 0"
    "in_s16 (envSum s6)" "in_s16 (vadThreshold s6)"
proof -
  note iv = s(1) [unfolded input_inv_def buffers_ok_def frame_row_ok_def] and cv = s(2) [unfolded control_inv_def]
  have lv: "level_ok s" using iv by simp
  obtain s1 l1 f l2 where st: "analog_first_call s l = Some (s1, l1)"
      "analog_manual_level s1 l l1 = Some (s\<lparr>firstCall := f, micVol := l2, lastInMicLevel := l\<rparr>, l2)" "f \<noteq> 0"
      "minLevel s \<le> l2" "l2 \<le> maxLevel s" "firstCall s \<noteq> 0 \<longrightarrow> minLevel s + 2 \<le> l2"
      "firstCall s \<noteq> 0 \<and> l = min (micVol s) (maxAnalog s) \<longrightarrow> l2 = micVol s"
    using analog_start_runs [OF lv l] cv by (auto simp: runs_def split: bind_splits prod.splits)
  define s2 where "s2 = s\<lparr>firstCall := f, micVol := l2, lastInMicLevel := l\<rparr>"
  have r2: "ready s2 l2" using cv lv st(4,5) by (auto simp: s2_def ready_simps level_ok_def)
  have set2: "minLevel s2 + 2 \<le> l2 \<or> settled 0 s2" using cv st(6) by (auto simp: s2_def settled_def)
  define e where "e = env s ! 0"
  have e: "length e = 10" "\<forall>x \<in> set e. env_ok x" "rd (env s2) 0 = Some e" using iv by (simp_all add: e_def s2_def rd_def)
  have es: "in_s16 (envSum s2)" using cv by (simp add: s2_def)
  from SaturationCtrl_runs [OF e(1,2) es] obtain n sat where sat: "WebRtcAgc_SaturationCtrl s2 0 e = Some (s2\<lparr>envSum := n\<rparr>, sat)" "in_s16 n"
    by (auto simp: runs_def)
  define s3 where "s3 = s2\<lparr>envSum := n\<rparr>"
  have r3: "ready s3 l2" "micVol s3 = l2" "minLevel s3 \<le> l2" "minLevel s3 + 2 \<le> l2 \<or> settled 0 s3" "l2 \<le> maxInit s3"
    using r2 set2 st lv by (auto simp: s3_def s2_def ready_simps level_ok_def)
  let ?Q = "\<lambda>(s', l', w'). ready s' l' \<and> -2 \<le> l' \<and> untouched s3 s' \<and> energy_deficit s' = energy_deficit s3
    \<and> firstCall s' = firstCall s3 \<and> envSum s' = envSum s3 \<and> vadThreshold s' = vadThreshold s3"
  have "?Q (s3, l2, w)" using r3 lv st(4) by (auto simp: level_ok_def)
  with analog_saturated_runs [OF r3, of w] have "runs (if sat = 1 then analog_saturated s3 l2 l2 w else Some (s3, l2, w)) ?Q"
    by (cases "sat = 1") (simp_all only: if_True if_False runs_Some simp_thms)
  then obtain s4 l4 w4 where s4: "(if sat = 1 then analog_saturated s3 l2 l2 w else Some (s3, l2, w)) = Some (s4, l4, w4)" "?Q (s4, l4, w4)"
    by (cases "if sat = 1 then analog_saturated s3 l2 l2 w else Some (s3, l2, w)") (auto simp: runs_def)
  have r4: "ready s4 l4" "-2 \<le> l4" using s4(2) by simp_all
  from ZeroCtrl_runs [OF r4 e(1,2)] obtain s5 l5 where s5: "WebRtcAgc_ZeroCtrl s4 l4 e = Some (s5, l5)" "ready s5 l5" "untouched s4 s5"
      "energy_deficit s5 = energy_deficit s4" "firstCall s5 = firstCall s4" "envSum s5 = envSum s4" "vadThreshold s5 = vadThreshold s4"
    by (auto simp: runs_def)
  have u5: "untouched s3 s5" using s4(2) s5(3) untouched_trans by simp blast
  have "in_s16 (stdLongTerm (vadMic s5))" "in_s16 (vadThreshold s5)"
    using u5 iv cv s4(2) s5 by (simp_all add: untouched_def s3_def s2_def vad_inv_def)
  from SpeakerInactiveCtrl_runs [OF this] obtain v where s6: "WebRtcAgc_SpeakerInactiveCtrl s5 = Some (s5\<lparr>vadThreshold := v\<rparr>)" "in_s16 v"
    by (auto simp: runs_def)
  have fin: "ready (s5\<lparr>vadThreshold := v\<rparr>) l5" "untouched s (s5\<lparr>vadThreshold := v\<rparr>)" "energy_deficit (s5\<lparr>vadThreshold := v\<rparr>) = energy_deficit s"
    using s5 s4(2) u5 by (simp_all add: ready_simps untouched_def s3_def s2_def energy_deficit_def)
  show thesis
    by (rule that [OF st(1) st(2) [folded s2_def] e(3) sat(1) [folded s3_def] s4(1) s5(1) s6(1) _ st(4,5,7) fin])
      (use s5 s4(2) st(3) sat(2) s6(2) in \<open>simp_all add: s2_def s3_def\<close>)
qed

lemma ProcessAnalog_runs:
  assumes s: "input_inv s" "control_inv s" and d: "energy_deficit s \<le> deficit_limit" and l: "minLevel s \<le> l" "l \<le> maxAnalog s"
  shows "runs (WebRtcAgc_ProcessAnalog s l out ratio echo w) (\<lambda>(s', out', w', r). r = 0 \<and> control_inv s' \<and> level_ok s' \<and> untouched s s'
    \<and> energy_deficit s' \<le> energy_deficit s + 35 \<and> out' = min (micVol s') (maxAnalog s') \<and> minOutput s \<le> micVol s'
    \<and> (echo = 1 \<and> firstCall s \<noteq> 0 \<and> l = min (micVol s) (maxAnalog s) \<longrightarrow> micVol s' \<le> micVol s))"
proof -
  note iv = s(1) [unfolded input_inv_def buffers_ok_def frame_row_ok_def] and cv = s(2) [unfolded control_inv_def]
  obtain s1 l1 s2 l2 s3 sat s4 l4 w4 s5 l5 s6 e where run:
      "analog_first_call s l = Some (s1, l1)" "analog_manual_level s1 l l1 = Some (s2, l2)" "rd (env s2) 0 = Some e"
      "WebRtcAgc_SaturationCtrl s2 0 e = Some (s3, sat)"
      "(if sat = 1 then analog_saturated s3 l2 l2 w else Some (s3, l2, w)) = Some (s4, l4, w4)"
      "WebRtcAgc_ZeroCtrl s4 l4 e = Some (s5, l5)" "WebRtcAgc_SpeakerInactiveCtrl s5 = Some s6" "micVol s2 = l2"
    and l2: "minLevel s \<le> l2" "l2 \<le> maxLevel s" "firstCall s \<noteq> 0 \<and> l = min (micVol s) (maxAnalog s) \<longrightarrow> l2 = micVol s"
    and s6: "ready s6 l5" "untouched s s6" "energy_deficit s6 = energy_deficit s" "firstCall s6 \<noteq> 0" "in_s16 (envSum s6)" "in_s16 (vadThreshold s6)"
    by (rule analog_prepare [OF s l, of w]) blast
  have "block_inv 0 s6 (s6, l5)" using s6(1) by (simp add: block_inv_def ready_def)
  moreover have "length (Rxx16w32_array s6) = 2" "length (Rxx16w32_array s6 ! 0) = 5" "\<forall>e \<in> set (Rxx16w32_array s6 ! 0). energy_ok e"
      "minLevel s6 \<le> l2" "l2 \<le> maxInit s6" "energy_deficit s6 \<le> deficit_limit"
    using iv s6(2,3) l2 d by (auto simp: untouched_def level_ok_def)
  ultimately obtain s7 l7 where s7: "foldM (analog_block ratio l2) [0..<5] (s6, l5) = Some (s7, l7)" "block_inv 5 s6 (s7, l7)"
    using analog_blocks_runs [of s6 "(s6, l5)" l2 ratio] by (auto simp: runs_def)
  have u7: "untouched s s7" using s7(2) s6(2) untouched_trans by (auto simp: block_inv_def)
  have "minOutput s7 \<le> maxAnalog s7" using u7 iv by (simp add: untouched_def level_ok_def)
  then obtain v where v: "analog_limit s7 echo l2 = s7\<lparr>micVol := v\<rparr>" "minOutput s7 \<le> v" "v \<le> maxLevel s7"
      "echo = 1 \<and> minOutput s7 \<le> l2 \<longrightarrow> v \<le> l2" using analog_limit_post [OF s7(2)] by blast
  have "control_inv (s7\<lparr>micVol := v\<rparr>) \<and> level_ok (s7\<lparr>micVol := v\<rparr>) \<and> untouched s (s7\<lparr>micVol := v\<rparr>)
      \<and> energy_deficit (s7\<lparr>micVol := v\<rparr>) \<le> energy_deficit s6 + 35"
    using iv by (intro analog_finish [OF s7(2) _ u7 s6(6,5,4) v(2,3)]) simp
  moreover have "minOutput s \<le> v" "echo = 1 \<and> firstCall s \<noteq> 0 \<and> l = min (micVol s) (maxAnalog s) \<longrightarrow> v \<le> micVol s"
    using v l2(3) cv u7 by (auto simp: untouched_def)
  moreover have sc: "scale s = 0" "scale s7 = 0" "minLevel s \<le> l" "0 \<le> l" "in_s32 l" using iv u7 l by (auto simp: level_ok_def untouched_def in_s32_def)
  moreover have "WebRtcAgc_ProcessAnalog s l out ratio echo w = Some (s7\<lparr>micVol := v\<rparr>, min v (maxAnalog s7), w4, 0)"
    using run s7(1) v(1) sc l by (cases "sat = 1") (simp_all add: WebRtcAgc_ProcessAnalog_def shl32_def chk32_def sar32_def Let_def min_def)
  ultimately show ?thesis using s6(3) by (simp add: runs_Some)
qed

lemma overload_sum_bounds:
  "\<forall>x \<in> set e. env_ok x \<Longrightarrow> 0 \<le> (\<Sum>x\<leftarrow>e. overload_weight x) \<and> (\<Sum>x\<leftarrow>e. overload_weight x) \<le> 1024 * int (length e)"
proof (induction e)
  case (Cons x e)
  with overload_weight_bounds [of x] show ?case by simp
qed simp

section \<open>Properties\<close>

text \<open>C19. The saturation check is exact until its 16-bit accumulator wraps: for an accumulator between 0 and
  25000 and ten subframe peaks, the frame is declared saturated exactly when the accumulator plus the
  weights of the loud subframes exceeds 25000 and is at most 32767. Ten loud subframes on top of an
  accumulator above 22527 wrap it to a negative value, and the saturation goes unnoticed.\<close>

theorem SaturationCtrl_decides:
  assumes "length e = 10" "\<forall>x \<in> set e. env_ok x" "0 \<le> envSum s" "envSum s \<le> 25000"
  shows "\<exists>s'. WebRtcAgc_SaturationCtrl s 0 e = Some (s', if 25000 < envSum s + (\<Sum>x\<leftarrow>e. overload_weight x)
    \<and> envSum s + (\<Sum>x\<leftarrow>e. overload_weight x) \<le> 32767 then 1 else 0)"
proof -
  define S where "S = envSum s + (\<Sum>x\<leftarrow>e. overload_weight x)"
  have S: "0 \<le> S" "S \<le> 35240" using overload_sum_bounds [OF assms(2)] assms(1,3,4) by (simp_all add: S_def)
  have iff: "s16 S > 25000 \<longleftrightarrow> 25000 < S \<and> S \<le> 32767"
  proof (cases "S \<le> 32767")
    case True
    with S show ?thesis by (simp add: s16_small)
  next
    case False
    have "s16 S = s16 (S - 65536)" by (simp add: s16_def minus_mod_self2 [of "S + 32768" 65536, symmetric])
    also have "\<dots> = S - 65536" using S False by (intro s16_small) auto
    finally show ?thesis using S False by simp
  qed
  have es: "in_s16 (envSum s)" using assms(3,4) by (simp add: in_s16_def)
  from SaturationCtrl_runs [OF assms(1,2) es] iff show ?thesis
    unfolding S_def [symmetric] by (auto simp: runs_def)
qed

theorem SaturationCtrl_decides_witness:
  "(\<exists>s'. WebRtcAgc_SaturationCtrl (agc_memory\<lparr>envSum := 20000\<rparr>) 0 (replicate 10 (2 ^ 30)) = Some (s', 1))
   \<and> (\<exists>s'. WebRtcAgc_SaturationCtrl (agc_memory\<lparr>envSum := 24000\<rparr>) 0 (replicate 10 (2 ^ 30)) = Some (s', 0))"
  using SaturationCtrl_decides [of "replicate 10 (2 ^ 30)" "agc_memory\<lparr>envSum := 20000\<rparr>"]
    SaturationCtrl_decides [of "replicate 10 (2 ^ 30)" "agc_memory\<lparr>envSum := 24000\<rparr>"]
  by (simp add: env_ok_def overload_weight_def sum_list_replicate)

text \<open>C20. Drift of the energy measure: one block changes the difference between the sum of the ten stored
  energies and eight times \<open>Rxx160w32\<close> by the remainder modulo 8 of the difference of the new and the
  old energy. The remainder is never negative, so the rounding errors add up and the measure only falls.\<close>

theorem analog_energy_drifts:
  assumes "analog_energy s i = Some s'"
  shows "\<exists>x. rd2 (Rxx16w32_array s) 0 (int i) = Some x
    \<and> energy_deficit s' = energy_deficit s + (x - Rxx16_vectorw32 s ! nat (Rxx16pos s)) mod 8"
proof -
  from assms obtain x where x: "rd2 (Rxx16w32_array s) 0 (int i) = Some x"
    and pos: "0 \<le> Rxx16pos s" "Rxx16pos s < int (length (Rxx16_vectorw32 s))"
    and v: "Rxx16_vectorw32 s' = (Rxx16_vectorw32 s)[nat (Rxx16pos s) := x]"
    and e: "Rxx160w32 s' = Rxx160w32 s + (x - Rxx16_vectorw32 s ! nat (Rxx16pos s)) div 8"
    by (auto simp: analog_energy_def rd_def wr_def chk32_def Let_def split: bind_splits if_splits)
  have "sum_list (Rxx16_vectorw32 s') = sum_list (Rxx16_vectorw32 s) + x - Rxx16_vectorw32 s ! nat (Rxx16pos s)"
    unfolding v using pos by (intro sum_list_replace) auto
  then have "energy_deficit s' = energy_deficit s + (x - Rxx16_vectorw32 s ! nat (Rxx16pos s)) mod 8"
    by (simp add: energy_deficit_def e minus_mult_div_eq_mod [symmetric])
  with x show ?thesis by blast
qed

definition drift_example :: LegacyAgc where
  "drift_example = agc_memory\<lparr>Rxx16w32_array := [[9, 0, 0, 0, 0], [0, 0, 0, 0, 0]]\<rparr>"

lemma drift_example_runs: "analog_energy drift_example 0 \<noteq> None"
  by (simp add: drift_example_def agc_memory_def analog_energy_def rd2_def rd_def wr_def chk32_def in_s32_def Let_def
      kAlphaShortTerm_def)

theorem analog_energy_drifts_witness:
  "\<exists>s'. analog_energy drift_example 0 = Some s' \<and> energy_deficit s' = energy_deficit drift_example + 1"
proof -
  obtain s' where s': "analog_energy drift_example 0 = Some s'" using drift_example_runs by blast
  from analog_energy_drifts [OF s'] have "energy_deficit s' = energy_deficit drift_example + 1"
    by (auto simp: drift_example_def agc_memory_def rd2_def rd_def)
  with s' show ?thesis by blast
qed

text \<open>C31. A raise never lowers: for every normalised volume the weight of both curves lies between 1 and
  1.55 (Q14), and the table index stays inside the eight curves.\<close>

theorem raise_weight_bounds:
  assumes "0 \<le> v" "v \<le> 16384"
  shows "\<exists>w1 w2. analog_weight kOffset1 kSlope1 v = Some w1 \<and> analog_weight kOffset2 kSlope2 v = Some w2
    \<and> 16384 \<le> w1 \<and> w1 \<le> 25395 \<and> 16384 \<le> w2 \<and> w2 \<le> 25395"
  using analog_weight_runs [OF curve1_ok assms] analog_weight_runs [OF curve2_ok assms] by (auto simp: runs_def)

theorem raise_weight_bounds_witness:
  "\<exists>w1 w2. analog_weight kOffset1 kSlope1 8192 = Some w1 \<and> analog_weight kOffset2 kSlope2 8192 = Some w2
    \<and> 16384 \<le> w1 \<and> w2 \<le> 25395"
  using raise_weight_bounds [of 8192] by auto

end
