(* ===== verification/Analog_Config.thy ===== *)
theory Analog_Config
  imports Analog_Control
begin

text \<open>
  Configuration and set up of the legacy gain control in \<^verbatim>\<open>src/digital_agc/analog_agc.c\<close>:
  \<open>WebRtcAgc_UpdateAgcThresholds\<close>, \<open>WebRtcAgc_set_config\<close>, \<open>WebRtcAgc_get_config\<close>,
  \<open>WebRtcAgc_Create\<close> and \<open>WebRtcAgc_Init\<close>. A pointer that the code compares with \<open>NULL\<close> is an
  option. The theory shows that \<open>Init\<close> establishes the invariants of the input side, of the analog
  control and of the digital gain control, and that a configuration that was set is read back.
\<close>

section \<open>Thresholds\<close>

definition threshold_target :: "LegacyAgc \<Rightarrow> int option" where
  "threshold_target stt = do {
     p \<leftarrow> chk32 (DIFF_REF_TO_ANALOG * compressionGaindB stt);
     p \<leftarrow> chk32 (p + ANALOG_TARGET_LEVEL_2);
     tmp16 \<leftarrow> WebRtcSpl_DivW32W16ResW16 (s16 p) ANALOG_TARGET_LEVEL;
     let target = s16 (DIGITAL_REF_AT_0_COMP_GAIN + tmp16);
     let target = (if target < DIGITAL_REF_AT_0_COMP_GAIN then DIGITAL_REF_AT_0_COMP_GAIN else target);
     Some (if stt_agcMode stt = kAgcModeFixedDigital then compressionGaindB stt else target)
   }"

definition threshold_level :: "int \<Rightarrow> int option" where
  "threshold_level i = do { x \<leftarrow> rd kTargetLevelTable i; chk32 (int RXX_BUFFER_LEN * x) }"

definition WebRtcAgc_UpdateAgcThresholds :: "LegacyAgc \<Rightarrow> LegacyAgc option" where
  "WebRtcAgc_UpdateAgcThresholds stt = do {
     target \<leftarrow> threshold_target stt;
     let idx = u16 (ANALOG_TARGET_LEVEL + OFFSET_ENV_TO_RMS);
     atl \<leftarrow> threshold_level idx;
     sul \<leftarrow> threshold_level (idx - 1);
     sll \<leftarrow> threshold_level (idx + 1);
     upl \<leftarrow> threshold_level (idx - 2);
     lpl \<leftarrow> threshold_level (idx + 2);
     usl \<leftarrow> threshold_level (idx - 5);
     lsl \<leftarrow> threshold_level (idx + 5);
     Some (stt\<lparr>analogTarget := target, targetIdx := idx, analogTargetLevel := atl, startUpperLimit := sul,
               startLowerLimit := sll, upperPrimaryLimit := upl, lowerPrimaryLimit := lpl,
               upperSecondaryLimit := usl, lowerSecondaryLimit := lsl, upperLimit := sul, lowerLimit := sll\<rparr>)
   }"

section \<open>Configuration\<close>

text \<open>The update of the gain table inside \<open>digitalAgc\<close>.\<close>

definition config_table :: "LegacyAgc \<Rightarrow> (LegacyAgc \<times> int) option" where
  "config_table stt = do {
     (r, tab) \<leftarrow> WebRtcAgc_CalculateGainTable (gainTable (digitalAgc stt)) (compressionGaindB stt)
        (targetLevelDbfs stt) (limiterEnable stt) (analogTarget stt);
     Some (stt\<lparr>digitalAgc := (digitalAgc stt)\<lparr>gainTable := tab\<rparr>\<rparr>, r)
   }"

definition config_apply :: "LegacyAgc \<Rightarrow> WebRtcAgcConfig \<Rightarrow> (LegacyAgc \<times> int) option" where
  "config_apply stt agcConfig = do {
     let stt = stt\<lparr>targetLevelDbfs := cfg_targetLevelDbfs agcConfig\<rparr>;
     g \<leftarrow> (if stt_agcMode stt = kAgcModeFixedDigital
           then do { p \<leftarrow> chk32 (compressionGaindB stt + cfg_targetLevelDbfs agcConfig); Some (s16 p) }
           else Some (compressionGaindB stt));
     stt \<leftarrow> WebRtcAgc_UpdateAgcThresholds (stt\<lparr>compressionGaindB := g\<rparr>);
     (stt, r) \<leftarrow> config_table stt;
     (if r = -1 then Some (stt, -1)
      else Some (stt\<lparr>usedConfig := \<lparr>cfg_targetLevelDbfs = cfg_targetLevelDbfs agcConfig,
            cfg_compressionGaindB = cfg_compressionGaindB agcConfig,
            cfg_limiterEnable = cfg_limiterEnable agcConfig\<rparr>\<rparr>, 0))
   }"

definition WebRtcAgc_set_config :: "LegacyAgc option \<Rightarrow> WebRtcAgcConfig \<Rightarrow> (LegacyAgc option \<times> int) option" where
  "WebRtcAgc_set_config agcInst agcConfig =
     (case agcInst of
        None \<Rightarrow> Some (None, -1)
      | Some stt \<Rightarrow>
          if initFlag stt \<noteq> kInitCheck then Some (Some (stt\<lparr>lastError := AGC_UNINITIALIZED_ERROR\<rparr>), -1)
          else if cfg_limiterEnable agcConfig \<noteq> kAgcFalse \<and> cfg_limiterEnable agcConfig \<noteq> kAgcTrue
          then Some (Some (stt\<lparr>lastError := AGC_BAD_PARAMETER_ERROR\<rparr>), -1)
          else
            let stt = stt\<lparr>limiterEnable := cfg_limiterEnable agcConfig,
                          compressionGaindB := cfg_compressionGaindB agcConfig\<rparr> in
            if cfg_targetLevelDbfs agcConfig < 0 \<or> cfg_targetLevelDbfs agcConfig > 31
            then Some (Some (stt\<lparr>lastError := AGC_BAD_PARAMETER_ERROR\<rparr>), -1)
            else do { (stt, r) \<leftarrow> config_apply stt agcConfig; Some (Some stt, r) })"

text \<open>The second argument says whether the pointer to the configuration is valid.\<close>

definition WebRtcAgc_get_config ::
  "LegacyAgc option \<Rightarrow> WebRtcAgcConfig option \<Rightarrow> LegacyAgc option \<times> WebRtcAgcConfig option \<times> int" where
  "WebRtcAgc_get_config agcInst config =
     (case agcInst of
        None \<Rightarrow> (None, config, -1)
      | Some stt \<Rightarrow>
          case config of
            None \<Rightarrow> (Some (stt\<lparr>lastError := AGC_NULL_POINTER_ERROR\<rparr>), None, -1)
          | Some c \<Rightarrow>
              if initFlag stt \<noteq> kInitCheck then (Some (stt\<lparr>lastError := AGC_UNINITIALIZED_ERROR\<rparr>), Some c, -1)
              else (Some stt, Some \<lparr>cfg_targetLevelDbfs = cfg_targetLevelDbfs (usedConfig stt),
                      cfg_compressionGaindB = cfg_compressionGaindB (usedConfig stt),
                      cfg_limiterEnable = cfg_limiterEnable (usedConfig stt)\<rparr>, 0))"

section \<open>Life cycle\<close>

text \<open>
  The argument is the result of \<open>malloc\<close>: the uninitialised block, or \<open>None\<close> when the allocation
  fails, which the code does not check before it writes to the block.
\<close>

definition WebRtcAgc_Create :: "LegacyAgc option \<Rightarrow> LegacyAgc option" where
  "WebRtcAgc_Create block =
     (case block of None \<Rightarrow> None | Some stt \<Rightarrow> Some (stt\<lparr>initFlag := 0, lastError := 0\<rparr>))"

definition init_levels :: "LegacyAgc \<Rightarrow> int \<Rightarrow> int \<Rightarrow> LegacyAgc option" where
  "init_levels stt minLevel' maxLevel' = do {
     d \<leftarrow> chk32 (maxLevel' - minLevel');
     max_add \<leftarrow> div32 d 4;
     top \<leftarrow> chk32 (maxLevel' + max_add);
     let stt = stt\<lparr>minLevel := minLevel', maxAnalog := maxLevel', maxLevel := top, maxInit := top,
                   zeroCtrlMax := maxLevel', lastInMicLevel := 0, micVol := maxLevel'\<rparr>;
     let stt = (if stt_agcMode stt = kAgcModeAdaptiveDigital then stt\<lparr>micVol := 127\<rparr> else stt);
     let stt = stt\<lparr>micRef := micVol stt, micGainIdx := 127\<rparr>;
     d \<leftarrow> chk32 (maxLevel stt - minLevel stt);
     p \<leftarrow> chk32 (d * 10);
     out \<leftarrow> chk32 (minLevel stt + p div 2 ^ 8);
     Some (stt\<lparr>minOutput := out\<rparr>)
   }"

definition init_counters :: "LegacyAgc \<Rightarrow> LegacyAgc" where
  "init_counters stt = stt\<lparr>msTooLow := 0, msTooHigh := 0, changeToSlowMode := 0, firstCall := 0, msZero := 0,
     muteGuardMs := 0, gainTableIdx := 0, msecSpeechInnerChange := kMsecSpeechInner,
     msecSpeechOuterChange := kMsecSpeechOuter, activeSpeech := 0, Rxx16_LPw32Max := 0,
     vadThreshold := kNormalVadThreshold, inActive := 0\<rparr>"

definition init_energies :: "LegacyAgc \<Rightarrow> LegacyAgc option" where
  "init_energies stt = do {
     let stt = stt\<lparr>Rxx16_vectorw32 := replicate RXX_BUFFER_LEN 1000, Rxx160w32 := 125 * int RXX_BUFFER_LEN,
                   Rxx16pos := 0, Rxx16_LPw32 := 16284\<rparr>;
     rows \<leftarrow> wr (Rxx16w32_array stt) 0 (replicate 5 0);
     state \<leftarrow> WebRtcSpl_MemSetW32 (filterState stt) 0 8;
     Some (stt\<lparr>Rxx16w32_array := rows, env := [replicate 10 0, replicate 10 0], inQueue := 0, filterState := state\<rparr>)
   }"

definition init_config :: "LegacyAgc \<Rightarrow> (LegacyAgc \<times> int) option" where
  "init_config stt = do {
     let stt = stt\<lparr>initFlag := kInitCheck,
           defaultConfig := \<lparr>cfg_targetLevelDbfs = AGC_DEFAULT_TARGET_LEVEL,
             cfg_compressionGaindB = AGC_DEFAULT_COMP_GAIN, cfg_limiterEnable = kAgcTrue\<rparr>\<rparr>;
     (inst, r) \<leftarrow> WebRtcAgc_set_config (Some stt) (defaultConfig stt);
     (case inst of None \<Rightarrow> None
      | Some stt \<Rightarrow>
          if r = -1 then Some (stt\<lparr>lastError := AGC_UNSPECIFIED_ERROR\<rparr>, -1)
          else Some (stt\<lparr>Rxx160_LPw32 := analogTargetLevel stt, lowLevelSignal := 0\<rparr>, 0))
   }"

definition init_scale :: "int \<Rightarrow> int" where
  "init_scale maxLevel' =
     (let scale = s16 (WebRtcSpl_NormU32 (u32 maxLevel') - 23);
          scale = (if scale < 0 then 0 else scale)
      in 0)"

text \<open>The range is static in the adaptive digital mode.\<close>

definition init_range :: "LegacyAgc \<Rightarrow> int \<Rightarrow> int \<Rightarrow> LegacyAgc \<times> int \<times> int" where
  "init_range stt minLevel' maxLevel' =
     (if stt_agcMode stt = kAgcModeAdaptiveDigital then (stt\<lparr>scale := 0\<rparr>, 0, 255) else (stt, minLevel', maxLevel'))"

definition WebRtcAgc_Init :: "LegacyAgc \<Rightarrow> int \<Rightarrow> int \<Rightarrow> int \<Rightarrow> int \<Rightarrow> (LegacyAgc \<times> int) option" where
  "WebRtcAgc_Init stt minLevel' maxLevel' agcMode' fs' = do {
     let (d, r) = WebRtcAgc_InitDigital (digitalAgc stt) agcMode';
     let stt = stt\<lparr>digitalAgc := d\<rparr>;
     (if r \<noteq> 0 then Some (stt\<lparr>lastError := AGC_UNINITIALIZED_ERROR\<rparr>, -1)
      else do {
        let stt = stt\<lparr>envSum := 0\<rparr>;
        (if agcMode' < kAgcModeUnchanged \<or> agcMode' > kAgcModeFixedDigital then Some (stt, -1)
         else do {
           let stt = stt\<lparr>stt_agcMode := agcMode', fs := fs', vadMic := WebRtcAgc_InitVad (vadMic stt),
                         scale := init_scale maxLevel'\<rparr>;
           maxLevel' \<leftarrow> shl32 maxLevel' (scale stt);
           minLevel' \<leftarrow> shl32 minLevel' (scale stt);
           let (stt, minLevel', maxLevel') = init_range stt minLevel' maxLevel';
           stt \<leftarrow> init_levels stt minLevel' maxLevel';
           stt \<leftarrow> init_energies (init_counters stt);
           (stt, r) \<leftarrow> init_config stt;
           (if r = -1 then Some (stt, -1)
            else Some (stt, if minLevel' \<ge> maxLevel' \<or> u32 maxLevel' AND 0xFC000000 \<noteq> 0 then -1 else 0))
         })
      })
   }"

section \<open>Thresholds of a configuration\<close>

definition config_target :: "LegacyAgc \<Rightarrow> int \<Rightarrow> int" where
  "config_target s g = (if stt_agcMode s = kAgcModeFixedDigital then g else 4 + (5 * g + 5) div 11)"

lemma threshold_target_eq:
  assumes "0 \<le> compressionGaindB s" "compressionGaindB s \<le> 121"
  shows "threshold_target s = Some (config_target s (compressionGaindB s))"
proof -
  define q where "q = (5 * compressionGaindB s + 5) div 11"
  have q: "0 \<le> q" "q \<le> 55" using assms by (simp_all add: q_def)
  have "(5 * compressionGaindB s + 5) sdiv 11 = q" using assms by (simp add: sdiv_nonneg q_def)
  moreover have "s16 (5 * compressionGaindB s + 5) = 5 * compressionGaindB s + 5" using assms by (intro s16_small) auto
  moreover have "in_s32 (5 * compressionGaindB s)" "in_s32 (5 * compressionGaindB s + 5)" "in_s32 q" "s16 q = q" "s16 (4 + q) = 4 + q"
    using assms q by (auto simp: in_s32_def s16_small)
  ultimately show ?thesis
    using q by (simp add: threshold_target_def config_target_def DIFF_REF_TO_ANALOG_def ANALOG_TARGET_LEVEL_2_def ANALOG_TARGET_LEVEL_def
        DIGITAL_REF_AT_0_COMP_GAIN_def WebRtcSpl_DivW32W16ResW16_def chk32_def div32_def Let_def q_def)
qed

lemma UpdateAgcThresholds_eq:
  assumes "0 \<le> compressionGaindB s" "compressionGaindB s \<le> 121"
  shows "WebRtcAgc_UpdateAgcThresholds s = Some (s\<lparr>analogTarget := config_target s (compressionGaindB s), targetIdx := 20,
    analogTargetLevel := 13420950, startUpperLimit := 16895980, startLowerLimit := 10660640, upperPrimaryLimit := 21270780,
    lowerPrimaryLimit := 8468050, upperSecondaryLimit := 42440780, lowerSecondaryLimit := 4244080,
    upperLimit := 16895980, lowerLimit := 10660640\<rparr>)"
  using threshold_target_eq [OF assms]
  by (simp add: WebRtcAgc_UpdateAgcThresholds_def ANALOG_TARGET_LEVEL_def OFFSET_ENV_TO_RMS_def u16_def threshold_level_def
      kTargetLevelTable_def rd_def chk32_def in_s32_def RXX_BUFFER_LEN_def Let_def)

section \<open>Setting the configuration\<close>

definition config_good :: "WebRtcAgcConfig \<Rightarrow> bool" where
  "config_good c \<longleftrightarrow> (cfg_limiterEnable c = 0 \<or> cfg_limiterEnable c = 1) \<and> 0 \<le> cfg_targetLevelDbfs c \<and> cfg_targetLevelDbfs c \<le> 31
    \<and> 0 \<le> cfg_compressionGaindB c \<and> cfg_compressionGaindB c \<le> 90"

text \<open>Configurations whose gain table stays below a gain of 8.\<close>

definition config_safe :: "int \<Rightarrow> WebRtcAgcConfig \<Rightarrow> bool" where
  "config_safe mode c \<longleftrightarrow> config_good c \<and> (if mode = kAgcModeFixedDigital then cfg_compressionGaindB c \<le> 18
     else cfg_compressionGaindB c - cfg_targetLevelDbfs c \<le> 18)"

text \<open>The state after a successful \<open>set_config\<close>, up to the gain table.\<close>

definition config_gain :: "LegacyAgc \<Rightarrow> WebRtcAgcConfig \<Rightarrow> int" where
  "config_gain s c = (if stt_agcMode s = kAgcModeFixedDigital then cfg_compressionGaindB c + cfg_targetLevelDbfs c
     else cfg_compressionGaindB c)"

definition configured :: "LegacyAgc \<Rightarrow> WebRtcAgcConfig \<Rightarrow> int list \<Rightarrow> LegacyAgc" where
  "configured s c tab = s\<lparr>limiterEnable := cfg_limiterEnable c, compressionGaindB := config_gain s c,
    targetLevelDbfs := cfg_targetLevelDbfs c, analogTarget := config_target s (config_gain s c), targetIdx := 20,
    analogTargetLevel := 13420950, startUpperLimit := 16895980, startLowerLimit := 10660640, upperPrimaryLimit := 21270780,
    lowerPrimaryLimit := 8468050, upperSecondaryLimit := 42440780, lowerSecondaryLimit := 4244080,
    upperLimit := 16895980, lowerLimit := 10660640, digitalAgc := (digitalAgc s)\<lparr>gainTable := tab\<rparr>, usedConfig := c\<rparr>"

lemma config_target_bounds:
  assumes "config_good c"
  shows "table_config (config_gain s c) (cfg_targetLevelDbfs c) (config_target s (config_gain s c))"
    and "config_safe (stt_agcMode s) c \<Longrightarrow> config_gain s c - cfg_targetLevelDbfs c \<le> 18 \<and> config_target s (config_gain s c) - cfg_targetLevelDbfs c \<le> 18"
proof -
  define g where "g = cfg_compressionGaindB c"
  have g: "0 \<le> g" "g \<le> 90" using assms by (simp_all add: config_good_def g_def)
  define q where "q = (5 * g + 5) div 11"
  have q: "0 \<le> q" "11 * q \<le> 5 * g + 5" using g div_window [of 11 "5 * g + 5"] by (simp_all add: q_def)
  show "table_config (config_gain s c) (cfg_targetLevelDbfs c) (config_target s (config_gain s c))"
    using assms g q by (simp add: config_good_def table_config_def config_gain_def config_target_def g_def [symmetric] q_def [symmetric])
  show "config_gain s c - cfg_targetLevelDbfs c \<le> 18 \<and> config_target s (config_gain s c) - cfg_targetLevelDbfs c \<le> 18"
    if "config_safe (stt_agcMode s) c"
    using that assms g q by (auto simp: config_good_def config_safe_def config_gain_def config_target_def g_def [symmetric] q_def [symmetric])
qed

lemma set_config_runs:
  assumes i: "initFlag s = kInitCheck" and c: "config_good c" and len: "length (gainTable (digitalAgc s)) = 32"
  shows "runs (WebRtcAgc_set_config (Some s) c) (\<lambda>(inst, r). r = 0 \<and> (\<exists>tab. inst = Some (configured s c tab) \<and> length tab = 32
    \<and> (config_safe (stt_agcMode s) c \<longrightarrow> table_ok tab)))"
proof -
  let ?g = "config_gain s c" and ?a = "config_target s (config_gain s c)" and ?t = "cfg_targetLevelDbfs c"
  have g: "0 \<le> ?g" "?g \<le> 121" and t: "0 \<le> ?t" "?t \<le> 31" and l: "cfg_limiterEnable c = 0 \<or> cfg_limiterEnable c = 1"
    using c by (auto simp: config_good_def config_gain_def)
  from CalculateGainTable_runs [OF config_target_bounds(1) [OF c, of s] len, of "cfg_limiterEnable c"]
  obtain tab where tab: "WebRtcAgc_CalculateGainTable (gainTable (digitalAgc s)) ?g ?t (cfg_limiterEnable c) ?a = Some (0, tab)" "length tab = 32"
    "\<forall>e \<in> set tab. 1024 \<le> e \<and> e \<le> 2147483647 \<and> (?g - ?t \<le> 18 \<and> ?a - ?t \<le> 18 \<longrightarrow> e \<le> 524287)"
    by (auto simp: runs_def)
  have ok: "table_ok tab" if "config_safe (stt_agcMode s) c"
    using tab(2,3) config_target_bounds(2) [OF c that] by (auto simp: table_ok_def gain_ok_def)
  define s1 where "s1 = s\<lparr>limiterEnable := cfg_limiterEnable c, compressionGaindB := cfg_compressionGaindB c, targetLevelDbfs := ?t\<rparr>"
  have s1: "(if stt_agcMode s1 = kAgcModeFixedDigital then do { p \<leftarrow> chk32 (compressionGaindB s1 + ?t); Some (s16 p) }
      else Some (compressionGaindB s1)) = Some ?g"
    using g by (auto simp: s1_def config_gain_def chk32_def in_s32_def s16_small)
  have ct: "config_target (s1\<lparr>compressionGaindB := ?g\<rparr>) ?g = ?a" by (simp add: s1_def config_target_def)
  have "config_apply (s\<lparr>limiterEnable := cfg_limiterEnable c, compressionGaindB := cfg_compressionGaindB c\<rparr>) c = Some (configured s c tab, 0)"
    unfolding config_apply_def Let_def s1_def [symmetric] s1 using UpdateAgcThresholds_eq [of "s1\<lparr>compressionGaindB := ?g\<rparr>"] g tab(1) ct
    by (simp add: config_table_def) (simp add: s1_def configured_def)
  then have "WebRtcAgc_set_config (Some s) c = Some (Some (configured s c tab), 0)"
    using i l t by (auto simp: WebRtcAgc_set_config_def kAgcFalse_def kAgcTrue_def Let_def)
  with tab(2) ok show ?thesis by (auto simp: runs_Some)
qed

lemma get_config_configured: "initFlag s = kInitCheck \<Longrightarrow>
  WebRtcAgc_get_config (Some (configured s c tab)) (Some c0) = (Some (configured s c tab), Some c, 0)"
  by (simp add: WebRtcAgc_get_config_def configured_def)

text \<open>A new configuration keeps the invariants of all parts.\<close>

lemma configured_inv:
  "input_inv s \<Longrightarrow> input_inv (configured s c tab)"
  "control_inv s \<Longrightarrow> control_inv (configured s c tab)"
  "digital_inv (digitalAgc s) \<Longrightarrow> table_ok tab \<Longrightarrow> digital_inv (digitalAgc (configured s c tab))"
  "energy_deficit (configured s c tab) = energy_deficit s"
  by (simp_all add: configured_def input_inv_def level_ok_def buffers_ok_def mic_queue_def control_inv_def ready_simps digital_inv_def)

section \<open>Set up\<close>

lemma init_levels_eq:
  assumes "0 \<le> lo" "lo + 42 \<le> hi" "hi \<le> 65535" "stt_agcMode s = kAgcModeAdaptiveDigital \<longrightarrow> lo = 0 \<and> hi = 255" "scale s = 0"
  shows "\<exists>tp out. init_levels s lo hi = Some (s\<lparr>minLevel := lo, maxAnalog := hi, maxLevel := tp, maxInit := tp,
      zeroCtrlMax := hi, lastInMicLevel := 0, micVol := (if stt_agcMode s = kAgcModeAdaptiveDigital then 127 else hi),
      micRef := (if stt_agcMode s = kAgcModeAdaptiveDigital then 127 else hi), micGainIdx := 127, minOutput := out\<rparr>)
    \<and> hi \<le> tp \<and> tp \<le> hi + 16383 \<and> lo + 2 \<le> out \<and> out \<le> hi \<and> (hi = 255 \<and> lo = 0 \<longrightarrow> out \<le> 127)"
proof -
  define d where "d = hi - lo"
  have d: "42 \<le> d" "d \<le> 65535" using assms by (simp_all add: d_def)
  define a where "a = d div 4"
  have a: "4 * a \<le> d" "d < 4 * a + 4" using div_window [of 4 d] by (simp_all add: a_def)
  have ad: "d sdiv 4 = a" using d by (simp add: sdiv_nonneg a_def)
  define q where "q = (hi + a - lo) * 10 div 256"
  have q: "256 * q \<le> (d + a) * 10" "(d + a) * 10 < 256 * q + 256"
    using div_window [of 256 "(hi + a - lo) * 10"] by (simp_all add: q_def d_def algebra_simps)
  have "in_s32 d" "in_s32 a" "in_s32 (hi + a)" "in_s32 (hi + a - lo)" "in_s32 ((hi + a - lo) * 10)" "in_s32 (lo + q)"
    using d a q assms by (auto simp: in_s32_def)
  then have "init_levels s lo hi = Some (s\<lparr>minLevel := lo, maxAnalog := hi, maxLevel := hi + a, maxInit := hi + a,
      zeroCtrlMax := hi, lastInMicLevel := 0, micVol := (if stt_agcMode s = kAgcModeAdaptiveDigital then 127 else hi),
      micRef := (if stt_agcMode s = kAgcModeAdaptiveDigital then 127 else hi), micGainIdx := 127, minOutput := lo + q\<rparr>)"
    by (simp add: init_levels_def chk32_def div32_def d_def [symmetric] ad q_def Let_def)
  moreover have "hi \<le> hi + a" "hi + a \<le> hi + 16383" "lo + 2 \<le> lo + q" "lo + q \<le> hi" "hi = 255 \<and> lo = 0 \<longrightarrow> lo + q \<le> 127"
    using d a q by (auto simp: d_def)
  ultimately show ?thesis by blast
qed

lemma init_energies_eq:
  assumes "legacy_shape s"
  shows "init_energies s = Some (s\<lparr>Rxx16_vectorw32 := replicate 10 1000, Rxx160w32 := 1250, Rxx16pos := 0, Rxx16_LPw32 := 16284,
    Rxx16w32_array := (Rxx16w32_array s)[0 := replicate 5 0], env := [replicate 10 0, replicate 10 0], inQueue := 0, filterState := replicate 8 0\<rparr>)"
  using assms by (auto simp: init_energies_def legacy_shape_def RXX_BUFFER_LEN_def wr_def MemSetW32_runs Let_def)

definition default_config :: WebRtcAgcConfig where
  "default_config = \<lparr>cfg_targetLevelDbfs = 3, cfg_compressionGaindB = 9, cfg_limiterEnable = 1\<rparr>"

lemma level_mask: "0 \<le> x \<Longrightarrow> x \<le> 65535 \<Longrightarrow> u32 x AND 0xFC000000 = 0"
  using and_high_mask [of x 6 26] by (simp add: u32_id in_u32_def)

text \<open>The state before the configuration is applied.\<close>

definition init_state :: "LegacyAgc \<Rightarrow> int \<Rightarrow> int \<Rightarrow> int \<Rightarrow> int \<Rightarrow> int \<Rightarrow> int \<Rightarrow> LegacyAgc" where
  "init_state s mode f lo hi tp out = s\<lparr>digitalAgc := fst (WebRtcAgc_InitDigital (digitalAgc s) mode), envSum := 0,
    stt_agcMode := mode, fs := f, vadMic := WebRtcAgc_InitVad (vadMic s), scale := 0,
    minLevel := lo, maxAnalog := hi, maxLevel := tp, maxInit := tp, zeroCtrlMax := hi, lastInMicLevel := 0,
    micVol := (if mode = kAgcModeAdaptiveDigital then 127 else hi),
    micRef := (if mode = kAgcModeAdaptiveDigital then 127 else hi), micGainIdx := 127, minOutput := out,
    msTooLow := 0, msTooHigh := 0, changeToSlowMode := 0, firstCall := 0, msZero := 0, muteGuardMs := 0, gainTableIdx := 0,
    msecSpeechInnerChange := kMsecSpeechInner, msecSpeechOuterChange := kMsecSpeechOuter, activeSpeech := 0,
    Rxx16_LPw32Max := 0, vadThreshold := kNormalVadThreshold, inActive := 0,
    Rxx16_vectorw32 := replicate 10 1000, Rxx160w32 := 1250, Rxx16pos := 0, Rxx16_LPw32 := 16284,
    Rxx16w32_array := (Rxx16w32_array s)[0 := replicate 5 0], env := [replicate 10 0, replicate 10 0], inQueue := 0,
    filterState := replicate 8 0, initFlag := kInitCheck, defaultConfig := default_config\<rparr>"

lemma Init_eq:
  assumes s: "legacy_shape s" and lv: "0 \<le> lo" "lo + 42 \<le> hi" "hi \<le> 65535" and m: "0 \<le> mode" "mode \<le> 3"
  shows "\<exists>lo' hi' tp out tab. WebRtcAgc_Init s lo hi mode f =
      Some ((configured (init_state s mode f lo' hi' tp out) default_config tab)\<lparr>Rxx160_LPw32 := 13420950, lowLevelSignal := 0\<rparr>, 0)
    \<and> 0 \<le> lo' \<and> lo' + 42 \<le> hi' \<and> hi' \<le> 65535 \<and> hi' \<le> tp \<and> tp \<le> hi' + 16383 \<and> lo' + 2 \<le> out \<and> out \<le> hi'
    \<and> table_ok tab \<and> (mode = kAgcModeAdaptiveDigital \<longrightarrow> lo' = 0 \<and> hi' = 255 \<and> out \<le> 127)
    \<and> (mode \<noteq> kAgcModeAdaptiveDigital \<longrightarrow> lo' = lo \<and> hi' = hi)"
proof -
  let ?dig = "mode = kAgcModeAdaptiveDigital"
  define lo' hi' where "lo' = (if ?dig then 0 else lo)" and "hi' = (if ?dig then 255 else hi)"
  have l': "0 \<le> lo'" "lo' + 42 \<le> hi'" "hi' \<le> 65535" using lv by (simp_all add: lo'_def hi'_def)
  define s1 where "s1 = s\<lparr>digitalAgc := fst (WebRtcAgc_InitDigital (digitalAgc s) mode), envSum := 0, stt_agcMode := mode,
    fs := f, vadMic := WebRtcAgc_InitVad (vadMic s), scale := 0\<rparr>"
  have s1: "stt_agcMode s1 = mode" by (simp add: s1_def)
  have "stt_agcMode s1 = kAgcModeAdaptiveDigital \<longrightarrow> lo' = 0 \<and> hi' = 255" "scale s1 = 0" by (simp_all add: s1_def lo'_def hi'_def)
  from init_levels_eq [OF l' this, unfolded s1] obtain tp out where lev: "init_levels s1 lo' hi' = Some (s1\<lparr>minLevel := lo', maxAnalog := hi', maxLevel := tp, maxInit := tp,
      zeroCtrlMax := hi', lastInMicLevel := 0, micVol := (if ?dig then 127 else hi'),
      micRef := (if ?dig then 127 else hi'), micGainIdx := 127, minOutput := out\<rparr>)"
    and b: "hi' \<le> tp" "tp \<le> hi' + 16383" "lo' + 2 \<le> out" "out \<le> hi'" "hi' = 255 \<and> lo' = 0 \<longrightarrow> out \<le> 127"
    by blast
  let ?i = "init_state s mode f lo' hi' tp out"
  define s2 where "s2 = s1\<lparr>minLevel := lo', maxAnalog := hi', maxLevel := tp, maxInit := tp,
      zeroCtrlMax := hi', lastInMicLevel := 0, micVol := (if ?dig then 127 else hi'),
      micRef := (if ?dig then 127 else hi'), micGainIdx := 127, minOutput := out\<rparr>"
  have en: "\<exists>s3. init_energies (init_counters s2) = Some s3 \<and> s3\<lparr>initFlag := kInitCheck, defaultConfig := default_config\<rparr> = ?i"
    using init_energies_eq [of "init_counters s2"] s
    by (simp add: legacy_shape_def s2_def s1_def init_counters_def init_state_def WebRtcAgc_InitDigital_def Let_def)
  have "config_good default_config" "config_safe mode default_config" by (simp_all add: default_config_def config_good_def config_safe_def)
  moreover have "initFlag ?i = kInitCheck" "stt_agcMode ?i = mode" "length (gainTable (digitalAgc ?i)) = 32"
    using s by (simp_all add: init_state_def legacy_shape_def WebRtcAgc_InitDigital_def Let_def)
  ultimately obtain tab where tab: "WebRtcAgc_set_config (Some ?i) default_config = Some (Some (configured ?i default_config tab), 0)" "table_ok tab"
    using set_config_runs [of ?i default_config] by (auto simp: runs_def)
  have cfg: "init_config s3 = Some ((configured ?i default_config tab)\<lparr>Rxx160_LPw32 := 13420950, lowLevelSignal := 0\<rparr>, 0)"
    if "s3\<lparr>initFlag := kInitCheck, defaultConfig := default_config\<rparr> = ?i" for s3
  proof -
    have "defaultConfig ?i = default_config" by (simp add: init_state_def)
    with tab that show ?thesis
      by (simp add: init_config_def default_config_def [symmetric] AGC_DEFAULT_TARGET_LEVEL_def
          AGC_DEFAULT_COMP_GAIN_def kAgcTrue_def Let_def) (simp add: configured_def)
  qed
  obtain s3 where s3: "init_energies (init_counters s2) = Some s3" "s3\<lparr>initFlag := kInitCheck, defaultConfig := default_config\<rparr> = ?i"
    using en by blast
  have mode: "\<not> (mode < kAgcModeUnchanged \<or> mode > kAgcModeFixedDigital)" "snd (WebRtcAgc_InitDigital (digitalAgc s) mode) = 0"
    using m by (simp_all add: kAgcModeUnchanged_def kAgcModeFixedDigital_def WebRtcAgc_InitDigital_def Let_def)
  have shl: "shl32 hi 0 = Some hi" "shl32 lo 0 = Some lo" using lv by (simp_all add: shl32_def chk32_def in_s32_def)
  have fin: "\<not> (lo' \<ge> hi' \<or> u32 hi' AND 0xFC000000 \<noteq> 0)" using l' level_mask [of hi'] by simp
  have sel: "init_range s1 lo hi = (s1, lo', hi')"
    by (simp add: init_range_def lo'_def hi'_def s1_def)
  have "WebRtcAgc_Init s lo hi mode f = Some ((configured ?i default_config tab)\<lparr>Rxx160_LPw32 := 13420950, lowLevelSignal := 0\<rparr>, 0)"
    using mode shl lev [folded s2_def] s3(1) cfg [OF s3(2)] fin sel
    by (simp add: WebRtcAgc_Init_def case_prod_beta Let_def init_scale_def s1_def [symmetric])
  with l' b tab(2) show ?thesis
    by (intro exI [of _ lo'] exI [of _ hi'] exI [of _ tp] exI [of _ out] exI [of _ tab]) (auto simp: lo'_def hi'_def)
qed

text \<open>The three invariants of an instance of the gain control, and its fixed sizes.\<close>

definition agc_inv :: "LegacyAgc \<Rightarrow> bool" where
  "agc_inv s \<longleftrightarrow> input_inv s \<and> control_inv s \<and> digital_inv (digitalAgc s) \<and> initFlag s = kInitCheck"

lemma init_state_inv:
  fixes f :: int
  assumes s: "legacy_shape s" and lv: "0 \<le> lo" "lo + 42 \<le> hi" "hi \<le> 65535" "hi \<le> tp" "tp \<le> hi + 16383" "lo + 2 \<le> out" "out \<le> hi"
    and dig: "mode = kAgcModeAdaptiveDigital \<longrightarrow> lo = 0 \<and> hi = 255" and tab: "table_ok tab"
  defines "r \<equiv> (configured (init_state s mode f lo hi tp out) default_config tab)\<lparr>Rxx160_LPw32 := 13420950, lowLevelSignal := 0\<rparr>"
  shows "agc_inv r \<and> energy_deficit r = 0 \<and> stt_agcMode r = mode \<and> fs r = f \<and> usedConfig r = default_config
    \<and> minLevel r = lo \<and> maxAnalog r = hi \<and> minOutput r = out \<and> firstCall r = 0"
proof -
  note [simp] = r_def configured_def init_state_def
  have rows: "Rxx16w32_array r ! 0 = replicate 5 0" "length (Rxx16w32_array r) = 2" using s by (cases "Rxx16w32_array s"; simp add: legacy_shape_def)+
  have "level_ok r" using lv dig by (auto simp: level_ok_def)
  moreover have "downsample_inv (replicate 8 0)" by (rule downsample_inv_zero)
  moreover have "buffers_ok r"
    unfolding buffers_ok_def mic_queue_def frame_row_ok_def rows by (simp add: rows [simplified] env_ok_def energy_ok_def)
  moreover have "vad_inv (vadMic r)" using InitVad_inv by simp
  ultimately have "input_inv r" by (simp add: input_inv_def)
  moreover have "energy_inv r" "energy_deficit r = 0" by (simp_all add: energy_inv_def energy_deficit_def energy_ok_def sum_list_replicate)
  moreover from this have "control_inv r"
    using lv by (simp add: control_inv_def lp_inv_def timers_inv_def limits_inv_def settled_def in_s16_def kMsecSpeechInner_def
        kMsecSpeechOuter_def kNormalVadThreshold_def)
  moreover have "digital_inv (digitalAgc r)"
  proof -
    have "digitalAgc r = fst (WebRtcAgc_InitDigital ((digitalAgc s)\<lparr>gainTable := tab\<rparr>) mode)"
      by (simp add: WebRtcAgc_InitDigital_def Let_def)
    with tab show ?thesis using InitDigital_inv [of "(digitalAgc s)\<lparr>gainTable := tab\<rparr>" mode] by (simp del: r_def)
  qed
  ultimately show ?thesis by (simp add: agc_inv_def)
qed

lemma Init_post:
  assumes s: "legacy_shape s" and lv: "0 \<le> lo" "lo + 42 \<le> hi" "hi \<le> 65535" and m: "0 \<le> mode" "mode \<le> 3"
  obtains s' where "WebRtcAgc_Init s lo hi mode f = Some (s', 0)" "agc_inv s'" "energy_deficit s' = 0" "stt_agcMode s' = mode" "fs s' = f"
    "usedConfig s' = default_config" "firstCall s' = 0"
    "mode \<noteq> kAgcModeAdaptiveDigital \<longrightarrow> minLevel s' = lo \<and> maxAnalog s' = hi"
    "mode = kAgcModeAdaptiveDigital \<longrightarrow> minLevel s' = 0 \<and> maxAnalog s' = 255 \<and> minOutput s' \<le> 127"
proof -
  from Init_eq [OF s lv m, of f] obtain lo' hi' tp out tab where
    run: "WebRtcAgc_Init s lo hi mode f = Some ((configured (init_state s mode f lo' hi' tp out) default_config tab)\<lparr>Rxx160_LPw32 := 13420950, lowLevelSignal := 0\<rparr>, 0)"
    and b: "0 \<le> lo'" "lo' + 42 \<le> hi'" "hi' \<le> 65535" "hi' \<le> tp" "tp \<le> hi' + 16383" "lo' + 2 \<le> out" "out \<le> hi'"
    and tab: "table_ok tab" and d: "mode = kAgcModeAdaptiveDigital \<longrightarrow> lo' = 0 \<and> hi' = 255 \<and> out \<le> 127"
      "mode \<noteq> kAgcModeAdaptiveDigital \<longrightarrow> lo' = lo \<and> hi' = hi" by blast
  have "mode = kAgcModeAdaptiveDigital \<longrightarrow> lo' = 0 \<and> hi' = 255" using d by blast
  note inv = init_state_inv [OF s b this tab, of f]
  show thesis by (rule that [OF run]) (use inv d in auto)
qed

section \<open>Properties\<close>

text \<open>C8. Initialisation establishes every invariant: for a volume range inside 0 to 65535 that is at least 42
  wide, any of the four modes and any block of memory of the right shape, \<open>Init\<close> returns 0 without
  undefined behaviour; the input side, the analog control and the digital gain control satisfy their
  invariants, the default configuration is in use and the energy measure has no rounding deficit.\<close>

theorem Init_establishes:
  assumes "legacy_shape s" "0 \<le> lo" "lo + 42 \<le> hi" "hi \<le> 65535" "0 \<le> mode" "mode \<le> 3"
  shows "\<exists>s'. WebRtcAgc_Init s lo hi mode f = Some (s', 0) \<and> input_inv s' \<and> control_inv s' \<and> digital_inv (digitalAgc s')
    \<and> energy_deficit s' = 0 \<and> fs s' = f \<and> stt_agcMode s' = mode
    \<and> WebRtcAgc_get_config (Some s') (Some c) = (Some s', Some default_config, 0)"
proof -
  obtain s' where s': "WebRtcAgc_Init s lo hi mode f = Some (s', 0)" "agc_inv s'" "energy_deficit s' = 0" "stt_agcMode s' = mode" "fs s' = f"
    "usedConfig s' = default_config" by (rule Init_post [OF assms, of f]) blast
  then show ?thesis by (auto simp: agc_inv_def WebRtcAgc_get_config_def)
qed

lemma agc_memory_shape: "legacy_shape agc_memory"
  by (simp add: legacy_shape_def agc_memory_def digital_example_def WebRtcAgc_InitDigital_def Let_def)

theorem Init_establishes_witness:
  "\<exists>s'. WebRtcAgc_Init agc_memory 0 255 1 16000 = Some (s', 0) \<and> input_inv s' \<and> control_inv s' \<and> digital_inv (digitalAgc s')"
  using Init_establishes [OF agc_memory_shape, of 0 255 1 16000] by auto

text \<open>C16. Round trip of the configuration: a limiter flag of 0 or 1, a target of 0 to 31 dB and a gain of 0 to
  90 dB are accepted by \<open>set_config\<close> in every mode, and \<open>get_config\<close> returns the configuration
  that was set, although the fixed digital mode stores the sum of the gain and the target.\<close>

theorem config_roundtrip:
  assumes "initFlag s = kInitCheck" "config_good c" "length (gainTable (digitalAgc s)) = 32"
  shows "\<exists>s'. WebRtcAgc_set_config (Some s) c = Some (Some s', 0)
    \<and> WebRtcAgc_get_config (Some s') (Some c0) = (Some s', Some c, 0)
    \<and> compressionGaindB s' = (if stt_agcMode s = kAgcModeFixedDigital then cfg_compressionGaindB c + cfg_targetLevelDbfs c
        else cfg_compressionGaindB c)"
  using set_config_runs [OF assms] get_config_configured [OF assms(1)]
  by (auto simp: runs_def configured_def config_gain_def)

theorem config_roundtrip_witness:
  "\<exists>s'. WebRtcAgc_set_config (Some (agc_memory\<lparr>initFlag := 42, stt_agcMode := 3\<rparr>))
      \<lparr>cfg_targetLevelDbfs = 31, cfg_compressionGaindB = 90, cfg_limiterEnable = 0\<rparr> = Some (Some s', 0)
    \<and> compressionGaindB s' = 121"
  using config_roundtrip [of "agc_memory\<lparr>initFlag := 42, stt_agcMode := 3\<rparr>"
      "\<lparr>cfg_targetLevelDbfs = 31, cfg_compressionGaindB = 90, cfg_limiterEnable = 0\<rparr>" default_config] agc_memory_shape
  by (auto simp: kInitCheck_def config_good_def legacy_shape_def kAgcModeFixedDigital_def)





end
