(* ===== verification/Analog_Agc.thy ===== *)
theory Analog_Agc
  imports Analog_Config
begin

text \<open>
  \<open>WebRtcAgc_Process\<close> of \<^verbatim>\<open>src/digital_agc/analog_agc.c\<close> and the composition of the parts of the
  legacy gain control: the digital gain control on the samples, the analog control of the microphone
  level, and the queue that \<open>WebRtcAgc_AddMic\<close> fills and \<open>WebRtcAgc_Process\<close> empties.
\<close>

section \<open>Processing a frame\<close>

definition process_rate_ok :: "LegacyAgc \<Rightarrow> nat \<Rightarrow> bool" where
  "process_rate_ok stt samples =
     (if fs stt = 8000 then samples = 80
      else if fs stt = 16000 \<or> fs stt = 32000 \<or> fs stt = 48000 then samples = 160
      else False)"

definition process_uses_analog :: "LegacyAgc \<Rightarrow> bool" where
  "process_uses_analog stt \<longleftrightarrow> stt_agcMode stt < kAgcModeFixedDigital
     \<and> (lowLevelSignal stt = 0 \<or> stt_agcMode stt \<noteq> kAgcModeAdaptiveDigital)"

definition process_queue :: "LegacyAgc \<Rightarrow> LegacyAgc option" where
  "process_queue stt = do {
     stt \<leftarrow> (if inQueue stt > 1 then do {
         e \<leftarrow> rd (env stt) 1;
         e \<leftarrow> wr (env stt) 0 e;
         w \<leftarrow> rd (Rxx16w32_array stt) 1;
         w \<leftarrow> wr (Rxx16w32_array stt) 0 w;
         Some (stt\<lparr>env := e, Rxx16w32_array := w\<rparr>)
       } else Some stt);
     Some (if inQueue stt > 0 then stt\<lparr>inQueue := s16 (inQueue stt - 1)\<rparr> else stt)
   }"

text \<open>
  The result holds the instance, the output bands, \<open>*outMicLevel\<close>, \<open>*saturationWarning\<close> and the
  return value.
\<close>

definition WebRtcAgc_Process ::
  "LegacyAgc option \<Rightarrow> int list list \<Rightarrow> nat \<Rightarrow> nat \<Rightarrow> int list option list \<Rightarrow> int \<Rightarrow> int \<Rightarrow> int \<Rightarrow> int
    \<Rightarrow> (LegacyAgc option \<times> int list list \<times> int \<times> int \<times> int) option" where
  "WebRtcAgc_Process agcInst in_near num_bands samples out inMicLevel outMicLevel echo saturationWarning =
     (case agcInst of
        None \<Rightarrow> Some (None, out_contents in_near out, outMicLevel, saturationWarning, -1)
      | Some stt \<Rightarrow>
          if \<not> process_rate_ok stt samples
          then Some (Some stt, out_contents in_near out, outMicLevel, saturationWarning, -1)
          else do {
            (d, bands, r) \<leftarrow> WebRtcAgc_ProcessDigital (digitalAgc stt) in_near num_bands out (fs stt) (lowLevelSignal stt);
            let stt = stt\<lparr>digitalAgc := d\<rparr>;
            (if r = -1 then Some (Some stt, bands, inMicLevel, 0, -1)
             else do {
               (stt, level, warning, r) \<leftarrow>
                 (if process_uses_analog stt
                  then WebRtcAgc_ProcessAnalog stt inMicLevel inMicLevel (logRatio (vadMic stt)) echo 0
                  else Some (stt, inMicLevel, 0, 0));
               (if r = -1 then Some (Some stt, bands, level, warning, -1)
                else do { stt \<leftarrow> process_queue stt; Some (Some stt, bands, level, warning, 0) })
             })
          })"

section \<open>The queue\<close>

lemma process_queue_runs:
  assumes "buffers_ok s"
  shows "\<exists>e w q. process_queue s = Some (s\<lparr>env := e, Rxx16w32_array := w, inQueue := q\<rparr>)
    \<and> buffers_ok (s\<lparr>env := e, Rxx16w32_array := w, inQueue := q\<rparr>)
    \<and> mic_queue (s\<lparr>env := e, Rxx16w32_array := w, inQueue := q\<rparr>) = tl (mic_queue s)"
proof -
  obtain e0 e1 w0 w1 where ew: "env s = [e0, e1]" "Rxx16w32_array s = [w0, w1]"
    using assms two_rows [of "env s"] two_rows [of "Rxx16w32_array s"] by (auto simp: buffers_ok_def)
  have "0 \<le> inQueue s" "inQueue s \<le> 2" using assms by (simp_all add: buffers_ok_def)
  then consider "inQueue s = 0" | "inQueue s = 1" | "inQueue s = 2" by linarith
  then show ?thesis
  proof cases
    case 1
    have "process_queue s = Some (s\<lparr>env := [e0, e1], Rxx16w32_array := [w0, w1], inQueue := 0\<rparr>)"
      using 1 ew by (simp add: process_queue_def)
    with 1 ew assms show ?thesis
      by (intro exI [of _ "[e0, e1]"] exI [of _ "[w0, w1]"] exI [of _ 0]) (auto simp: buffers_ok_def mic_queue_def)
  next
    case 2
    have "process_queue s = Some (s\<lparr>env := [e0, e1], Rxx16w32_array := [w0, w1], inQueue := 0\<rparr>)"
      using 2 ew by (simp add: process_queue_def s16_small)
    with 2 ew assms show ?thesis
      by (intro exI [of _ "[e0, e1]"] exI [of _ "[w0, w1]"] exI [of _ 0]) (auto simp: buffers_ok_def mic_queue_def)
  next
    case 3
    have "process_queue s = Some (s\<lparr>env := [e1, e1], Rxx16w32_array := [w1, w1], inQueue := 1\<rparr>)"
      using 3 ew by (simp add: process_queue_def rd_def wr_def s16_small)
    moreover have "frame_row_ok (e1, w1)" using assms 3 ew by (simp add: buffers_ok_def mic_queue_def)
    ultimately show ?thesis
      using 3 ew by (intro exI [of _ "[e1, e1]"] exI [of _ "[w1, w1]"] exI [of _ 1]) (auto simp: buffers_ok_def mic_queue_def)
  qed
qed

section \<open>One frame of the whole gain control\<close>

lemma input_inv_digital: "input_inv (s\<lparr>digitalAgc := d\<rparr>) = input_inv s" "control_inv (s\<lparr>digitalAgc := d\<rparr>) = control_inv s"
    "energy_deficit (s\<lparr>digitalAgc := d\<rparr>) = energy_deficit s"
  by (simp_all add: input_inv_def level_ok_def buffers_ok_def mic_queue_def control_inv_def ready_simps)

lemma untouched_input:
  assumes "untouched s s'" "level_ok s'" "input_inv s"
  shows "input_inv s'" "mic_queue s' = mic_queue s"
  using assms by (simp_all add: untouched_def input_inv_def buffers_ok_def mic_queue_def)

lemma process_queue_keeps:
  assumes "input_inv s" "control_inv s"
  shows "\<exists>s'. process_queue s = Some s' \<and> input_inv s' \<and> control_inv s' \<and> energy_deficit s' = energy_deficit s
    \<and> mic_queue s' = tl (mic_queue s) \<and> digitalAgc s' = digitalAgc s \<and> initFlag s' = initFlag s \<and> fs s' = fs s \<and> stt_agcMode s' = stt_agcMode s
    \<and> micVol s' = micVol s \<and> firstCall s' = firstCall s \<and> maxAnalog s' = maxAnalog s \<and> minLevel s' = minLevel s \<and> minOutput s' = minOutput s"
proof -
  obtain e w q where q: "process_queue s = Some (s\<lparr>env := e, Rxx16w32_array := w, inQueue := q\<rparr>)"
    "buffers_ok (s\<lparr>env := e, Rxx16w32_array := w, inQueue := q\<rparr>)"
    "mic_queue (s\<lparr>env := e, Rxx16w32_array := w, inQueue := q\<rparr>) = tl (mic_queue s)"
    using process_queue_runs [of s] assms(1) by (auto simp: input_inv_def)
  have "input_inv (s\<lparr>env := e, Rxx16w32_array := w, inQueue := q\<rparr>)" "control_inv (s\<lparr>env := e, Rxx16w32_array := w, inQueue := q\<rparr>)"
    using assms q(2) by (simp_all add: input_inv_def level_ok_def control_inv_def ready_simps)
  with q show ?thesis by (simp add: energy_deficit_def)
qed

lemma process_rate: "process_rate_ok s n \<Longrightarrow> \<exists>L L2. digital_rate (fs s) = Some (L, L2) \<and> n = 10 * L"
  by (auto simp: process_rate_ok_def digital_rate_def split: if_splits)

text \<open>The control part of a frame, after the digital gain has been applied.\<close>

definition process_control :: "LegacyAgc \<Rightarrow> int \<Rightarrow> int \<Rightarrow> (LegacyAgc \<times> int \<times> int \<times> int) option" where
  "process_control stt inMicLevel echo =
     (if process_uses_analog stt
      then WebRtcAgc_ProcessAnalog stt inMicLevel inMicLevel (logRatio (vadMic stt)) echo 0
      else Some (stt, inMicLevel, 0, 0))"

lemma process_control_runs:
  assumes s: "agc_inv s" and d: "energy_deficit s \<le> deficit_limit"
    and l: "process_uses_analog s \<longrightarrow> minLevel s \<le> l \<and> l \<le> maxAnalog s"
  shows "runs (process_control s l echo) (\<lambda>(s', out, w, r). r = 0 \<and> agc_inv s' \<and> energy_deficit s' \<le> energy_deficit s + 35
    \<and> mic_queue s' = mic_queue s \<and> (minLevel s \<le> l \<and> l \<le> maxAnalog s \<longrightarrow> minLevel s \<le> out \<and> out \<le> maxAnalog s)
    \<and> fs s' = fs s \<and> stt_agcMode s' = stt_agcMode s
    \<and> minLevel s' = minLevel s \<and> maxAnalog s' = maxAnalog s \<and> minOutput s' = minOutput s
    \<and> (echo = 1 \<and> firstCall s \<noteq> 0 \<and> l = min (micVol s) (maxAnalog s) \<longrightarrow> micVol s' \<le> micVol s))"
proof (cases "process_uses_analog s")
  case True
  have i: "input_inv s" "control_inv s" "digital_inv (digitalAgc s)" "initFlag s = kInitCheck" using s by (simp_all add: agc_inv_def)
  show ?thesis
    unfolding process_control_def if_P [OF True]
  proof (rule runs_mono [OF ProcessAnalog_runs [OF i(1,2) d]], goal_cases)
    case 1
    show ?case using l True by simp
  next
    case 2
    show ?case using l True by simp
  next
    case (3 q)
    obtain s' out w r where q: "q = (s', out, w, r)" by (cases q)
    from 3 have r: "r = 0" "control_inv s'" "level_ok s'" "untouched s s'" "energy_deficit s' \<le> energy_deficit s + 35"
      "out = min (micVol s') (maxAnalog s')" "minOutput s \<le> micVol s'"
      "echo = 1 \<and> firstCall s \<noteq> 0 \<and> l = min (micVol s) (maxAnalog s) \<longrightarrow> micVol s' \<le> micVol s"
      by (auto simp: q)
    note u = untouched_input [OF r(4,3) i(1)]
    have "minLevel s \<le> out" "out \<le> maxAnalog s" using r(3,4,6,7) by (auto simp: level_ok_def untouched_def)
    with r u i show ?case by (simp add: q agc_inv_def untouched_def)
  qed
next
  case False
  with s d show ?thesis by (simp add: process_control_def runs_Some)
qed

lemma Process_cases:
  assumes s: "agc_inv s" and d: "energy_deficit s \<le> deficit_limit" and n: "process_rate_ok s n"
    and fr: "frame_ok n in_near nb out" and l: "process_uses_analog s \<longrightarrow> minLevel s \<le> l \<and> l \<le> maxAnalog s"
  shows "\<exists>x. vad_frame n x \<and> (if WebRtcAgc_ProcessVad (vadNearend (digitalAgc s)) x n = None
    then WebRtcAgc_Process (Some s) in_near nb n out l o0 echo w0 = None
    else runs (WebRtcAgc_Process (Some s) in_near nb n out l o0 echo w0) (\<lambda>(inst, bands, level, w, r). r = 0
      \<and> length bands = nb \<and> bands_ok n bands \<and> (minLevel s \<le> l \<and> l \<le> maxAnalog s \<longrightarrow> minLevel s \<le> level \<and> level \<le> maxAnalog s)
      \<and> (\<exists>s'. inst = Some s' \<and> agc_inv s' \<and> energy_deficit s' \<le> energy_deficit s + 35 \<and> mic_queue s' = tl (mic_queue s)
          \<and> fs s' = fs s \<and> stt_agcMode s' = stt_agcMode s \<and> minLevel s' = minLevel s \<and> maxAnalog s' = maxAnalog s
          \<and> minOutput s' = minOutput s
          \<and> (echo = 1 \<and> firstCall s \<noteq> 0 \<and> l = min (micVol s) (maxAnalog s) \<longrightarrow> micVol s' \<le> micVol s))))"
    (is "\<exists>x. _ \<and> (if _ then _ else runs _ ?P)")
proof -
  obtain L L2 where L: "digital_rate (fs s) = Some (L, L2)" "n = 10 * L" using process_rate [OF n] by blast
  have dig: "digital_inv (digitalAgc s)" using s by (simp add: agc_inv_def)
  obtain bs where bs: "vad_frame (L * 10) (bs ! 0)" and c: "if WebRtcAgc_ProcessVad (vadNearend (digitalAgc s)) (bs ! 0) (L * 10) = None
     then WebRtcAgc_ProcessDigital (digitalAgc s) in_near nb out (fs s) (lowLevelSignal s) = None
     else runs (WebRtcAgc_ProcessDigital (digitalAgc s) in_near nb out (fs s) (lowLevelSignal s))
       (\<lambda>(s', out', r). r = 0 \<and> digital_inv s' \<and> length out' = nb \<and> bands_ok (10 * L) out'
          \<and> gainTable s' = gainTable (digitalAgc s) \<and> agcMode s' = agcMode (digitalAgc s))"
    using ProcessDigital_cases [OF dig L(1) fr [unfolded L(2)], of "lowLevelSignal s"] by blast
  have none: "WebRtcAgc_Process (Some s) in_near nb n out l o0 echo w0 = None"
    if "WebRtcAgc_ProcessDigital (digitalAgc s) in_near nb out (fs s) (lowLevelSignal s) = None"
    using that n by (simp add: WebRtcAgc_Process_def)
  have some: "runs (WebRtcAgc_Process (Some s) in_near nb n out l o0 echo w0) ?P"
    if p: "WebRtcAgc_ProcessDigital (digitalAgc s) in_near nb out (fs s) (lowLevelSignal s) = Some (d1, out1, 0)"
      "digital_inv d1" "length out1 = nb" "bands_ok n out1" for d1 out1
  proof -
    let ?s = "s\<lparr>digitalAgc := d1\<rparr>"
    have s1: "agc_inv ?s" "energy_deficit ?s \<le> deficit_limit" "process_uses_analog ?s \<longrightarrow> minLevel ?s \<le> l \<and> l \<le> maxAnalog ?s"
      using s d l p(2) by (simp_all add: agc_inv_def input_inv_digital process_uses_analog_def)
    obtain s2 lev w where c2: "process_control ?s l echo = Some (s2, lev, w, 0)" "agc_inv s2" "energy_deficit s2 \<le> energy_deficit ?s + 35"
      "mic_queue s2 = mic_queue ?s" "minLevel ?s \<le> l \<and> l \<le> maxAnalog ?s \<longrightarrow> minLevel ?s \<le> lev \<and> lev \<le> maxAnalog ?s"
      "fs s2 = fs ?s" "stt_agcMode s2 = stt_agcMode ?s" "minLevel s2 = minLevel ?s" "maxAnalog s2 = maxAnalog ?s" "minOutput s2 = minOutput ?s"
      "echo = 1 \<and> firstCall ?s \<noteq> 0 \<and> l = min (micVol ?s) (maxAnalog ?s) \<longrightarrow> micVol s2 \<le> micVol ?s"
      using process_control_runs [OF s1, of echo] unfolding runs_def by blast
    have i2: "input_inv s2" "control_inv s2" using c2(2) by (simp_all add: agc_inv_def)
    obtain s3 where q: "process_queue s2 = Some s3" "input_inv s3" "control_inv s3" "energy_deficit s3 = energy_deficit s2"
      "mic_queue s3 = tl (mic_queue s2)" "digitalAgc s3 = digitalAgc s2" "initFlag s3 = initFlag s2" "fs s3 = fs s2" "stt_agcMode s3 = stt_agcMode s2"
      "micVol s3 = micVol s2" "maxAnalog s3 = maxAnalog s2" "minLevel s3 = minLevel s2" "minOutput s3 = minOutput s2"
      using process_queue_keeps [OF i2] by blast
    have "WebRtcAgc_Process (Some s) in_near nb n out l o0 echo w0 = Some (Some s3, out1, lev, w, 0)"
      using n p(1) c2(1) q(1) by (simp add: WebRtcAgc_Process_def process_control_def)
    moreover have "agc_inv s3" using q c2(2) by (simp add: agc_inv_def)
    moreover have "mic_queue ?s = mic_queue s" "energy_deficit ?s = energy_deficit s" by (simp_all add: mic_queue_def energy_deficit_def)
    ultimately show ?thesis using p(3,4) c2 q by (simp add: runs_Some)
  qed
  show ?thesis
    by (rule exI [of _ "bs ! 0"]) (use bs c none some L(2) in \<open>auto simp: mult.commute runs_def split: if_splits\<close>)
qed

section \<open>Sessions\<close>

text \<open>
  The calls a client makes on an initialised instance: microphone frames, far-end frames, processing and
  new configurations, in any order.
\<close>

datatype agc_event =
  MicFrame "int list list" nat nat
| FarEnd "int list" nat
| ProcessFrame "int list list" nat nat "int list option list" int int
| Configure WebRtcAgcConfig

fun agc_step :: "agc_event \<Rightarrow> LegacyAgc \<Rightarrow> (LegacyAgc \<times> int list list \<times> int) option" where
  "agc_step (MicFrame bands nb n) s = WebRtcAgc_AddMic s bands nb n"
| "agc_step (FarEnd x n) s = do {
     (inst, r) \<leftarrow> WebRtcAgc_AddFarend (Some s) x n;
     (case inst of None \<Rightarrow> None | Some s \<Rightarrow> Some (s, [], r))
   }"
| "agc_step (ProcessFrame in_near nb n out level echo) s = do {
     (inst, bands, l, w, r) \<leftarrow> WebRtcAgc_Process (Some s) in_near nb n out level level echo 0;
     (case inst of None \<Rightarrow> None | Some s \<Rightarrow> Some (s, bands, if r = 0 then l else r))
   }"
| "agc_step (Configure c) s = do {
     (inst, r) \<leftarrow> WebRtcAgc_set_config (Some s) c;
     (case inst of None \<Rightarrow> None | Some s \<Rightarrow> Some (s, [], r))
   }"

text \<open>The calls are well formed for a session of rate \<open>rate\<close>, mode \<open>mode\<close> and volume range \<open>lo\<close> to \<open>hi\<close>.\<close>

definition frame_length :: "int \<Rightarrow> nat" where
  "frame_length rate = (if rate = 8000 then 80 else 160)"

fun agc_good :: "int \<Rightarrow> int \<Rightarrow> int \<Rightarrow> int \<Rightarrow> agc_event \<Rightarrow> bool" where
  "agc_good rate mode lo hi (MicFrame bands nb n) \<longleftrightarrow> n = frame_length rate \<and> bands_ok n bands \<and> 0 < nb \<and> nb \<le> length bands"
| "agc_good rate mode lo hi (FarEnd x n) \<longleftrightarrow> n = frame_length rate \<and> vad_frame n x"
| "agc_good rate mode lo hi (ProcessFrame in_near nb n out level echo) \<longleftrightarrow> n = frame_length rate \<and> frame_ok n in_near nb out
    \<and> lo \<le> level \<and> level \<le> hi"
| "agc_good rate mode lo hi (Configure c) \<longleftrightarrow> config_safe mode c"

fun agc_post :: "int \<Rightarrow> int \<Rightarrow> int \<Rightarrow> agc_event \<Rightarrow> int list list \<times> int \<Rightarrow> bool" where
  "agc_post rate lo hi (MicFrame bands nb n) r \<longleftrightarrow> snd r = 0 \<and> length (fst r) = length bands \<and> bands_ok n (fst r)"
| "agc_post rate lo hi (FarEnd x n) r \<longleftrightarrow> snd r = 0"
| "agc_post rate lo hi (ProcessFrame in_near nb n out level echo) r \<longleftrightarrow> length (fst r) = nb \<and> bands_ok n (fst r)
    \<and> lo \<le> snd r \<and> snd r \<le> hi"
| "agc_post rate lo hi (Configure c) r \<longleftrightarrow> snd r = 0"

definition session_inv :: "int \<Rightarrow> int \<Rightarrow> int \<Rightarrow> int \<Rightarrow> LegacyAgc \<Rightarrow> bool" where
  "session_inv rate mode lo hi s \<longleftrightarrow> agc_inv s \<and> fs s = rate \<and> stt_agcMode s = mode \<and> minLevel s = lo \<and> maxAnalog s = hi
    \<and> rate \<in> {8000, 16000, 32000, 48000}"

text \<open>
  A processor with a budget: the invariant holds as long as a quantity that grows by at most \<open>rate\<close> per
  step stays below a limit.
\<close>

locale budgeted_processor =
  fixes step :: "'i \<Rightarrow> 's \<Rightarrow> ('s \<times> 'o) option"
    and inv :: "'s \<Rightarrow> bool" and used :: "'s \<Rightarrow> int" and budget growth :: int
    and good :: "'i \<Rightarrow> bool" and post :: "'i \<Rightarrow> 'o \<Rightarrow> bool"
  assumes growth_nonneg: "0 \<le> growth"
    and step_post: "inv s \<Longrightarrow> used s \<le> budget \<Longrightarrow> good i \<Longrightarrow> step i s = Some (s', r)
      \<Longrightarrow> inv s' \<and> used s' \<le> used s + growth \<and> post i r"
begin

lemma budget_stream_post:
  assumes "inv s" "used s + growth * int (length is) \<le> budget" "\<forall>i \<in> set is. good i" "stream step is s = Some (s', rs)"
  shows "inv s' \<and> used s' \<le> used s + growth * int (length is) \<and> list_all2 post is rs"
  using assms
proof (induction "is" arbitrary: s rs)
  case Nil
  then show ?case by simp
next
  case (Cons i "is")
  from Cons.prems(4) obtain s1 r rs1 where st: "step i s = Some (s1, r)" "stream step is s1 = Some (s', rs1)" "rs = r # rs1"
    by (auto split: bind_splits prod.splits)
  have le: "used s + growth + growth * int (length is) \<le> budget" using Cons.prems(2) by (simp add: algebra_simps)
  moreover have "0 \<le> growth * int (length is)" using growth_nonneg by simp
  ultimately have "used s \<le> budget" using growth_nonneg by linarith
  with step_post [OF Cons.prems(1) _ _ st(1)] Cons.prems(3) have s1: "inv s1" "used s1 \<le> used s + growth" "post i r" by auto
  with Cons.IH [OF s1(1) _ _ st(2)] Cons.prems(3) le have "inv s' \<and> used s' \<le> used s1 + growth * int (length is) \<and> list_all2 post is rs1"
    by auto
  with s1 st(3) show ?case by (auto simp: algebra_simps)
qed

end

lemma session_length: "session_inv rate mode lo hi s \<Longrightarrow> n = frame_length rate
  \<Longrightarrow> n = 10 * addmic_length s \<and> process_rate_ok s n \<and> WebRtcAgc_GetAddFarendError (Some s) n = 0"
  by (auto simp: session_inv_def frame_length_def addmic_length_def process_rate_ok_def WebRtcAgc_GetAddFarendError_def)

lemma mic_step:
  assumes s: "session_inv rate mode lo hi s" and g: "agc_good rate mode lo hi (MicFrame bands nb n)"
    and st: "WebRtcAgc_AddMic s bands nb n = Some (s', r)"
  shows "session_inv rate mode lo hi s' \<and> energy_deficit s' = energy_deficit s \<and> agc_post rate lo hi (MicFrame bands nb n) r
    \<and> (\<exists>e w. addmic_envelope (addmic_length s) (fst r ! 0) = Some e \<and> frame_row_ok (e, w) \<and> mic_queue s' = queue_push (e, w) (mic_queue s))"
proof -
  have i: "input_inv s" "control_inv s" "digital_inv (digitalAgc s)" "initFlag s = kInitCheck"
    using s by (simp_all add: session_inv_def agc_inv_def)
  have n: "n = 10 * addmic_length s" using session_length [OF s] g by simp
  obtain m' c where r: "r = (m', c)" by (cases r)
  have "runs (WebRtcAgc_AddMic s bands nb n) (\<lambda>(s', m', r). r = 0 \<and> input_inv s' \<and> length m' = length bands \<and> bands_ok n m'
      \<and> (\<exists>e w. addmic_envelope (addmic_length s) (m' ! 0) = Some e \<and> frame_row_ok (e, w)
            \<and> mic_queue s' = queue_push (e, w) (mic_queue s))
      \<and> (\<exists>k e f w q v. s' = s\<lparr>gainTableIdx := k, env := e, filterState := f, Rxx16w32_array := w, inQueue := q, vadMic := v\<rparr>))"
    using AddMic_cases [OF i(1) n, of bands nb] g st by (auto split: if_splits)
  from runsD [OF this st] have p: "c = 0" "input_inv s'" "length m' = length bands" "bands_ok n m'"
    "\<exists>e w. addmic_envelope (addmic_length s) (m' ! 0) = Some e \<and> frame_row_ok (e, w) \<and> mic_queue s' = queue_push (e, w) (mic_queue s)"
    "\<exists>k e f w q v. s' = s\<lparr>gainTableIdx := k, env := e, filterState := f, Rxx16w32_array := w, inQueue := q, vadMic := v\<rparr>"
    unfolding r prod.case by blast+
  from p(6) obtain k e f w q v where s': "s' = s\<lparr>gainTableIdx := k, env := e, filterState := f, Rxx16w32_array := w, inQueue := q, vadMic := v\<rparr>"
    by blast
  have "control_inv s'" using i(2) by (simp add: s' control_inv_def ready_simps)
  with p i s show ?thesis by (simp add: s' r session_inv_def agc_inv_def energy_deficit_def)
qed

lemma far_step:
  assumes s: "session_inv rate mode lo hi s" and g: "agc_good rate mode lo hi (FarEnd x n)"
    and st: "agc_step (FarEnd x n) s = Some (s', r)"
  shows "session_inv rate mode lo hi s' \<and> energy_deficit s' = energy_deficit s \<and> agc_post rate lo hi (FarEnd x n) r \<and> mic_queue s' = mic_queue s"
proof -
  have d: "digital_inv (digitalAgc s)" using s by (simp add: session_inv_def agc_inv_def)
  have e: "WebRtcAgc_GetAddFarendError (Some s) n = 0" using session_length [OF s] g by auto
  obtain d1 r1 where far: "WebRtcAgc_AddFarendToDigital (Some (digitalAgc s)) x n = Some (Some d1, r1)" and s': "s' = s\<lparr>digitalAgc := d1\<rparr>" "r = ([], r1)"
    using st e by (auto simp: WebRtcAgc_AddFarend_def Let_def split: bind_splits option.splits prod.splits)
  from AddFarendToDigital_inv [OF d _ far] g have "digital_inv d1" "r1 = 0" by auto
  with s show ?thesis by (simp add: s' session_inv_def agc_inv_def input_inv_digital mic_queue_def)
qed

lemma process_step:
  assumes s: "session_inv rate mode lo hi s" and d: "energy_deficit s \<le> deficit_limit"
    and g: "agc_good rate mode lo hi (ProcessFrame in_near nb n out level echo)"
    and st: "agc_step (ProcessFrame in_near nb n out level echo) s = Some (s', r)"
  shows "session_inv rate mode lo hi s' \<and> energy_deficit s' \<le> energy_deficit s + 35
    \<and> agc_post rate lo hi (ProcessFrame in_near nb n out level echo) r \<and> mic_queue s' = tl (mic_queue s)"
proof -
  have a: "agc_inv s" "process_rate_ok s n" "frame_ok n in_near nb out" "minLevel s \<le> level" "level \<le> maxAnalog s"
    using s g session_length [OF s] by (auto simp: session_inv_def)
  obtain bands l w c where run: "WebRtcAgc_Process (Some s) in_near nb n out level level echo 0 = Some (Some s', bands, l, w, c)"
    "r = (bands, if c = 0 then l else c)"
    using st by (auto split: bind_splits option.splits prod.splits)
  from Process_cases [OF a(1) d a(2,3), of level level echo 0] a(4,5) run(1)
  have "c = 0" "length bands = nb" "bands_ok n bands" "minLevel s \<le> l" "l \<le> maxAnalog s" "agc_inv s'"
    "energy_deficit s' \<le> energy_deficit s + 35" "mic_queue s' = tl (mic_queue s)" "fs s' = fs s" "stt_agcMode s' = stt_agcMode s"
    "minLevel s' = minLevel s" "maxAnalog s' = maxAnalog s"
    by (auto simp: runs_def split: if_splits)
  with s run(2) show ?thesis by (simp add: session_inv_def)
qed

lemma configure_step:
  assumes s: "session_inv rate mode lo hi s" and g: "agc_good rate mode lo hi (Configure c)"
    and st: "agc_step (Configure c) s = Some (s', r)"
  shows "session_inv rate mode lo hi s' \<and> energy_deficit s' = energy_deficit s \<and> agc_post rate lo hi (Configure c) r \<and> mic_queue s' = mic_queue s"
proof -
  have i: "initFlag s = kInitCheck" "digital_inv (digitalAgc s)" "stt_agcMode s = mode" using s by (simp_all add: session_inv_def agc_inv_def)
  have len: "length (gainTable (digitalAgc s)) = 32" using i(2) by (simp add: digital_inv_def table_ok_def)
  have c: "config_good c" "config_safe (stt_agcMode s) c" using g i(3) by (simp_all add: config_safe_def)
  from set_config_runs [OF i(1) c(1) len] c(2) st obtain tab where tab: "s' = configured s c tab" "r = ([], 0)" "table_ok tab"
    by (auto simp: runs_def)
  have "fs s' = fs s" "stt_agcMode s' = stt_agcMode s" "minLevel s' = minLevel s" "maxAnalog s' = maxAnalog s" "initFlag s' = initFlag s"
    "mic_queue s' = mic_queue s"
    by (simp_all add: tab(1) configured_def mic_queue_def)
  with s tab configured_inv show ?thesis by (simp add: session_inv_def agc_inv_def)
qed

lemma agc_step_post:
  assumes "session_inv rate mode lo hi s" "energy_deficit s \<le> deficit_limit" "agc_good rate mode lo hi i" "agc_step i s = Some (s', r)"
  shows "session_inv rate mode lo hi s' \<and> energy_deficit s' \<le> energy_deficit s + 35 \<and> agc_post rate lo hi i r"
proof (cases i)
  case (MicFrame bands nb n)
  from mic_step [OF assms(1) assms(3) [unfolded MicFrame], of s' r] assms(4) MicFrame show ?thesis by simp
next
  case (FarEnd x n)
  from far_step [OF assms(1) assms(3,4) [unfolded FarEnd]] FarEnd show ?thesis by simp
next
  case (ProcessFrame in_near nb n out level echo)
  from process_step [OF assms(1,2) assms(3,4) [unfolded ProcessFrame]] ProcessFrame show ?thesis by simp
next
  case (Configure c)
  from configure_step [OF assms(1) assms(3,4) [unfolded Configure]] Configure show ?thesis by simp
qed

interpretation session: budgeted_processor agc_step "session_inv rate mode lo hi" energy_deficit deficit_limit 35
    "agc_good rate mode lo hi" "agc_post rate lo hi"
  for rate mode lo hi :: int
  by unfold_locales (simp, rule agc_step_post)

section \<open>Liveness\<close>

definition too_quiet :: "LegacyAgc \<Rightarrow> bool" where
  "too_quiet s \<longleftrightarrow> msecSpeechOuterChange s = 340 \<and> Rxx160_LPw32 s < lowerSecondaryLimit s
    \<and> lowerSecondaryLimit s \<le> upperLimit s \<and> upperLimit s \<le> upperSecondaryLimit s"

definition waiting :: "nat \<Rightarrow> LegacyAgc \<Rightarrow> LegacyAgc" where
  "waiting k s = s\<lparr>msTooHigh := 0, changeToSlowMode := 0, msTooLow := 2 * int k\<rparr>"

lemma too_quiet_branch: "too_quiet s \<Longrightarrow> analog_adapt s lst l = analog_below_secondary s lst l"
  by (simp add: analog_adapt_def too_quiet_def)

lemma too_quiet_waiting: "too_quiet (waiting k s) = too_quiet s"
  by (simp add: too_quiet_def waiting_def)

lemma below_wait:
  assumes "too_quiet s" "msTooLow s = 2 * int k" "k < 170"
  shows "analog_adapt s lst l = Some (waiting (Suc k) s, l)"
proof -
  have "s16 (2 * int k + 2) = 2 * int (Suc k)" using assms(3) by (simp add: s16_small)
  with assms show ?thesis by (simp add: too_quiet_branch analog_below_secondary_def waiting_def too_quiet_def)
qed

lemma below_waits:
  assumes "too_quiet s" "msTooLow s = 0" "k < 170"
  shows "foldM (\<lambda>_ (s, l). analog_adapt s lst l) [0..<Suc k] (s, l) = Some (waiting (Suc k) s, l)"
  using assms(3)
proof (induction k)
  case 0
  with assms below_wait [of s 0 lst l] show ?case by simp
next
  case (Suc k)
  have w: "analog_adapt (waiting (Suc k) s) lst l = Some (waiting (Suc (Suc k)) (waiting (Suc k) s), l)"
    using Suc.prems assms(1) by (intro below_wait) (simp_all only: too_quiet_waiting, simp_all add: waiting_def)
  have e: "waiting m (waiting n s) = waiting m s" for m n by (simp add: waiting_def)
  have u: "[0..<Suc (Suc k)] = [0..<Suc k] @ [Suc k]" by simp
  from Suc have "foldM (\<lambda>_ (s, l). analog_adapt s lst l) [0..<Suc k] (s, l) = Some (waiting (Suc k) s, l)" by simp
  with w show ?case unfolding u foldM_append by (simp add: e)
qed

section \<open>The queue of microphone frames\<close>

text \<open>
  The abstract queue: \<open>AddMic\<close> appends the envelope and the energies of the frame behind the oldest one
  (a second waiting frame is overwritten), \<open>Process\<close> removes the oldest, nothing else touches it.
\<close>

fun queue_step :: "nat \<Rightarrow> agc_event \<Rightarrow> int list list \<Rightarrow> mic_frame list \<Rightarrow> mic_frame list \<Rightarrow> bool" where
  "queue_step L (MicFrame bands nb n) m q q' \<longleftrightarrow> (\<exists>e w. addmic_envelope L (m ! 0) = Some e \<and> frame_row_ok (e, w) \<and> q' = queue_push (e, w) q)"
| "queue_step L (FarEnd x n) m q q' \<longleftrightarrow> q' = q"
| "queue_step L (ProcessFrame in_near nb n out level echo) m q q' \<longleftrightarrow> q' = tl q"
| "queue_step L (Configure c) m q q' \<longleftrightarrow> q' = q"

lemma agc_step_queue:
  assumes "session_inv rate mode lo hi s" "energy_deficit s \<le> deficit_limit" "agc_good rate mode lo hi i" "agc_step i s = Some (s', r)"
  shows "queue_step (addmic_length s) i (fst r) (mic_queue s) (mic_queue s')"
proof (cases i)
  case (MicFrame bands nb n)
  from mic_step [OF assms(1) assms(3) [unfolded MicFrame], of s' r] assms(4) MicFrame show ?thesis by simp
next
  case (FarEnd x n)
  from far_step [OF assms(1) assms(3,4) [unfolded FarEnd]] FarEnd show ?thesis by simp
next
  case (ProcessFrame in_near nb n out level echo)
  from process_step [OF assms(1,2) assms(3,4) [unfolded ProcessFrame]] ProcessFrame show ?thesis by simp
next
  case (Configure c)
  from configure_step [OF assms(1) assms(3,4) [unfolded Configure]] Configure show ?thesis by simp
qed

lemma mic_queue_length: "length (mic_queue s) \<le> nat (inQueue s)"
  by (simp add: mic_queue_def)

lemma raise_after_wait:
  assumes "too_quiet s" "-502870912 \<le> Rxx160_LPw32 s" "lowerSecondaryLimit s \<le> 134217728"
    and "0 \<le> minLevel s" "minLevel s \<le> l" "l \<le> maxInit s" "minLevel s < maxInit s" "maxInit s \<le> 81918"
    and "0 \<le> lst" "lst \<le> 81918"
  shows "\<exists>s' l'. analog_adapt (waiting 170 s) lst l = Some (s', l') \<and> micVol s' = l' \<and> lst + 2 \<le> l' \<and> l \<le> l' \<and> msTooLow s' = 0"
proof -
  let ?s = "s\<lparr>msTooHigh := 0, changeToSlowMode := 0, msTooLow := 0\<rparr>"
  have "analog_adapt (waiting 170 s) lst l = analog_raise ?s kOffset1 kSlope1 2 lst l"
    using assms(1) by (simp add: too_quiet_branch too_quiet_waiting) (simp add: analog_below_secondary_def waiting_def too_quiet_def s16_small)
  moreover have "runs (analog_raise ?s kOffset1 kSlope1 2 lst l) (\<lambda>r. \<exists>lp l'. r = (?s\<lparr>Rxx160_LPw32 := lp, micVol := l'\<rparr>, l')
    \<and> -536870912 \<le> lp \<and> lp \<le> 1342177280 \<and> lst + 2 \<le> l' \<and> l \<le> l' \<and> l' \<le> 210000)"
    using assms by (intro analog_raise_runs curve1_ok) (simp_all add: too_quiet_def)
  ultimately show ?thesis by (auto simp: runs_def)
qed

section \<open>Properties\<close>







text \<open>C6. The two-entry queue of microphone frames refines a bounded queue: every call of a session that
  returns acts on the queued frames as the abstract queue does, with the envelope of the frame that was
  handed in, and the queue never holds more than two frames.\<close>

theorem mic_queue_refines:
  assumes "session_inv rate mode lo hi s" "energy_deficit s \<le> deficit_limit" "agc_good rate mode lo hi i"
    and "agc_step i s = Some (s', r)"
  shows "queue_step (addmic_length s) i (fst r) (mic_queue s) (mic_queue s') \<and> length (mic_queue s') \<le> 2"
proof -
  from agc_step_post [OF assms] have "inQueue s' \<le> 2"
    by (simp add: session_inv_def agc_inv_def input_inv_def buffers_ok_def)
  with mic_queue_length [of s'] agc_step_queue [OF assms] show ?thesis by simp
qed

theorem mic_queue_refines_witness:
  "\<exists>s s' r. WebRtcAgc_Init agc_memory 0 255 1 8000 = Some (s, 0)
    \<and> agc_step (Configure \<lparr>cfg_targetLevelDbfs = 3, cfg_compressionGaindB = 18, cfg_limiterEnable = 1\<rparr>) s = Some (s', r)
    \<and> mic_queue s' = mic_queue s \<and> length (mic_queue s') \<le> 2"
proof -
  let ?c = "\<lparr>cfg_targetLevelDbfs = 3, cfg_compressionGaindB = 18, cfg_limiterEnable = 1\<rparr>"
  have m: "0 \<le> (0::int)" "(0::int) + 42 \<le> 255" "(255::int) \<le> 65535" "0 \<le> (1::int)" "(1::int) \<le> 3" by simp_all
  obtain s where s: "WebRtcAgc_Init agc_memory 0 255 1 8000 = Some (s, 0)" "agc_inv s" "energy_deficit s = 0" "fs s = 8000"
    "stt_agcMode s = 1" "1 \<noteq> kAgcModeAdaptiveDigital \<longrightarrow> minLevel s = 0 \<and> maxAnalog s = 255"
    by (rule Init_post [OF agc_memory_shape m, of 8000]) blast
  then have i: "session_inv 8000 1 0 255 s" by (simp add: session_inv_def kAgcModeAdaptiveDigital_def)
  have c: "initFlag s = kInitCheck" "config_good ?c" "length (gainTable (digitalAgc s)) = 32"
    using s(2) by (simp_all add: agc_inv_def config_good_def digital_inv_def table_ok_def)
  then obtain s' r where st: "agc_step (Configure ?c) s = Some (s', r)"
    using set_config_runs [OF c] by (auto simp: runs_def)
  have good: "agc_good 8000 1 0 255 (Configure ?c)" by (simp add: config_safe_def config_good_def kAgcModeFixedDigital_def)
  from mic_queue_refines [OF i _ good st] s(3) have q: "mic_queue s' = mic_queue s \<and> length (mic_queue s') \<le> 2" by (auto simp: deficit_limit_def)
  show ?thesis by (rule exI [of _ s], rule exI [of _ s'], rule exI [of _ r]) (use s(1) st q in blast)
qed





end
