(* ===== verification/Gain_Control.thy ===== *)
theory Gain_Control
  imports Analog_Agc
begin

text \<open>
  The classes around the gain control: \<open>GainControlImpl\<close> with its inner class \<open>GainController\<close>
  (\<open>gain_control_impl.cc\<close>) and \<open>AudioProcessingImpl\<close> (\<open>audio_processing_impl.cc\<close>), which cuts a
  20 ms stream into two frames and runs the gain control on each. The memory that \<open>malloc\<close> and
  \<open>new\<close> return is an argument of the operations that allocate. The theorems show for which call
  sequences the objects stay well formed and what a stream returns.
\<close>

section \<open>Errors and modes\<close>

definition kNoError :: int where "kNoError = 0"

definition kUnspecifiedError :: int where "kUnspecifiedError = -1"

definition kUnsupportedFunctionError :: int where "kUnsupportedFunctionError = -4"

definition kNullPointerError :: int where "kNullPointerError = -5"

definition kBadParameterError :: int where "kBadParameterError = -6"

definition kNotEnabledError :: int where "kNotEnabledError = -12"

lemmas error_defs = kNoError_def kUnspecifiedError_def kUnsupportedFunctionError_def kNullPointerError_def
  kBadParameterError_def kNotEnabledError_def

text \<open>A value of the enumeration type that is none of its enumerators is \<open>OtherMode\<close>.\<close>

datatype Mode = kAdaptiveAnalog | kAdaptiveDigital | kFixedDigital | OtherMode

fun MapSetting :: "Mode \<Rightarrow> int" where
  "MapSetting kAdaptiveAnalog = kAgcModeAdaptiveAnalog"
| "MapSetting kAdaptiveDigital = kAgcModeAdaptiveDigital"
| "MapSetting kFixedDigital = kAgcModeFixedDigital"
| "MapSetting OtherMode = -1"

section \<open>One controller\<close>

record GainController =
  ctl_state :: "LegacyAgc option"
  ctl_capture_level :: int

text \<open>The block that \<open>malloc\<close> returns, and the old contents of the object that \<open>new\<close> allocates.\<close>

type_synonym fresh_memory = "LegacyAgc option \<times> int"

definition GainController_new :: "fresh_memory \<Rightarrow> GainController option" where
  "GainController_new mem = do {
     s \<leftarrow> WebRtcAgc_Create (fst mem);
     Some \<lparr>ctl_state = Some s, ctl_capture_level = snd mem\<rparr>
   }"

definition set_capture_level :: "GainController \<Rightarrow> int \<Rightarrow> GainController" where
  "set_capture_level c level = c\<lparr>ctl_capture_level := level\<rparr>"

definition get_capture_level :: "GainController \<Rightarrow> int" where
  "get_capture_level c = ctl_capture_level c"

definition GainController_Initialize :: "GainController \<Rightarrow> int \<Rightarrow> int \<Rightarrow> Mode \<Rightarrow> int \<Rightarrow> int \<Rightarrow> GainController option" where
  "GainController_Initialize c minimum_capture_level maximum_capture_level mode sample_rate_hz capture_level =
     (case ctl_state c of
        None \<Rightarrow> Some c
      | Some s \<Rightarrow> do {
          (s, error) \<leftarrow> WebRtcAgc_Init s minimum_capture_level maximum_capture_level (MapSetting mode) (u32 sample_rate_hz);
          Some (set_capture_level (c\<lparr>ctl_state := Some s\<rparr>) capture_level)
        })"

section \<open>The gain control\<close>

text \<open>The constructor leaves \<open>gain_controller_\<close> uninitialised: \<open>None\<close>, and every use of it is undefined.\<close>

record GainControlImpl =
  gc_enabled :: bool
  gc_mode :: Mode
  gc_minimum_capture_level :: int
  gc_maximum_capture_level :: int
  gc_limiter_enabled :: bool
  gc_target_level_dbfs :: int
  gc_compression_gain_db :: int
  gc_analog_capture_level :: int
  gc_was_analog_level_set :: bool
  gc_stream_is_saturated :: bool
  gc_gain_controller :: "GainController option"
  gc_num_proc_channels :: nat
  gc_sample_rate_hz :: int

text \<open>The last two members keep the old contents of the memory.\<close>

definition GainControlImpl_new :: "nat \<Rightarrow> int \<Rightarrow> GainControlImpl" where
  "GainControlImpl_new channels rate =
     \<lparr>gc_enabled = False, gc_mode = kFixedDigital, gc_minimum_capture_level = 0, gc_maximum_capture_level = 255,
      gc_limiter_enabled = True, gc_target_level_dbfs = 2, gc_compression_gain_db = 9, gc_analog_capture_level = 0,
      gc_was_analog_level_set = False, gc_stream_is_saturated = False, gc_gain_controller = None,
      gc_num_proc_channels = channels, gc_sample_rate_hz = rate\<rparr>"

text \<open>The destructor: deleting the uninitialised pointer is undefined.\<close>

definition GainControlImpl_delete :: "GainControlImpl \<Rightarrow> unit option" where
  "GainControlImpl_delete g = (case gc_gain_controller g of None \<Rightarrow> None | Some c \<Rightarrow> Some ())"

definition gc_config :: "GainControlImpl \<Rightarrow> WebRtcAgcConfig" where
  "gc_config g = \<lparr>cfg_targetLevelDbfs = s16 (gc_target_level_dbfs g),
     cfg_compressionGaindB = s16 (gc_compression_gain_db g),
     cfg_limiterEnable = (if gc_limiter_enabled g then 1 else 0)\<rparr>"

definition Configure :: "GainControlImpl \<Rightarrow> (GainControlImpl \<times> int) option" where
  "Configure g = do {
     c \<leftarrow> gc_gain_controller g;
     (inst, handle_error) \<leftarrow> WebRtcAgc_set_config (ctl_state c) (gc_config g);
     Some (g\<lparr>gc_gain_controller := Some (c\<lparr>ctl_state := inst\<rparr>)\<rparr>,
           if handle_error \<noteq> kNoError then handle_error else kNoError)
   }"

definition Initialize :: "fresh_memory \<Rightarrow> GainControlImpl \<Rightarrow> nat \<Rightarrow> int \<Rightarrow> GainControlImpl option" where
  "Initialize mem g num_proc_channels sample_rate_hz = do {
     let g = g\<lparr>gc_num_proc_channels := num_proc_channels, gc_sample_rate_hz := sample_rate_hz\<rparr>;
     (if \<not> gc_enabled g then Some g
      else do {
        c \<leftarrow> GainController_new mem;
        c \<leftarrow> GainController_Initialize c (gc_minimum_capture_level g) (gc_maximum_capture_level g) (gc_mode g)
               (gc_sample_rate_hz g) (gc_analog_capture_level g);
        (g, error) \<leftarrow> Configure (g\<lparr>gc_gain_controller := Some c\<rparr>);
        Some g
      })
   }"

section \<open>Settings\<close>

definition set_stream_analog_level :: "GainControlImpl \<Rightarrow> int \<Rightarrow> GainControlImpl \<times> int" where
  "set_stream_analog_level g level =
     (let g = g\<lparr>gc_was_analog_level_set := True\<rparr> in
      if level < gc_minimum_capture_level g \<or> level > gc_maximum_capture_level g then (g, kBadParameterError)
      else (g\<lparr>gc_analog_capture_level := level\<rparr>, kNoError))"

definition stream_analog_level :: "GainControlImpl \<Rightarrow> int" where
  "stream_analog_level g = gc_analog_capture_level g"

definition Enable :: "fresh_memory \<Rightarrow> GainControlImpl \<Rightarrow> bool \<Rightarrow> (GainControlImpl \<times> int) option" where
  "Enable mem g enable =
     (if enable \<and> \<not> gc_enabled g then do {
        g \<leftarrow> Initialize mem (g\<lparr>gc_enabled := enable\<rparr>) (gc_num_proc_channels g) (gc_sample_rate_hz g);
        Some (g, kNoError)
      } else Some (g\<lparr>gc_enabled := enable\<rparr>, kNoError))"

definition set_mode :: "fresh_memory \<Rightarrow> GainControlImpl \<Rightarrow> Mode \<Rightarrow> (GainControlImpl \<times> int) option" where
  "set_mode mem g mode =
     (if MapSetting mode = -1 then Some (g, kBadParameterError)
      else do {
        g \<leftarrow> Initialize mem (g\<lparr>gc_mode := mode\<rparr>) (gc_num_proc_channels g) (gc_sample_rate_hz g);
        Some (g, kNoError)
      })"

definition set_analog_level_limits :: "fresh_memory \<Rightarrow> GainControlImpl \<Rightarrow> int \<Rightarrow> int \<Rightarrow> (GainControlImpl \<times> int) option" where
  "set_analog_level_limits mem g minimum maximum =
     (if minimum < 0 then Some (g, kBadParameterError)
      else if maximum < 0 then Some (g, kBadParameterError)
      else if maximum < minimum then Some (g, kBadParameterError)
      else do {
        let g = g\<lparr>gc_minimum_capture_level := minimum, gc_maximum_capture_level := maximum\<rparr>;
        g \<leftarrow> Initialize mem g (gc_num_proc_channels g) (gc_sample_rate_hz g);
        Some (g, kNoError)
      })"

definition set_target_level_dbfs :: "GainControlImpl \<Rightarrow> int \<Rightarrow> (GainControlImpl \<times> int) option" where
  "set_target_level_dbfs g level =
     (if level > 31 \<or> level < 0 then Some (g, kBadParameterError)
      else Configure (g\<lparr>gc_target_level_dbfs := level\<rparr>))"

definition set_compression_gain_db :: "GainControlImpl \<Rightarrow> int \<Rightarrow> (GainControlImpl \<times> int) option" where
  "set_compression_gain_db g gain' =
     (if gain' < 0 \<or> gain' > 90 then Some (g, kBadParameterError)
      else Configure (g\<lparr>gc_compression_gain_db := gain'\<rparr>))"

definition enable_limiter :: "GainControlImpl \<Rightarrow> bool \<Rightarrow> (GainControlImpl \<times> int) option" where
  "enable_limiter g enable = Configure (g\<lparr>gc_limiter_enabled := enable\<rparr>)"

text \<open>The getters.\<close>

definition compression_gain_db :: "GainControlImpl \<Rightarrow> int" where
  "compression_gain_db g = gc_compression_gain_db g"

definition is_enabled :: "GainControlImpl \<Rightarrow> bool" where
  "is_enabled g = gc_enabled g"

definition mode_of :: "GainControlImpl \<Rightarrow> Mode" where
  "mode_of g = gc_mode g"

definition analog_level_minimum :: "GainControlImpl \<Rightarrow> int" where
  "analog_level_minimum g = gc_minimum_capture_level g"

definition analog_level_maximum :: "GainControlImpl \<Rightarrow> int" where
  "analog_level_maximum g = gc_maximum_capture_level g"

definition stream_is_saturated :: "GainControlImpl \<Rightarrow> bool" where
  "stream_is_saturated g = gc_stream_is_saturated g"

definition target_level_dbfs :: "GainControlImpl \<Rightarrow> int" where
  "target_level_dbfs g = gc_target_level_dbfs g"

definition is_limiter_enabled :: "GainControlImpl \<Rightarrow> bool" where
  "is_limiter_enabled g = gc_limiter_enabled g"

section \<open>Audio\<close>

text \<open>\<open>audio\<close> is the 10 ms frame the pointer refers to; both operations work on it in place.\<close>

definition AnalyzeCaptureAudio :: "GainControlImpl \<Rightarrow> int list \<Rightarrow> (GainControlImpl \<times> int list \<times> int) option" where
  "AnalyzeCaptureAudio g audio =
     (if \<not> gc_enabled g then Some (g, audio, kNoError)
      else if gc_mode g = kAdaptiveDigital then do {
        c \<leftarrow> gc_gain_controller g;
        s \<leftarrow> ctl_state c;
        (s, bands, level_out, err) \<leftarrow> WebRtcAgc_VirtualMic s [audio] 1 80 0;
        audio \<leftarrow> rd bands 0;
        let g = g\<lparr>gc_gain_controller := Some (set_capture_level (c\<lparr>ctl_state := Some s\<rparr>) level_out)\<rparr>;
        Some (g, audio, if err \<noteq> kNoError then kUnspecifiedError else kNoError)
      }
      else if gc_mode g = kAdaptiveAnalog then Some (g, audio, kNotEnabledError)
      else Some (g, audio, kNoError))"

text \<open>The frame is input and output at once: the output band is the input band (\<open>None\<close>).\<close>

definition ProcessCaptureAudio :: "GainControlImpl \<Rightarrow> int list \<Rightarrow> (GainControlImpl \<times> int list \<times> int) option" where
  "ProcessCaptureAudio g audio =
     (if \<not> gc_enabled g then Some (g, audio, kNoError)
      else if gc_mode g = kAdaptiveAnalog then Some (g, audio, kUnsupportedFunctionError)
      else do {
        let g = g\<lparr>gc_stream_is_saturated := False\<rparr>;
        c \<leftarrow> gc_gain_controller g;
        (inst, bands, capture_level_out, saturation_warning, err) \<leftarrow>
          WebRtcAgc_Process (ctl_state c) [audio] 1 80 [None] (get_capture_level c) 0 0 0;
        audio \<leftarrow> rd bands 0;
        let c = c\<lparr>ctl_state := inst\<rparr>;
        (if err \<noteq> kNoError then Some (g\<lparr>gc_gain_controller := Some c\<rparr>, audio, kUnspecifiedError)
         else Some (g\<lparr>gc_gain_controller := Some (set_capture_level c capture_level_out),
                      gc_stream_is_saturated := (saturation_warning = 1)\<rparr>, audio, kNoError))
      })"

section \<open>The processing module\<close>

text \<open>
  \<open>average_state_\<close> belongs to \<open>RemoveDCBias\<close>, which nothing calls; the module is its gain control.
\<close>

record AudioProcessingImpl =
  apm_gain_control :: GainControlImpl

definition AudioProcessing_Create :: "fresh_memory \<Rightarrow> nat \<Rightarrow> int \<Rightarrow> AudioProcessingImpl option" where
  "AudioProcessing_Create mem channels rate = do {
     g \<leftarrow> Initialize mem (GainControlImpl_new channels rate) 1 8000;
     Some \<lparr>apm_gain_control = g\<rparr>
   }"

definition AudioProcessing_Destory :: "AudioProcessingImpl option \<Rightarrow> unit option" where
  "AudioProcessing_Destory audio_processing =
     (case audio_processing of None \<Rightarrow> Some () | Some a \<Rightarrow> GainControlImpl_delete (apm_gain_control a))"

text \<open>One pass of the loop: the frame at \<open>data + i * 80\<close>.\<close>

definition stream_frame :: "GainControlImpl \<Rightarrow> int list \<Rightarrow> (GainControlImpl \<times> int list \<times> int) option" where
  "stream_frame g audio = do {
     (g, audio, error) \<leftarrow> AnalyzeCaptureAudio g audio;
     (if error \<noteq> kNoError then Some (g, audio, error) else ProcessCaptureAudio g audio)
   }"

fun stream_loop :: "nat \<Rightarrow> nat \<Rightarrow> GainControlImpl \<Rightarrow> int list \<Rightarrow> (GainControlImpl \<times> int list \<times> int) option" where
  "stream_loop 0 i g data = Some (g, data, kNoError)"
| "stream_loop (Suc n) i g data = do {
     (g, audio, error) \<leftarrow> stream_frame g (take 80 (drop (i * 80) data));
     let data = take (i * 80) data @ audio @ drop (i * 80 + 80) data;
     (if error \<noteq> kNoError then Some (g, data, error) else stream_loop n (Suc i) g data)
   }"

definition ProcessStream :: "AudioProcessingImpl \<Rightarrow> int list option \<Rightarrow> int \<Rightarrow> (AudioProcessingImpl \<times> int list option \<times> int) option" where
  "ProcessStream a data num_frames =
     (case data of
        None \<Rightarrow> Some (a, None, kNullPointerError)
      | Some d \<Rightarrow>
          if num_frames \<noteq> 160 then Some (a, Some d, kBadParameterError)
          else do {
            (g, d, error) \<leftarrow> stream_loop 2 0 (apm_gain_control a) d;
            Some (a\<lparr>apm_gain_control := g\<rparr>, Some d, error)
          })"

section \<open>Buffers keep their sizes\<close>

text \<open>Whatever the audio operations write, they write inside the bands they were given.\<close>

lemma foldM_keeps:
  assumes "\<And>x s s'. f x s = Some s' \<Longrightarrow> h s' = h s"
  shows "foldM f xs s = Some s' \<Longrightarrow> h s' = h s"
proof (induction xs arbitrary: s)
  case (Cons x xs)
  then obtain t where "f x s = Some t" "foldM f xs t = Some s'" by (auto split: bind_splits)
  with Cons.IH [of t] assms show ?case by simp
qed simp

lemma wr_length: "wr xs i v = Some ys \<Longrightarrow> length ys = length xs"
  by (auto simp: wr_def split: if_splits)

lemma wr2_lengths: "wr2 m j i v = Some m' \<Longrightarrow> map length m' = map length m"
  by (auto simp: wr2_def rd_def wr_def map_update list_update_same_conv split: bind_splits if_splits)

lemma addmic_gain_lengths:
  assumes "addmic_gain gn m nb n = Some m'"
  shows "map length m' = map length m"
  by (rule foldM_keeps [where h = "map length", OF _ assms [unfolded addmic_gain_def]], rule foldM_keeps [where h = "map length"])
    (auto dest: wr2_lengths split: bind_splits)

lemma AddMic_lengths:
  assumes "WebRtcAgc_AddMic s m nb n = Some (s', m', r)"
  shows "map length m' = map length m"
  using assms addmic_gain_lengths
  by (auto simp: WebRtcAgc_AddMic_def addmic_digital_gain_def Let_def split: if_splits bind_splits option.splits prod.splits)

lemma virtual_loop_lengths:
  assumes "virtual_loop nb n (i, g, m) = Some (i', g', m')"
  shows "map length m' = map length m"
proof -
  have inner: "map length m' = map length m" if "foldM (\<lambda>j m. do { x \<leftarrow> rd2 m (int j) (int ii); y \<leftarrow> virtual_band_sample gn x;
      wr2 m (int j) (int ii) y }) js m = Some m'" for js ii gn m m'
    by (rule foldM_keeps [where h = "map length", OF _ that]) (auto dest: wr2_lengths split: bind_splits)
  have "map length (snd (snd (i', g', m'))) = map length (snd (snd (i, g, m)))"
    by (rule foldM_keeps [where h = "\<lambda>r. map length (snd (snd r))", OF _ assms [unfolded virtual_loop_def]])
      (auto dest!: wr2_lengths inner split: bind_splits prod.splits)
  then show ?thesis by simp
qed

lemma VirtualMic_lengths:
  assumes "WebRtcAgc_VirtualMic s m nb n l = Some (s', m', out, r)"
  shows "map length m' = map length m"
  using assms
  by (auto simp: WebRtcAgc_VirtualMic_def Let_def dest!: virtual_loop_lengths AddMic_lengths split: bind_splits prod.splits)

lemma apply_bands_lengths: "apply_bands f pos out = Some out' \<Longrightarrow> map length out' = map length out"
  unfolding apply_bands_def
  by (induction out arbitrary: out') (auto dest: wr_length split: bind_splits)

lemma apply_subframe_lengths:
  assumes "apply_subframe f L L2 gains k out = Some out'"
  shows "map length out' = map length out"
proof -
  obtain G D r where "foldM (\<lambda>n (gain32, out). do { out \<leftarrow> apply_bands (f gain32) (k * L + n) out; gain32 \<leftarrow> chk32 (gain32 + D);
      Some (gain32, out) }) [0..<L] (G, out) = Some r" "snd r = out'"
    using assms by (auto simp: apply_subframe_def split: bind_splits)
  moreover from this(1) have "map length (snd r) = map length (snd (G, out))"
    by (rule foldM_keeps [rotated]) (auto dest!: apply_bands_lengths split: bind_splits prod.splits)
  ultimately show ?thesis by simp
qed

lemma digital_apply_lengths:
  assumes "digital_apply L L2 gains out = Some out'"
  shows "map length out' = map length out"
proof -
  obtain t where t: "apply_subframe gain_sample_first L L2 gains 0 out = Some t" "foldM (apply_subframe gain_sample L L2 gains) [1..<10] t = Some out'"
    using assms by (auto simp: digital_apply_def split: bind_splits)
  have "map length out' = map length t" by (rule foldM_keeps [OF _ t(2)]) (rule apply_subframe_lengths)
  with apply_subframe_lengths [OF t(1)] show ?thesis by simp
qed

lemma ProcessDigital_in_place:
  assumes "WebRtcAgc_ProcessDigital s [x] 1 [None] FS low = Some (s', bands, r)"
  shows "map length bands = [length x]"
proof (cases "digital_rate FS")
  case None
  with assms show ?thesis by (auto simp: WebRtcAgc_ProcessDigital_def out_contents_def)
next
  case (Some p)
  obtain L L2 where p: "p = (L, L2)" by (cases p)
  have "digital_copy L [x] 1 [None] = Some [x]" by (simp add: digital_copy_def rd_def)
  with assms Some p show ?thesis
    by (auto simp: WebRtcAgc_ProcessDigital_def Let_def dest!: digital_apply_lengths split: bind_splits prod.splits)
qed

lemma Process_in_place:
  assumes "WebRtcAgc_Process inst [x] 1 n [None] l o0 echo w0 = Some (inst', bands, l', w, r)"
  shows "map length bands = [length x]"
  using assms
  by (auto simp: WebRtcAgc_Process_def Let_def out_contents_def dest!: ProcessDigital_in_place [simplified] split: bind_splits prod.splits option.splits if_splits)

section \<open>Well-formed objects\<close>

text \<open>A controller that can be configured, and one that can process frames in a mode.\<close>

definition ctl_live :: "GainController \<Rightarrow> bool" where
  "ctl_live c \<longleftrightarrow> (\<exists>s. ctl_state c = Some s \<and> initFlag s = kInitCheck \<and> length (gainTable (digitalAgc s)) = 32)"

definition ctl_ok :: "Mode \<Rightarrow> GainController \<Rightarrow> bool" where
  "ctl_ok m c \<longleftrightarrow> (\<exists>s. ctl_state c = Some s \<and> agc_inv s \<and> stt_agcMode s = MapSetting m \<and> fs s = 8000
    \<and> (m = kAdaptiveDigital \<longrightarrow> minLevel s = 0 \<and> maxAnalog s = 255 \<and> minOutput s \<le> 127))"

definition ctl_deficit :: "GainController \<Rightarrow> int" where
  "ctl_deficit c = (case ctl_state c of None \<Rightarrow> 0 | Some s \<Rightarrow> energy_deficit s)"

definition settings_ok :: "GainControlImpl \<Rightarrow> bool" where
  "settings_ok g \<longleftrightarrow> gc_mode g \<noteq> OtherMode \<and> 0 \<le> gc_minimum_capture_level g
    \<and> gc_minimum_capture_level g + 42 \<le> gc_maximum_capture_level g \<and> gc_maximum_capture_level g \<le> 65535
    \<and> 0 \<le> gc_target_level_dbfs g \<and> gc_target_level_dbfs g \<le> 31
    \<and> 0 \<le> gc_compression_gain_db g \<and> gc_compression_gain_db g \<le> 18 \<and> gc_sample_rate_hz g = 8000"

definition gc_inv :: "GainControlImpl \<Rightarrow> bool" where
  "gc_inv g \<longleftrightarrow> settings_ok g \<and> (case gc_gain_controller g of None \<Rightarrow> \<not> gc_enabled g
     | Some c \<Rightarrow> ctl_live c \<and> (gc_enabled g \<longrightarrow> ctl_ok (gc_mode g) c))"

definition gc_deficit :: "GainControlImpl \<Rightarrow> int" where
  "gc_deficit g = (case gc_gain_controller g of None \<Rightarrow> 0 | Some c \<Rightarrow> if gc_enabled g then ctl_deficit c else 0)"

lemma agc_inv_table: "agc_inv s \<Longrightarrow> initFlag s = kInitCheck \<and> length (gainTable (digitalAgc s)) = 32"
  by (simp add: agc_inv_def digital_inv_def table_ok_def)

lemma ctl_ok_live: "ctl_ok m c \<Longrightarrow> ctl_live c"
  using agc_inv_table by (auto simp: ctl_ok_def ctl_live_def)

lemma gc_config_safe:
  assumes "settings_ok g"
  shows "config_good (gc_config g)" "config_safe (MapSetting (gc_mode g)) (gc_config g)"
  using assms by (auto simp: settings_ok_def gc_config_def config_good_def config_safe_def s16_small)

lemma Configure_runs:
  assumes "settings_ok g" "gc_gain_controller g = Some c" "ctl_live c"
  shows "runs (Configure g) (\<lambda>(g', r). r = kNoError \<and> (\<exists>c'. g' = g\<lparr>gc_gain_controller := Some c'\<rparr> \<and> ctl_live c'
    \<and> ctl_deficit c' = ctl_deficit c \<and> (ctl_ok (gc_mode g) c \<longrightarrow> ctl_ok (gc_mode g) c')))"
proof -
  obtain s where s: "ctl_state c = Some s" "initFlag s = kInitCheck" "length (gainTable (digitalAgc s)) = 32"
    using assms(3) by (auto simp: ctl_live_def)
  let ?k = "gc_config g"
  obtain tab where set: "WebRtcAgc_set_config (Some s) ?k = Some (Some (configured s ?k tab), 0)" "length tab = 32"
    "config_safe (stt_agcMode s) ?k \<longrightarrow> table_ok tab"
    using set_config_runs [OF s(2) gc_config_safe(1) [OF assms(1)] s(3)] by (auto simp: runs_def)
  define c' where "c' = c\<lparr>ctl_state := Some (configured s ?k tab)\<rparr>"
  have run: "Configure g = Some (g\<lparr>gc_gain_controller := Some c'\<rparr>, kNoError)"
    using assms(2) s(1) set(1) by (simp add: Configure_def c'_def kNoError_def)
  have st: "ctl_state c' = Some (configured s ?k tab)" by (simp add: c'_def)
  have same: "initFlag (configured s ?k tab) = initFlag s" "gainTable (digitalAgc (configured s ?k tab)) = tab"
    "stt_agcMode (configured s ?k tab) = stt_agcMode s" "fs (configured s ?k tab) = fs s"
    "minLevel (configured s ?k tab) = minLevel s" "maxAnalog (configured s ?k tab) = maxAnalog s" "minOutput (configured s ?k tab) = minOutput s"
    by (simp_all add: configured_def)
  have "ctl_live c'" using s(2) set(2) same by (simp add: ctl_live_def st)
  moreover have "ctl_deficit c' = ctl_deficit c" by (simp add: ctl_deficit_def st s(1) configured_inv)
  moreover have "ctl_ok (gc_mode g) c'" if "ctl_ok (gc_mode g) c"
  proof -
    from that have o: "agc_inv s" "stt_agcMode s = MapSetting (gc_mode g)" "fs s = 8000"
      "gc_mode g = kAdaptiveDigital \<longrightarrow> minLevel s = 0 \<and> maxAnalog s = 255 \<and> minOutput s \<le> 127"
      using s(1) by (auto simp: ctl_ok_def)
    with set(3) gc_config_safe(2) [OF assms(1)] have "table_ok tab" by simp
    with o(1) have "agc_inv (configured s ?k tab)" by (simp add: agc_inv_def configured_inv same)
    with o show ?thesis by (simp add: ctl_ok_def st same)
  qed
  ultimately show ?thesis unfolding run by (auto simp: runs_Some)
qed

lemma mode_range: "m \<noteq> OtherMode \<Longrightarrow> 0 \<le> MapSetting m \<and> MapSetting m \<le> 3 \<and> (MapSetting m = kAgcModeAdaptiveDigital \<longleftrightarrow> m = kAdaptiveDigital)"
  by (cases m) (simp_all add: kAgcModeAdaptiveAnalog_def kAgcModeAdaptiveDigital_def kAgcModeFixedDigital_def)

lemma GainController_Initialize_runs:
  assumes "legacy_shape s" "m \<noteq> OtherMode" "0 \<le> lo" "lo + 42 \<le> hi" "hi \<le> 65535"
  shows "runs (do { c \<leftarrow> GainController_new (Some s, v); GainController_Initialize c lo hi m 8000 l })
    (\<lambda>c. ctl_ok m c \<and> ctl_deficit c = 0 \<and> get_capture_level c = l)"
proof -
  have sh: "legacy_shape (s\<lparr>initFlag := 0, lastError := 0\<rparr>)" using assms(1) by (simp add: legacy_shape_def)
  have m: "0 \<le> MapSetting m" "MapSetting m \<le> 3" "MapSetting m = kAgcModeAdaptiveDigital \<longleftrightarrow> m = kAdaptiveDigital"
    using mode_range [OF assms(2)] by blast+
  have u: "u32 8000 = 8000" by (simp add: u32_id in_u32_def)
  obtain s' where s': "WebRtcAgc_Init (s\<lparr>initFlag := 0, lastError := 0\<rparr>) lo hi (MapSetting m) 8000 = Some (s', 0)" "agc_inv s'"
    "energy_deficit s' = 0" "stt_agcMode s' = MapSetting m" "fs s' = 8000"
    "MapSetting m = kAgcModeAdaptiveDigital \<longrightarrow> minLevel s' = 0 \<and> maxAnalog s' = 255 \<and> minOutput s' \<le> 127"
    by (rule Init_post [OF sh assms(3-5) m(1,2), of 8000]) blast
  then show ?thesis
    using m(3) u by (simp add: GainController_new_def WebRtcAgc_Create_def GainController_Initialize_def set_capture_level_def runs_Some
        ctl_ok_def ctl_deficit_def get_capture_level_def)
qed

lemma Initialize_runs:
  assumes "settings_ok g" "legacy_shape s" "gc_enabled g \<or> gc_inv g"
  shows "runs (Initialize (Some s, v) g n 8000) (\<lambda>g'. gc_inv g' \<and> gc_deficit g' = 0 \<and> gc_enabled g' = gc_enabled g \<and> gc_mode g' = gc_mode g)"
proof (cases "gc_enabled g")
  case False
  with assms have "gc_inv g" by simp
  with False show ?thesis
    by (auto simp: Initialize_def runs_Some gc_inv_def gc_deficit_def settings_ok_def split: option.splits)
next
  case True
  define h where "h = g\<lparr>gc_num_proc_channels := n, gc_sample_rate_hz := 8000\<rparr>"
  have h: "settings_ok h" "gc_enabled h" "gc_mode h = gc_mode g" "gc_sample_rate_hz h = 8000" using assms(1) True by (simp_all add: h_def settings_ok_def)
  obtain c0 c where c: "GainController_new (Some s, v) = Some c0"
    "GainController_Initialize c0 (gc_minimum_capture_level h) (gc_maximum_capture_level h) (gc_mode h) 8000 (gc_analog_capture_level h) = Some c"
    "ctl_ok (gc_mode h) c" "ctl_deficit c = 0"
    using GainController_Initialize_runs [OF assms(2), of "gc_mode h" "gc_minimum_capture_level h" "gc_maximum_capture_level h" v "gc_analog_capture_level h"] h(1)
    by (auto simp: settings_ok_def runs_def split: bind_splits)
  have hc: "settings_ok (h\<lparr>gc_gain_controller := Some c\<rparr>)" using h(1) by (simp add: settings_ok_def)
  obtain c' where conf: "Configure (h\<lparr>gc_gain_controller := Some c\<rparr>) = Some (h\<lparr>gc_gain_controller := Some c'\<rparr>, kNoError)"
    "ctl_live c'" "ctl_deficit c' = ctl_deficit c" "ctl_ok (gc_mode h) c'"
    using Configure_runs [OF hc _ ctl_ok_live [OF c(3)]] c(3) by (auto simp: runs_def)
  have "Initialize (Some s, v) g n 8000 = Some (h\<lparr>gc_gain_controller := Some c'\<rparr>)"
    using c(1,2) conf(1) h(2,4) by (simp add: Initialize_def h_def [symmetric])
  with conf c(4) h True show ?thesis by (simp add: runs_Some gc_inv_def gc_deficit_def settings_ok_def)
qed

section \<open>One frame\<close>

definition frame16 :: "nat \<Rightarrow> int list \<Rightarrow> bool" where
  "frame16 n x \<longleftrightarrow> length x = n \<and> (\<forall>v \<in> set x. in_s16 v)"

lemma virtual_keeps:
  assumes "agc_inv s" "minOutput s \<le> 127" "input_inv s'" "vol = 127 \<or> vol = micVol s"
    and "s' = s\<lparr>lowLevelSignal := ll, micRef := rf, micVol := vol, micGainIdx := gi, gainTableIdx := k, env := e, filterState := f,
      Rxx16w32_array := w, inQueue := q, vadMic := v\<rparr>"
  shows "agc_inv s' \<and> energy_deficit s' = energy_deficit s \<and> stt_agcMode s' = stt_agcMode s \<and> fs s' = fs s
    \<and> minLevel s' = minLevel s \<and> maxAnalog s' = maxAnalog s \<and> minOutput s' = minOutput s \<and> digitalAgc s' = digitalAgc s"
proof -
  have "control_inv s" "digital_inv (digitalAgc s)" "initFlag s = kInitCheck" using assms(1) by (simp_all add: agc_inv_def)
  moreover from this(1) assms(2,4) have "control_inv s'"
    unfolding assms(5) by (auto simp: control_inv_def ready_simps)
  ultimately show ?thesis using assms(3) by (simp add: agc_inv_def assms(5) energy_deficit_def)
qed

text \<open>The first half of a frame in the adaptive digital mode.\<close>

lemma Analyze_digital:
  assumes "gc_enabled g" "gc_mode g = kAdaptiveDigital" "gc_gain_controller g = Some c" "ctl_state c = Some s" "ctl_ok kAdaptiveDigital c"
    and "frame16 80 x"
  shows "\<exists>y. vad_frame 80 y \<and> (if WebRtcAgc_ProcessVad (vadMic s) y 80 = None then AnalyzeCaptureAudio g x = None
    else \<exists>c' s' x'. AnalyzeCaptureAudio g x = Some (g\<lparr>gc_gain_controller := Some c'\<rparr>, x', kNoError) \<and> ctl_ok kAdaptiveDigital c'
      \<and> ctl_state c' = Some s' \<and> digitalAgc s' = digitalAgc s \<and> ctl_deficit c' = ctl_deficit c \<and> frame16 80 x'
      \<and> 0 \<le> get_capture_level c' \<and> get_capture_level c' \<le> 255)"
proof -
  have s: "agc_inv s" "stt_agcMode s = kAgcModeAdaptiveDigital" "fs s = 8000" "minLevel s = 0" "maxAnalog s = 255" "minOutput s \<le> 127"
    using assms(4,5) by (auto simp: ctl_ok_def)
  have v: "virtual_ok s" "80 = 10 * addmic_length s" using s by (simp_all add: virtual_ok_def agc_inv_def addmic_length_def)
  have b: "bands_ok 80 [x]" using assms(6) by (simp add: bands_ok_def frame16_def)
  define P where "P s' m' out \<longleftrightarrow> virtual_ok s' \<and> length m' = 1 \<and> bands_ok 80 m' \<and> 0 \<le> out \<and> out \<le> 255 \<and> agc_inv s'
    \<and> energy_deficit s' = energy_deficit s \<and> stt_agcMode s' = stt_agcMode s \<and> fs s' = fs s \<and> minLevel s' = minLevel s
    \<and> maxAnalog s' = maxAnalog s \<and> minOutput s' = minOutput s \<and> digitalAgc s' = digitalAgc s" for s' m' and out :: int
  obtain y where y: "vad_frame 80 y" "WebRtcAgc_ProcessVad (vadMic s) y 80 = None \<longrightarrow> WebRtcAgc_VirtualMic s [x] 1 80 0 = None"
    "WebRtcAgc_ProcessVad (vadMic s) y 80 \<noteq> None \<longrightarrow> (\<exists>s' m' out. WebRtcAgc_VirtualMic s [x] 1 80 0 = Some (s', m', out, 0) \<and> P s' m' out)"
  proof -
    define R where "R = (\<lambda>(s', m', out, r). r = (0::int) \<and> virtual_ok s' \<and> length m' = length [x] \<and> bands_ok 80 m' \<and> 0 \<le> out \<and> out \<le> 255
      \<and> micRef s' = 0 \<and> (0 \<noteq> micRef s \<longrightarrow> micVol s' = 127)
      \<and> (0 = micRef s \<longrightarrow> micVol s' = micVol s \<and> min (micVol s) 126 \<le> out \<and> out \<le> micVol s)
      \<and> (\<exists>ll rf vol gi k e f w q v. s' = s\<lparr>lowLevelSignal := ll, micRef := rf, micVol := vol, micGainIdx := gi,
            gainTableIdx := k, env := e, filterState := f, Rxx16w32_array := w, inQueue := q, vadMic := v\<rparr>))"
    have "\<exists>s' m' out. WebRtcAgc_VirtualMic s [x] 1 80 0 = Some (s', m', out, 0) \<and> P s' m' out" if "runs (WebRtcAgc_VirtualMic s [x] 1 80 0) R"
    proof -
      from that obtain z where z: "WebRtcAgc_VirtualMic s [x] 1 80 0 = Some z" "R z" unfolding runs_def by blast
      obtain s' m' out r where e: "z = (s', m', out, r)" by (cases z)
      from z(2) have r: "r = 0" "virtual_ok s'" "length m' = length [x]" "bands_ok 80 m'" "0 \<le> out" "out \<le> 255"
        "micVol s' = 127 \<or> micVol s' = micVol s"
        "\<exists>ll rf vol gi k e f w q v. s' = s\<lparr>lowLevelSignal := ll, micRef := rf, micVol := vol, micGainIdx := gi,
            gainTableIdx := k, env := e, filterState := f, Rxx16w32_array := w, inQueue := q, vadMic := v\<rparr>"
        unfolding R_def e prod.case by blast+
      from r(8) obtain ll rf vol gi k e' f w q v where s': "s' = s\<lparr>lowLevelSignal := ll, micRef := rf, micVol := vol, micGainIdx := gi,
            gainTableIdx := k, env := e', filterState := f, Rxx16w32_array := w, inQueue := q, vadMic := v\<rparr>" by blast
      have "micVol s' = vol" by (simp add: s')
      with r(7) have vol: "vol = 127 \<or> vol = micVol s" by simp
      have "input_inv s'" using r(2) by (simp add: virtual_ok_def)
      from virtual_keeps [OF s(1,6) this vol s'] r have "P s' m' out" unfolding P_def by simp
      with z(1) r(1) e show ?thesis by blast
    qed
    moreover obtain y where y: "vad_frame 80 y" "if WebRtcAgc_ProcessVad (vadMic s) y 80 = None then WebRtcAgc_VirtualMic s [x] 1 80 0 = None
        else runs (WebRtcAgc_VirtualMic s [x] 1 80 0) R"
      using VirtualMic_cases [OF v b, of 1 0, folded R_def] by auto
    ultimately show thesis using that [OF y(1)] by presburger
  qed
  have none: "AnalyzeCaptureAudio g x = None" if "WebRtcAgc_VirtualMic s [x] 1 80 0 = None"
    using that assms(1-4) by (simp add: AnalyzeCaptureAudio_def)
  have some: "\<exists>c' s' x'. AnalyzeCaptureAudio g x = Some (g\<lparr>gc_gain_controller := Some c'\<rparr>, x', kNoError) \<and> ctl_ok kAdaptiveDigital c'
      \<and> ctl_state c' = Some s' \<and> digitalAgc s' = digitalAgc s \<and> ctl_deficit c' = ctl_deficit c \<and> frame16 80 x'
      \<and> 0 \<le> get_capture_level c' \<and> get_capture_level c' \<le> 255"
    if r: "WebRtcAgc_VirtualMic s [x] 1 80 0 = Some (s', m', out, 0)" "P s' m' out" for s' m' out
  proof -
    obtain x' where x': "m' = [x']" using r(2) by (auto simp: P_def length_Suc_conv)
    define c' where "c' = set_capture_level (c\<lparr>ctl_state := Some s'\<rparr>) out"
    have "AnalyzeCaptureAudio g x = Some (g\<lparr>gc_gain_controller := Some c'\<rparr>, x', kNoError)"
      using r(1) assms(1-4) x' by (simp add: AnalyzeCaptureAudio_def c'_def kNoError_def rd_def)
    moreover have "ctl_ok kAdaptiveDigital c'" "ctl_state c' = Some s'" "ctl_deficit c' = ctl_deficit c" "get_capture_level c' = out"
      using r(2) s assms(4) by (simp_all add: P_def c'_def set_capture_level_def ctl_ok_def ctl_deficit_def get_capture_level_def)
    moreover have "frame16 80 x'" using r(2) VirtualMic_lengths [OF r(1)] assms(6) x' by (simp add: P_def frame16_def bands_ok_def)
    ultimately show ?thesis using r(2) by (auto simp: P_def)
  qed
  show ?thesis using y none some by (intro exI [of _ y]) auto
qed


text \<open>The second half of a frame in the two digital modes.\<close>

lemma Process_digital:
  assumes g: "gc_enabled g" "gc_mode g = kAdaptiveDigital \<or> gc_mode g = kFixedDigital" "gc_gain_controller g = Some c" "ctl_state c = Some s"
      "ctl_ok (gc_mode g) c" and d: "ctl_deficit c \<le> deficit_limit" and x: "frame16 80 x"
    and l: "gc_mode g = kAdaptiveDigital \<longrightarrow> 0 \<le> get_capture_level c \<and> get_capture_level c \<le> 255"
  shows "\<exists>y. vad_frame 80 y \<and> (if WebRtcAgc_ProcessVad (vadNearend (digitalAgc s)) y 80 = None then ProcessCaptureAudio g x = None
    else \<exists>c' b x'. ProcessCaptureAudio g x = Some (g\<lparr>gc_gain_controller := Some c', gc_stream_is_saturated := b\<rparr>, x', kNoError)
      \<and> ctl_ok (gc_mode g) c' \<and> ctl_deficit c' \<le> ctl_deficit c + 35 \<and> frame16 80 x')"
proof -
  have s: "agc_inv s" "stt_agcMode s = MapSetting (gc_mode g)" "fs s = 8000"
    "gc_mode g = kAdaptiveDigital \<longrightarrow> minLevel s = 0 \<and> maxAnalog s = 255 \<and> minOutput s \<le> 127"
    using g(4,5) by (auto simp: ctl_ok_def)
  have rate: "process_rate_ok s 80" using s(3) by (simp add: process_rate_ok_def)
  have fr: "frame_ok 80 [x] 1 [None]" using x by (simp add: frame_ok_def frame16_def bands_ok_def)
  have lev: "process_uses_analog s \<longrightarrow> minLevel s \<le> get_capture_level c \<and> get_capture_level c \<le> maxAnalog s"
    using g(2) s(2,4) l by (auto simp: process_uses_analog_def)
  have d': "energy_deficit s \<le> deficit_limit" using d g(4) by (simp add: ctl_deficit_def)
  let ?run = "WebRtcAgc_Process (Some s) [x] 1 80 [None] (get_capture_level c) 0 0 0"
  obtain y where y: "vad_frame 80 y" "WebRtcAgc_ProcessVad (vadNearend (digitalAgc s)) y 80 = None \<longrightarrow> ?run = None"
    "WebRtcAgc_ProcessVad (vadNearend (digitalAgc s)) y 80 \<noteq> None \<longrightarrow> (\<exists>s' bands l' w. ?run = Some (Some s', bands, l', w, 0)
      \<and> length bands = 1 \<and> bands_ok 80 bands \<and> agc_inv s' \<and> energy_deficit s' \<le> energy_deficit s + 35 \<and> fs s' = fs s
      \<and> stt_agcMode s' = stt_agcMode s \<and> minLevel s' = minLevel s \<and> maxAnalog s' = maxAnalog s \<and> minOutput s' = minOutput s)"
  proof -
    define R where "R = (\<lambda>(inst, bands, level, w :: int, r). r = (0::int) \<and> length bands = 1 \<and> bands_ok 80 bands
      \<and> (minLevel s \<le> get_capture_level c \<and> get_capture_level c \<le> maxAnalog s \<longrightarrow> minLevel s \<le> level \<and> level \<le> maxAnalog s)
      \<and> (\<exists>s'. inst = Some s' \<and> agc_inv s' \<and> energy_deficit s' \<le> energy_deficit s + 35 \<and> mic_queue s' = tl (mic_queue s)
          \<and> fs s' = fs s \<and> stt_agcMode s' = stt_agcMode s \<and> minLevel s' = minLevel s \<and> maxAnalog s' = maxAnalog s
          \<and> minOutput s' = minOutput s
          \<and> (0 = (1::int) \<and> firstCall s \<noteq> 0 \<and> get_capture_level c = min (micVol s) (maxAnalog s) \<longrightarrow> micVol s' \<le> micVol s)))"
    obtain y where y: "vad_frame 80 y" "if WebRtcAgc_ProcessVad (vadNearend (digitalAgc s)) y 80 = None then ?run = None else runs ?run R"
      using Process_cases [OF s(1) d' rate fr lev, of 0 0 0, folded R_def] by blast
    have "\<exists>s' bands l' w. ?run = Some (Some s', bands, l', w, 0)
      \<and> length bands = 1 \<and> bands_ok 80 bands \<and> agc_inv s' \<and> energy_deficit s' \<le> energy_deficit s + 35 \<and> fs s' = fs s
      \<and> stt_agcMode s' = stt_agcMode s \<and> minLevel s' = minLevel s \<and> maxAnalog s' = maxAnalog s \<and> minOutput s' = minOutput s" if "runs ?run R"
      using that unfolding runs_def R_def by fast
    with y show thesis using that [OF y(1)] by presburger
  qed
  have none: "ProcessCaptureAudio g x = None" if "?run = None"
    using that g by (auto simp: ProcessCaptureAudio_def)
  have some: "\<exists>c' b x'. ProcessCaptureAudio g x = Some (g\<lparr>gc_gain_controller := Some c', gc_stream_is_saturated := b\<rparr>, x', kNoError)
      \<and> ctl_ok (gc_mode g) c' \<and> ctl_deficit c' \<le> ctl_deficit c + 35 \<and> frame16 80 x'"
    if r: "?run = Some (Some s', bands, l', w, 0)" "length bands = 1" "bands_ok 80 bands" "agc_inv s'"
      "energy_deficit s' \<le> energy_deficit s + 35" "fs s' = fs s" "stt_agcMode s' = stt_agcMode s" "minLevel s' = minLevel s"
      "maxAnalog s' = maxAnalog s" "minOutput s' = minOutput s" for s' bands l' w
  proof -
    obtain x' where x': "bands = [x']" using r(2) by (auto simp: length_Suc_conv)
    define c' where "c' = set_capture_level (c\<lparr>ctl_state := Some s'\<rparr>) l'"
    have "ProcessCaptureAudio g x = Some (g\<lparr>gc_gain_controller := Some c', gc_stream_is_saturated := (w = 1)\<rparr>, x', kNoError)"
      using r(1) g x' by (auto simp: ProcessCaptureAudio_def c'_def kNoError_def rd_def)
    moreover have "ctl_ok (gc_mode g) c'" "ctl_deficit c' \<le> ctl_deficit c + 35"
      using r(4-10) s g(4) by (simp_all add: c'_def set_capture_level_def ctl_ok_def ctl_deficit_def)
    moreover have "frame16 80 x'" using r(3) Process_in_place [OF r(1)] x x' by (simp add: frame16_def bands_ok_def)
    ultimately show ?thesis by blast
  qed
  show ?thesis using y none some by (intro exI [of _ y]) (simp, blast)
qed

section \<open>One stream\<close>

definition digital_mode :: "GainControlImpl \<Rightarrow> bool" where
  "digital_mode g \<longleftrightarrow> gc_enabled g \<and> (gc_mode g = kAdaptiveDigital \<or> gc_mode g = kFixedDigital)"

text \<open>Partial correctness of a frame, for any setting.\<close>

lemma stream_frame_post:
  assumes g: "gc_inv g" "gc_deficit g \<le> deficit_limit" and x: "frame16 80 x" and run: "stream_frame g x = Some (g', x', r)"
  shows "gc_inv g' \<and> gc_deficit g' \<le> gc_deficit g + 35 \<and> frame16 80 x'
    \<and> r = (if gc_enabled g \<and> gc_mode g = kAdaptiveAnalog then kNotEnabledError else kNoError)
    \<and> gc_enabled g' = gc_enabled g \<and> gc_mode g' = gc_mode g \<and> (\<not> digital_mode g \<longrightarrow> g' = g \<and> x' = x)"
proof (cases "digital_mode g")
  case False
  moreover have "gc_mode g \<noteq> OtherMode" using g by (simp add: gc_inv_def settings_ok_def)
  ultimately have "\<not> gc_enabled g \<or> gc_mode g = kAdaptiveAnalog" by (cases "gc_mode g") (auto simp: digital_mode_def)
  with run False g x show ?thesis
    by (auto simp: stream_frame_def AnalyzeCaptureAudio_def ProcessCaptureAudio_def error_defs digital_mode_def split: if_splits)
next
  case True
  then have en: "gc_enabled g" and md: "gc_mode g = kAdaptiveDigital \<or> gc_mode g = kFixedDigital" by (simp_all add: digital_mode_def)
  obtain c where c: "gc_gain_controller g = Some c" "ctl_ok (gc_mode g) c" using g(1) en by (auto simp: gc_inv_def split: option.splits)
  obtain s where s: "ctl_state c = Some s" using c(2) by (auto simp: ctl_ok_def)
  have d: "gc_deficit g = ctl_deficit c" using c en by (simp add: gc_deficit_def)
  have sok: "settings_ok g" using g by (simp add: gc_inv_def)
  have ana: "\<exists>c1 s1 x1. AnalyzeCaptureAudio g x = Some (g\<lparr>gc_gain_controller := Some c1\<rparr>, x1, kNoError) \<and> ctl_ok (gc_mode g) c1
      \<and> ctl_state c1 = Some s1 \<and> ctl_deficit c1 = ctl_deficit c \<and> frame16 80 x1
      \<and> (gc_mode g = kAdaptiveDigital \<longrightarrow> 0 \<le> get_capture_level c1 \<and> get_capture_level c1 \<le> 255)"
  proof (cases "gc_mode g = kAdaptiveDigital")
    case True
    obtain y where "if WebRtcAgc_ProcessVad (vadMic s) y 80 = None then AnalyzeCaptureAudio g x = None
      else \<exists>c' s' x'. AnalyzeCaptureAudio g x = Some (g\<lparr>gc_gain_controller := Some c'\<rparr>, x', kNoError) \<and> ctl_ok kAdaptiveDigital c'
        \<and> ctl_state c' = Some s' \<and> digitalAgc s' = digitalAgc s \<and> ctl_deficit c' = ctl_deficit c \<and> frame16 80 x'
        \<and> 0 \<le> get_capture_level c' \<and> get_capture_level c' \<le> 255"
      using Analyze_digital [OF en True c(1) s c(2) [unfolded True] x] by blast
    moreover have "AnalyzeCaptureAudio g x \<noteq> None" using run by (cases "AnalyzeCaptureAudio g x") (simp_all add: stream_frame_def)
    ultimately show ?thesis using True by (auto split: if_splits)
  next
    case False
    have "g = g\<lparr>gc_gain_controller := Some c\<rparr>" using c(1) by simp
    moreover have "AnalyzeCaptureAudio g x = Some (g, x, kNoError)" using False md en by (simp add: AnalyzeCaptureAudio_def)
    ultimately show ?thesis using False c s x by metis
  qed
  then obtain c1 s1 x1 where a: "AnalyzeCaptureAudio g x = Some (g\<lparr>gc_gain_controller := Some c1\<rparr>, x1, kNoError)" "ctl_ok (gc_mode g) c1"
      "ctl_state c1 = Some s1" "ctl_deficit c1 = ctl_deficit c" "frame16 80 x1"
      "gc_mode g = kAdaptiveDigital \<longrightarrow> 0 \<le> get_capture_level c1 \<and> get_capture_level c1 \<le> 255" by blast
  let ?g = "g\<lparr>gc_gain_controller := Some c1\<rparr>"
  have p: "ProcessCaptureAudio ?g x1 = Some (g', x', r)" using run a(1) by (simp add: stream_frame_def)
  obtain y where "if WebRtcAgc_ProcessVad (vadNearend (digitalAgc s1)) y 80 = None then ProcessCaptureAudio ?g x1 = None
    else \<exists>c' b x'. ProcessCaptureAudio ?g x1 = Some (?g\<lparr>gc_gain_controller := Some c', gc_stream_is_saturated := b\<rparr>, x', kNoError)
      \<and> ctl_ok (gc_mode ?g) c' \<and> ctl_deficit c' \<le> ctl_deficit c1 + 35 \<and> frame16 80 x'"
    using Process_digital [of ?g c1 s1 x1] a md en d g(2) by auto
  with p obtain c' b where r: "g' = g\<lparr>gc_gain_controller := Some c', gc_stream_is_saturated := b\<rparr>" "r = kNoError" "ctl_ok (gc_mode g) c'"
    "ctl_deficit c' \<le> ctl_deficit c + 35" "frame16 80 x'" using a(4) by (auto split: if_splits)
  have "gc_inv g'" using r(1,3) sok ctl_ok_live by (simp add: gc_inv_def settings_ok_def)
  with r d en md True show ?thesis by (auto simp: gc_deficit_def)
qed

lemma stream_loop_post:
  assumes "gc_inv g" "gc_deficit g + 35 * int n \<le> deficit_limit + 35" "length data = 80 * (i + n)" "\<forall>v \<in> set data. in_s16 v"
    and "stream_loop n i g data = Some (g', data', r)" "n > 0"
  shows "gc_inv g' \<and> gc_deficit g' \<le> gc_deficit g + 35 * int n \<and> frame16 (80 * (i + n)) data'
    \<and> r = (if gc_enabled g \<and> gc_mode g = kAdaptiveAnalog then kNotEnabledError else kNoError)
    \<and> gc_enabled g' = gc_enabled g \<and> gc_mode g' = gc_mode g \<and> (\<not> digital_mode g \<longrightarrow> g' = g \<and> data' = data)"
  using assms
proof (induction n arbitrary: i g data)
  case (Suc n)
  let ?x = "take 80 (drop (i * 80) data)"
  obtain g1 x1 r1 where f: "stream_frame g ?x = Some (g1, x1, r1)" using Suc.prems(5) by (auto split: bind_splits)
  have x: "frame16 80 ?x" using Suc.prems(3,4) by (auto simp: frame16_def dest: in_set_takeD in_set_dropD)
  have dl: "gc_deficit g \<le> deficit_limit" using Suc.prems(2) by simp
  note p = stream_frame_post [OF Suc.prems(1) dl x f]
  let ?d = "take (i * 80) data @ x1 @ drop (i * 80 + 80) data"
  have len: "length ?d = 80 * (i + Suc n)" using p Suc.prems(3) by (simp add: frame16_def)
  have smp: "\<forall>v \<in> set ?d. in_s16 v" using p Suc.prems(4) by (auto simp: frame16_def dest: in_set_takeD in_set_dropD)
  have same: "?d = data" if "x1 = ?x"
  proof -
    have "take 80 (drop (i * 80) data) @ drop (i * 80 + 80) data = drop (i * 80) data"
      using append_take_drop_id [of 80 "drop (i * 80) data"] by (simp add: add.commute)
    then show ?thesis unfolding that by simp
  qed
  have rest: "(if r1 \<noteq> kNoError then Some (g1, ?d, r1) else stream_loop n (Suc i) g1 ?d) = Some (g', data', r)"
    using Suc.prems(5) f by (simp add: Let_def)
  have digi: "digital_mode g1 = digital_mode g" using p by (simp add: digital_mode_def)
  show ?case
  proof (cases "r1 \<noteq> kNoError \<or> n = 0")
    case True
    with rest have "g' = g1" "data' = ?d" "r = r1" by (auto split: if_splits)
    then show ?thesis using p len smp same by (auto simp: frame16_def)
  next
    case False
    then have l: "stream_loop n (Suc i) g1 ?d = Some (g', data', r)" "0 < n" using rest by auto
    from p Suc.prems(2) have "gc_deficit g1 + 35 * int n \<le> deficit_limit + 35" by simp
    from Suc.IH [OF _ this _ smp l] p len have "gc_inv g' \<and> gc_deficit g' \<le> gc_deficit g1 + 35 * int n \<and> frame16 (80 * (Suc i + n)) data'
      \<and> r = (if gc_enabled g1 \<and> gc_mode g1 = kAdaptiveAnalog then kNotEnabledError else kNoError)
      \<and> gc_enabled g' = gc_enabled g1 \<and> gc_mode g' = gc_mode g1 \<and> (\<not> digital_mode g1 \<longrightarrow> g' = g1 \<and> data' = ?d)"
      by simp
    with p same digi show ?thesis by auto
  qed
qed simp

section \<open>The calls of a client\<close>

text \<open>
  The calls that a client makes on the processing module and its gain control, as a step relation; the
  first argument of a step bounds the growth of the energy deficit.
\<close>

datatype apm_call =
  CallEnable bool
| CallSetMode Mode
| CallSetTarget int
| CallSetGain int
| CallEnableLimiter bool
| CallSetLimits int int
| CallSetStreamLevel int
| CallProcessStream "int list option" int

fun apm_step :: "fresh_memory \<Rightarrow> apm_call \<Rightarrow> AudioProcessingImpl \<Rightarrow> (AudioProcessingImpl \<times> int list option \<times> int) option" where
  "apm_step mem (CallEnable b) a = do { (g, r) \<leftarrow> Enable mem (apm_gain_control a) b; Some (\<lparr>apm_gain_control = g\<rparr>, None, r) }"
| "apm_step mem (CallSetMode m) a = do { (g, r) \<leftarrow> set_mode mem (apm_gain_control a) m; Some (\<lparr>apm_gain_control = g\<rparr>, None, r) }"
| "apm_step mem (CallSetTarget l) a = do { (g, r) \<leftarrow> set_target_level_dbfs (apm_gain_control a) l; Some (\<lparr>apm_gain_control = g\<rparr>, None, r) }"
| "apm_step mem (CallSetGain d) a = do { (g, r) \<leftarrow> set_compression_gain_db (apm_gain_control a) d; Some (\<lparr>apm_gain_control = g\<rparr>, None, r) }"
| "apm_step mem (CallEnableLimiter b) a = do { (g, r) \<leftarrow> enable_limiter (apm_gain_control a) b; Some (\<lparr>apm_gain_control = g\<rparr>, None, r) }"
| "apm_step mem (CallSetLimits lo hi) a = do { (g, r) \<leftarrow> set_analog_level_limits mem (apm_gain_control a) lo hi; Some (\<lparr>apm_gain_control = g\<rparr>, None, r) }"
| "apm_step mem (CallSetStreamLevel l) a = (let (g, r) = set_stream_analog_level (apm_gain_control a) l in Some (\<lparr>apm_gain_control = g\<rparr>, None, r))"
| "apm_step mem (CallProcessStream data n) a = ProcessStream a data n"

text \<open>Calls with an argument that is rejected or that keeps the settings inside the proved range.\<close>

fun call_good :: "apm_call \<Rightarrow> bool" where
  "call_good (CallSetGain d) \<longleftrightarrow> d \<le> 18 \<or> d > 90"
| "call_good (CallSetLimits lo hi) \<longleftrightarrow> lo < 0 \<or> hi < lo \<or> lo + 42 \<le> hi \<and> hi \<le> 65535"
| "call_good (CallProcessStream data n) \<longleftrightarrow> (\<forall>d. data = Some d \<longrightarrow> n = 160 \<longrightarrow> frame16 160 d)"
| "call_good _ \<longleftrightarrow> True"

inductive apm_reachable :: "nat \<Rightarrow> AudioProcessingImpl \<Rightarrow> bool" where
  create: "AudioProcessing_Create mem channels rate = Some a \<Longrightarrow> apm_reachable 0 a"
| call: "apm_reachable n a \<Longrightarrow> call_good c \<Longrightarrow> legacy_shape block \<Longrightarrow> apm_step (Some block, v) c a = Some (a', out, r)
    \<Longrightarrow> apm_reachable (Suc n) a'"

inductive_cases apm_reachable_SucE: "apm_reachable (Suc n) a"

lemma Create_eq: "AudioProcessing_Create mem channels rate = Some \<lparr>apm_gain_control = GainControlImpl_new 1 8000\<rparr>"
  by (simp add: AudioProcessing_Create_def Initialize_def GainControlImpl_new_def)

lemma new_inv: "gc_inv (GainControlImpl_new n 8000)" "gc_deficit (GainControlImpl_new n 8000) = 0"
  by (simp_all add: GainControlImpl_new_def gc_inv_def settings_ok_def gc_deficit_def)

text \<open>A new value of a setting is stored and passed on to the controller.\<close>

lemma Configure_step:
  assumes "gc_inv g" "settings_ok h" "Configure h = Some (g', r)" "gc_gain_controller h = gc_gain_controller g" "gc_enabled h = gc_enabled g"
    "gc_mode h = gc_mode g"
  shows "gc_inv g' \<and> gc_deficit g' = gc_deficit g \<and> r = kNoError"
proof -
  obtain c where c: "gc_gain_controller h = Some c" using assms(3) by (cases "gc_gain_controller h") (simp_all add: Configure_def)
  have cg: "gc_gain_controller g = Some c" using assms(4) c by simp
  have l: "ctl_live c" "gc_enabled g \<longrightarrow> ctl_ok (gc_mode g) c" using assms(1) cg by (simp_all add: gc_inv_def)
  obtain c' where "g' = h\<lparr>gc_gain_controller := Some c'\<rparr>" "r = kNoError" "ctl_live c'" "ctl_deficit c' = ctl_deficit c"
    "ctl_ok (gc_mode h) c \<longrightarrow> ctl_ok (gc_mode h) c'"
    using runsD [OF Configure_runs [OF assms(2) c l(1)] assms(3)] by auto
  with assms(2,5,6) cg l show ?thesis by (simp add: gc_inv_def gc_deficit_def settings_ok_def)
qed

lemma Initialize_step:
  assumes "settings_ok g" "legacy_shape block" "gc_enabled g \<or> gc_inv g" "Initialize (Some block, v) g n 8000 = Some g'"
  shows "gc_inv g' \<and> gc_deficit g' = 0"
  using runsD [OF Initialize_runs [OF assms(1-3)] assms(4)] by simp

lemma gc_deficit_nonneg: "gc_inv g \<Longrightarrow> 0 \<le> gc_deficit g"
  by (auto simp: gc_inv_def gc_deficit_def ctl_deficit_def ctl_ok_def agc_inv_def control_inv_def energy_inv_def split: option.splits)

text \<open>The invariant after a call, and the growth of the deficit: at most 35 for each of the two frames of a stream.\<close>

definition stays :: "GainControlImpl \<Rightarrow> GainControlImpl \<Rightarrow> bool" where
  "stays g g' \<longleftrightarrow> gc_inv g' \<and> gc_deficit g' \<le> gc_deficit g + 70"

lemma stays_refl: "gc_inv g \<Longrightarrow> stays g g"
  by (simp add: stays_def)

lemma stays_same:
  assumes "gc_inv g" "gc_gain_controller h = gc_gain_controller g" "gc_enabled h = gc_enabled g" "gc_mode h = gc_mode g" "settings_ok h"
  shows "stays g h"
  using assms by (cases "gc_gain_controller g") (simp_all add: stays_def gc_inv_def gc_deficit_def)

lemma stays_Initialize:
  assumes "gc_inv g" "Initialize (Some block, v) h n (gc_sample_rate_hz g) = Some g'" "settings_ok h" "legacy_shape block" "gc_enabled h \<or> gc_inv h"
  shows "stays g g'"
proof -
  have "gc_sample_rate_hz g = 8000" using assms(1) by (simp add: gc_inv_def settings_ok_def)
  with Initialize_step [OF assms(3,4,5)] assms(2) gc_deficit_nonneg [OF assms(1)] show ?thesis by (simp add: stays_def)
qed

lemma stays_Configure:
  assumes "gc_inv g" "Configure h = Some (g', r)" "settings_ok h" "gc_gain_controller h = gc_gain_controller g"
    "gc_enabled h = gc_enabled g" "gc_mode h = gc_mode g"
  shows "stays g g'"
  using Configure_step [OF assms(1,3,2,4-6)] by (simp add: stays_def)

lemma gc_inv_settings: "gc_inv g \<Longrightarrow> settings_ok g"
  by (simp add: gc_inv_def)

lemma Enable_stays:
  assumes "gc_inv g" "legacy_shape block" "Enable (Some block, v) g b = Some (g', r)"
  shows "stays g g'"
proof (cases "b \<and> \<not> gc_enabled g")
  case True
  then have run: "Initialize (Some block, v) (g\<lparr>gc_enabled := True\<rparr>) (gc_num_proc_channels g) (gc_sample_rate_hz g) = Some g'"
    using assms(3) by (auto simp: Enable_def split: bind_splits)
  show ?thesis by (rule stays_Initialize [OF assms(1) run]) (use gc_inv_settings [OF assms(1)] assms(2) in \<open>simp_all add: settings_ok_def\<close>)
next
  case False
  then have "g' = g\<lparr>gc_enabled := b\<rparr>" "b \<longrightarrow> gc_enabled g" using assms(3) by (auto simp: Enable_def)
  with assms(1) gc_deficit_nonneg [OF assms(1)] show ?thesis
    by (cases "gc_gain_controller g"; cases b) (simp_all add: stays_def gc_inv_def gc_deficit_def settings_ok_def)
qed

lemma set_mode_stays:
  assumes "gc_inv g" "legacy_shape block" "set_mode (Some block, v) g m = Some (g', r)"
  shows "stays g g'"
proof (cases "m = OtherMode")
  case True
  with assms show ?thesis by (auto simp: set_mode_def intro: stays_refl)
next
  case False
  from mode_range [OF False] have "MapSetting m \<noteq> -1" by linarith
  then have run: "Initialize (Some block, v) (g\<lparr>gc_mode := m\<rparr>) (gc_num_proc_channels g) (gc_sample_rate_hz g) = Some g'"
    using assms(3) by (auto simp: set_mode_def split: bind_splits)
  have "gc_enabled g \<or> gc_inv (g\<lparr>gc_mode := m\<rparr>)"
    using assms(1) False by (cases "gc_gain_controller g") (simp_all add: gc_inv_def settings_ok_def)
  then show ?thesis
    by (intro stays_Initialize [OF assms(1) run]) (use gc_inv_settings [OF assms(1)] assms(2) False in \<open>simp_all add: settings_ok_def\<close>)
qed

lemma set_analog_level_limits_stays:
  assumes "gc_inv g" "legacy_shape block" "lo < 0 \<or> hi < lo \<or> lo + 42 \<le> hi \<and> hi \<le> 65535"
    "set_analog_level_limits (Some block, v) g lo hi = Some (g', r)"
  shows "stays g g'"
proof (cases "lo < 0 \<or> hi < 0 \<or> hi < lo")
  case True
  with assms(4) have "g' = g" by (auto simp: set_analog_level_limits_def split: if_splits)
  with assms(1) show ?thesis by (simp add: stays_refl)
next
  case False
  let ?h = "g\<lparr>gc_minimum_capture_level := lo, gc_maximum_capture_level := hi\<rparr>"
  have run: "Initialize (Some block, v) ?h (gc_num_proc_channels g) (gc_sample_rate_hz g) = Some g'"
    using assms(4) False by (auto simp: set_analog_level_limits_def Let_def split: bind_splits)
  have s: "settings_ok ?h" using gc_inv_settings [OF assms(1)] assms(3) False by (auto simp: settings_ok_def)
  have "gc_inv ?h" using assms(1) s by (cases "gc_gain_controller g") (simp_all add: gc_inv_def)
  with s assms(2) show ?thesis by (intro stays_Initialize [OF assms(1) run]) simp_all
qed

lemma settings_stay:
  assumes "gc_inv g"
  shows "set_target_level_dbfs g l = Some (g', r) \<Longrightarrow> stays g g'"
    and "set_compression_gain_db g d = Some (g', r) \<Longrightarrow> d \<le> 18 \<or> d > 90 \<Longrightarrow> stays g g'"
    and "enable_limiter g b = Some (g', r) \<Longrightarrow> stays g g'"
    and "stays g (fst (set_stream_analog_level g l))"
proof -
  note s = gc_inv_settings [OF assms]
  show "stays g g'" if "set_target_level_dbfs g l = Some (g', r)"
    using that s stays_refl [OF assms] stays_Configure [OF assms, of "g\<lparr>gc_target_level_dbfs := l\<rparr>" g' r]
    by (auto simp: set_target_level_dbfs_def settings_ok_def split: if_splits)
  show "stays g g'" if "set_compression_gain_db g d = Some (g', r)" "d \<le> 18 \<or> d > 90"
    using that s stays_refl [OF assms] stays_Configure [OF assms, of "g\<lparr>gc_compression_gain_db := d\<rparr>" g' r]
    by (auto simp: set_compression_gain_db_def settings_ok_def split: if_splits)
  show "stays g g'" if "enable_limiter g b = Some (g', r)"
    using that s stays_Configure [OF assms, of "g\<lparr>gc_limiter_enabled := b\<rparr>" g' r]
    by (simp add: enable_limiter_def settings_ok_def)
  show "stays g (fst (set_stream_analog_level g l))"
    using s by (intro stays_same [OF assms]) (simp_all add: set_stream_analog_level_def Let_def settings_ok_def)
qed

lemma ProcessStream_post:
  assumes "gc_inv (apm_gain_control a)" "gc_deficit (apm_gain_control a) + 35 \<le> deficit_limit" "frame16 160 d"
    "ProcessStream a (Some d) 160 = Some (a', out, r)"
  shows "stays (apm_gain_control a) (apm_gain_control a') \<and> (\<exists>d'. out = Some d' \<and> frame16 160 d'
    \<and> (\<not> digital_mode (apm_gain_control a) \<longrightarrow> a' = a \<and> d' = d))
    \<and> r = (if gc_enabled (apm_gain_control a) \<and> gc_mode (apm_gain_control a) = kAdaptiveAnalog then kNotEnabledError else kNoError)"
proof -
  obtain g' d' where l: "stream_loop 2 0 (apm_gain_control a) d = Some (g', d', r)" "a' = a\<lparr>apm_gain_control := g'\<rparr>" "out = Some d'"
    using assms(4) by (auto simp: ProcessStream_def split: bind_splits)
  have p: "gc_deficit (apm_gain_control a) + 35 * int 2 \<le> deficit_limit + 35" "length d = 80 * (0 + 2)" "\<forall>v \<in> set d. in_s16 v"
    using assms(2,3) by (simp_all add: frame16_def)
  from stream_loop_post [OF assms(1) p l(1)] l show ?thesis by (simp add: stays_def)
qed

lemma ProcessStream_rejects: "data = None \<or> n \<noteq> 160 \<Longrightarrow> ProcessStream a data n = Some (a, data, if data = None then kNullPointerError else kBadParameterError)"
  by (auto simp: ProcessStream_def split: option.splits)

lemma apm_step_stays:
  assumes "gc_inv (apm_gain_control a)" "gc_deficit (apm_gain_control a) + 35 \<le> deficit_limit" "call_good c" "legacy_shape block"
    "apm_step (Some block, v) c a = Some (a', out, r)"
  shows "stays (apm_gain_control a) (apm_gain_control a')"
proof (cases c)
  case (CallProcessStream data n)
  show ?thesis
  proof (cases "data = None \<or> n \<noteq> 160")
    case True
    with CallProcessStream assms(1,5) ProcessStream_rejects [OF True, of a] show ?thesis by (simp add: stays_refl)
  next
    case False
    then obtain d where "data = Some d" "n = 160" by auto
    with CallProcessStream assms ProcessStream_post [OF assms(1,2), of d] show ?thesis by simp
  qed
next
  case (CallEnable b)
  with assms(5) Enable_stays [OF assms(1,4), of v b] show ?thesis by (auto split: bind_splits)
next
  case (CallSetMode m)
  with assms(5) set_mode_stays [OF assms(1,4), of v m] show ?thesis by (auto split: bind_splits)
next
  case (CallSetTarget l)
  with assms(5) settings_stay(1) [OF assms(1), of l] show ?thesis by (auto split: bind_splits)
next
  case (CallSetGain d)
  with assms(3,5) settings_stay(2) [OF assms(1), of d] show ?thesis by (auto split: bind_splits)
next
  case (CallEnableLimiter b)
  with assms(5) settings_stay(3) [OF assms(1), of b] show ?thesis by (auto split: bind_splits)
next
  case (CallSetLimits lo hi)
  with assms(3,5) set_analog_level_limits_stays [OF assms(1,4), of lo hi v] show ?thesis by (auto split: bind_splits)
next
  case (CallSetStreamLevel l)
  with assms(5) settings_stay(4) [OF assms(1), of l] show ?thesis by (auto split: prod.splits)
qed

lemma apm_reachable_inv:
  assumes "apm_reachable n a" "70 * int n \<le> deficit_limit - 70"
  shows "gc_inv (apm_gain_control a) \<and> gc_deficit (apm_gain_control a) \<le> 70 * int n"
  using assms
proof (induction rule: apm_reachable.induct)
  case (create mem channels rate a)
  then have "a = \<lparr>apm_gain_control = GainControlImpl_new 1 8000\<rparr>" by (simp add: Create_eq)
  then show ?case using new_inv [of 1] by simp
next
  case (call n a c block v a' out r)
  from call.prems call.IH have i: "gc_inv (apm_gain_control a)" "gc_deficit (apm_gain_control a) \<le> 70 * int n" by simp_all
  have b: "gc_deficit (apm_gain_control a) + 35 \<le> deficit_limit" using i(2) call.prems by simp
  from apm_step_stays [OF i(1) b call.hyps(2,3,4)] i(2) show ?case by (simp add: stays_def)
qed

section \<open>Properties\<close>







end
