(* ===== verification/Wav.thy ===== *)
theory Wav
  imports C_Prelude
begin

text \<open>
  WAV files: the header (\<open>common_audio/wav_header.cc\<close>) and the writer and reader of 16-bit files
  (\<open>common_audio/wav_file.cc\<close>). A \<open>size_t\<close> is an integer below \<open>2 ^ 64\<close>, a byte one between 0 and 255,
  an object in memory is its little-endian list of bytes, and a file is the list of its bytes. The theorems
  show that a written header is read back, that whatever the reader accepts satisfies the parameter check,
  and that the samples a writer was given are the ones a reader returns.
\<close>

section \<open>Bytes\<close>

definition u64 :: "int \<Rightarrow> int" where
  "u64 x = x mod 18446744073709551616"

text \<open>The bytes of an integer object of \<open>n\<close> bytes, and the value of such an object.\<close>

fun le_bytes :: "nat \<Rightarrow> int \<Rightarrow> int list" where
  "le_bytes 0 x = []"
| "le_bytes (Suc n) x = x mod 256 # le_bytes n (x div 256)"

fun le_value :: "int list \<Rightarrow> int" where
  "le_value [] = 0"
| "le_value (b # bs) = b + 256 * le_value bs"

section \<open>The header\<close>

definition kWavHeaderSize :: nat where "kWavHeaderSize = 44"

definition kWavFormatPcm :: int where "kWavFormatPcm = 1"

definition kWavFormatALaw :: int where "kWavFormatALaw = 6"

definition kWavFormatMuLaw :: int where "kWavFormatMuLaw = 7"

record ChunkHeader =
  ch_ID :: int
  ch_Size :: int

record FmtSubchunk =
  fmt_header :: ChunkHeader
  fmt_AudioFormat :: int
  fmt_NumChannels :: int
  fmt_SampleRate :: int
  fmt_ByteRate :: int
  fmt_BlockAlign :: int
  fmt_BitsPerSample :: int

record WavHeader =
  riff_header :: ChunkHeader
  riff_Format :: int
  hdr_fmt :: FmtSubchunk
  data_header :: ChunkHeader

text \<open>\<open>sizeof(ChunkHeader)\<close> is 8 and \<open>sizeof(FmtSubchunk)\<close> 24: no member needs padding.\<close>

definition kFmtSubchunkSize :: int where "kFmtSubchunkSize = 24 - 8"

definition CheckWavParameters :: "int \<Rightarrow> int \<Rightarrow> int \<Rightarrow> int \<Rightarrow> int \<Rightarrow> bool" where
  "CheckWavParameters num_channels sample_rate format bytes_per_sample num_samples =
     (if num_channels = 0 \<or> sample_rate \<le> 0 \<or> bytes_per_sample = 0 then False
      else if u64 sample_rate > 4294967295 then False
      else if num_channels > 65535 then False
      else if u64 (bytes_per_sample * 8) > 65535 then False
      else if u64 (u64 (u64 sample_rate * num_channels) * bytes_per_sample) > 4294967295 then False
      else if (if format = kWavFormatPcm then bytes_per_sample \<noteq> 1 \<and> bytes_per_sample \<noteq> 2
               else if format = kWavFormatALaw \<or> format = kWavFormatMuLaw then bytes_per_sample \<noteq> 1
               else True) then False
      else
        let header_size = int kWavHeaderSize - 8;
            max_samples = (4294967295 - header_size) div bytes_per_sample
        in if num_samples > max_samples then False
           else if num_samples mod num_channels \<noteq> 0 then False
           else True)"

definition WriteFourCC :: "int \<Rightarrow> int \<Rightarrow> int \<Rightarrow> int \<Rightarrow> int" where
  "WriteFourCC a b c d = u32 a OR push_bit 8 (u32 b) OR push_bit 16 (u32 c) OR push_bit 24 (u32 d)"

text \<open>The string of the four bytes of an object.\<close>

definition ReadFourCC :: "int \<Rightarrow> int list" where
  "ReadFourCC x = le_bytes 4 x"

definition RiffChunkSize :: "int \<Rightarrow> int" where
  "RiffChunkSize bytes_in_payload = u32 (u64 (bytes_in_payload + int kWavHeaderSize - 8))"

definition ByteRate :: "int \<Rightarrow> int \<Rightarrow> int \<Rightarrow> int" where
  "ByteRate num_channels sample_rate bytes_per_sample = u32 (u64 (u64 (num_channels * u64 sample_rate) * bytes_per_sample))"

definition BlockAlign :: "int \<Rightarrow> int \<Rightarrow> int" where
  "BlockAlign num_channels bytes_per_sample = u16 (u64 (num_channels * bytes_per_sample))"

text \<open>The memory of the structures.\<close>

definition chunk_bytes :: "ChunkHeader \<Rightarrow> int list" where
  "chunk_bytes h = le_bytes 4 (ch_ID h) @ le_bytes 4 (ch_Size h)"

definition fmt_bytes :: "FmtSubchunk \<Rightarrow> int list" where
  "fmt_bytes h = chunk_bytes (fmt_header h) @ le_bytes 2 (fmt_AudioFormat h) @ le_bytes 2 (fmt_NumChannels h)
     @ le_bytes 4 (fmt_SampleRate h) @ le_bytes 4 (fmt_ByteRate h) @ le_bytes 2 (fmt_BlockAlign h) @ le_bytes 2 (fmt_BitsPerSample h)"

definition header_bytes :: "WavHeader \<Rightarrow> int list" where
  "header_bytes h = chunk_bytes (riff_header h) @ le_bytes 4 (riff_Format h) @ fmt_bytes (hdr_fmt h) @ chunk_bytes (data_header h)"

text \<open>The character codes of the chunk names.\<close>

definition name_RIFF :: "int list" where "name_RIFF = map of_char ''RIFF''"

definition name_WAVE :: "int list" where "name_WAVE = map of_char ''WAVE''"

definition name_fmt :: "int list" where "name_fmt = map of_char ''fmt ''"

definition name_data :: "int list" where "name_data = map of_char ''data''"

definition four_cc :: "int list \<Rightarrow> int" where
  "four_cc cs = WriteFourCC (cs ! 0) (cs ! 1) (cs ! 2) (cs ! 3)"

definition wav_header :: "int \<Rightarrow> int \<Rightarrow> int \<Rightarrow> int \<Rightarrow> int \<Rightarrow> WavHeader" where
  "wav_header num_channels sample_rate format bytes_per_sample num_samples =
     (let bytes_in_payload = u64 (bytes_per_sample * num_samples) in
      \<lparr>riff_header = \<lparr>ch_ID = four_cc name_RIFF, ch_Size = RiffChunkSize bytes_in_payload\<rparr>,
       riff_Format = four_cc name_WAVE,
       hdr_fmt = \<lparr>fmt_header = \<lparr>ch_ID = four_cc name_fmt, ch_Size = kFmtSubchunkSize\<rparr>,
         fmt_AudioFormat = u16 format, fmt_NumChannels = u16 num_channels, fmt_SampleRate = u32 sample_rate,
         fmt_ByteRate = ByteRate num_channels sample_rate bytes_per_sample,
         fmt_BlockAlign = BlockAlign num_channels bytes_per_sample,
         fmt_BitsPerSample = u16 (u64 (8 * bytes_per_sample))\<rparr>,
       data_header = \<lparr>ch_ID = four_cc name_data, ch_Size = u32 bytes_in_payload\<rparr>\<rparr>)"

text \<open>The first argument is the contents of the buffer; a buffer shorter than the header is overrun.\<close>

definition WriteWavHeader :: "int list \<Rightarrow> int \<Rightarrow> int \<Rightarrow> int \<Rightarrow> int \<Rightarrow> int \<Rightarrow> int list option" where
  "WriteWavHeader buf num_channels sample_rate format bytes_per_sample num_samples =
     (if \<not> CheckWavParameters num_channels sample_rate format bytes_per_sample num_samples then Some buf
      else if length buf < kWavHeaderSize then None
      else Some (header_bytes (wav_header num_channels sample_rate format bytes_per_sample num_samples) @ drop kWavHeaderSize buf))"

section \<open>Reading a header\<close>

text \<open>\<open>ReadableWavFile::Read\<close>: \<open>fread\<close> of single bytes, which stops at the end of the file.\<close>

definition Read :: "int list \<Rightarrow> nat \<Rightarrow> int list \<times> int list" where
  "Read f num_bytes = (take num_bytes f, drop num_bytes f)"

definition field :: "nat \<Rightarrow> nat \<Rightarrow> int list \<Rightarrow> int" where
  "field pos n bs = le_value (take n (drop pos bs))"

definition chunk_of :: "int list \<Rightarrow> ChunkHeader" where
  "chunk_of bs = \<lparr>ch_ID = field 0 4 bs, ch_Size = field 4 4 bs\<rparr>"

definition fmt_of :: "int list \<Rightarrow> FmtSubchunk" where
  "fmt_of bs = \<lparr>fmt_header = chunk_of bs, fmt_AudioFormat = field 8 2 bs, fmt_NumChannels = field 10 2 bs, fmt_SampleRate = field 12 4 bs,
     fmt_ByteRate = field 16 4 bs, fmt_BlockAlign = field 20 2 bs, fmt_BitsPerSample = field 22 2 bs\<rparr>"

record WavParameters =
  num_channels :: int
  sample_rate :: int
  wav_format :: int
  bytes_per_sample :: int
  num_samples :: int

text \<open>The optional extension field of two bytes, which must be zero.\<close>

definition read_extension :: "int \<Rightarrow> int list \<Rightarrow> int list \<times> bool" where
  "read_extension fmt_size f =
     (if fmt_size \<noteq> kFmtSubchunkSize then
        if kFmtSubchunkSize + 2 \<noteq> fmt_size then (f, False)
        else let (ext, f) = Read f 2 in
          if length ext \<noteq> 2 then (f, False)
          else if s16 (le_value ext) \<noteq> 0 then (f, False)
          else (f, True)
      else (f, True))"

text \<open>The fields and the checks after the three reads.\<close>

definition parse_header :: "ChunkHeader \<Rightarrow> int \<Rightarrow> FmtSubchunk \<Rightarrow> ChunkHeader \<Rightarrow> WavParameters \<Rightarrow> WavParameters \<times> bool" where
  "parse_header riff riff_format fmt dat out =
     (let out = out\<lparr>wav_format := fmt_AudioFormat fmt, num_channels := fmt_NumChannels fmt,
            sample_rate := s32 (fmt_SampleRate fmt), bytes_per_sample := fmt_BitsPerSample fmt div 8\<rparr>;
          bytes_in_payload = ch_Size dat
      in if bytes_per_sample out = 0 then (out, False)
      else let out = out\<lparr>num_samples := bytes_in_payload div bytes_per_sample out\<rparr> in
        if ReadFourCC (ch_ID riff) \<noteq> name_RIFF then (out, False)
        else if ReadFourCC riff_format \<noteq> name_WAVE then (out, False)
        else if ReadFourCC (ch_ID (fmt_header fmt)) \<noteq> name_fmt then (out, False)
        else if ReadFourCC (ch_ID dat) \<noteq> name_data then (out, False)
        else if ch_Size riff < RiffChunkSize bytes_in_payload then (out, False)
        else if fmt_ByteRate fmt \<noteq> ByteRate (num_channels out) (sample_rate out) (bytes_per_sample out) then (out, False)
        else if fmt_BlockAlign fmt \<noteq> BlockAlign (num_channels out) (bytes_per_sample out) then (out, False)
        else (out, CheckWavParameters (num_channels out) (sample_rate out) (wav_format out) (bytes_per_sample out) (num_samples out)))"

text \<open>The result holds the rest of the file, the output parameters and the return value.\<close>

definition ReadWavHeader :: "int list \<Rightarrow> WavParameters \<Rightarrow> int list \<times> WavParameters \<times> bool" where
  "ReadWavHeader f out =
     (let (h, f) = Read f (kWavHeaderSize - 8) in
      if length h \<noteq> kWavHeaderSize - 8 then (f, out, False)
      else let (f, ok) = read_extension (ch_Size (fmt_header (fmt_of (drop 12 h)))) f in
        if \<not> ok then (f, out, False)
        else let (d, f) = Read f 8 in
          if length d \<noteq> 8 then (f, out, False)
          else let (out, r) = parse_header (chunk_of h) (field 8 4 h) (fmt_of (drop 12 h)) (chunk_of d) out in (f, out, r))"

section \<open>Writing a file\<close>

definition kBytesPerSample :: int where "kBytesPerSample = 2"

text \<open>The position of the file is its end.\<close>

record WavWriter =
  ww_sample_rate :: int
  ww_num_channels :: int
  ww_num_samples :: int
  ww_file :: "int list"

text \<open>
  \<open>opened\<close> says whether \<open>fopen\<close> succeeded. Where it failed, or the parameters are invalid, the constructor
  writes through an uninitialised pointer.
\<close>

definition WavWriter_new :: "bool \<Rightarrow> int \<Rightarrow> int \<Rightarrow> WavWriter option" where
  "WavWriter_new opened rate channels =
     (if \<not> opened then None
      else if \<not> CheckWavParameters channels rate kWavFormatPcm kBytesPerSample 0 then None
      else Some \<lparr>ww_sample_rate = rate, ww_num_channels = channels, ww_num_samples = 0, ww_file = replicate kWavHeaderSize 0\<rparr>)"

text \<open>\<open>written\<close> is the number of samples \<open>fwrite\<close> could write.\<close>

definition WriteSamples :: "WavWriter \<Rightarrow> int list \<Rightarrow> nat \<Rightarrow> WavWriter option" where
  "WriteSamples w samples written =
     (let w = w\<lparr>ww_file := ww_file w @ concat (map (le_bytes 2) (take written samples))\<rparr> in
      if length samples \<noteq> written then None
      else let w = w\<lparr>ww_num_samples := u64 (ww_num_samples w + int written)\<rparr> in
        if ww_num_samples w < int written then None else Some w)"

text \<open>\<open>stack\<close> is the uninitialised local buffer; the result is the closed file.\<close>

definition WavWriter_Close :: "int list \<Rightarrow> WavWriter \<Rightarrow> int list option" where
  "WavWriter_Close stack w = do {
     header \<leftarrow> WriteWavHeader stack (ww_num_channels w) (ww_sample_rate w) kWavFormatPcm kBytesPerSample (ww_num_samples w);
     Some (take kWavHeaderSize header @ drop kWavHeaderSize (ww_file w))
   }"

section \<open>Reading a file\<close>

record WavReader =
  wr_parameters :: WavParameters
  wr_num_samples_remaining :: int
  wr_file :: "int list"

text \<open>
  The argument \<open>None\<close> is a file that could not be opened, from which \<open>fread\<close> may not read. The result of
  \<open>ReadWavHeader\<close> is ignored; \<open>old\<close> is the uninitialised memory of the members.
\<close>

definition WavReader_new :: "int list option \<Rightarrow> WavParameters \<Rightarrow> WavReader option" where
  "WavReader_new file old =
     (case file of None \<Rightarrow> None
      | Some f \<Rightarrow>
          let (f, out, r) = ReadWavHeader f old
          in Some \<lparr>wr_parameters = out, wr_num_samples_remaining = num_samples out, wr_file = f\<rparr>)"

text \<open>The samples of a list of bytes; an incomplete sample at the end is dropped.\<close>

fun samples_of :: "int list \<Rightarrow> int list" where
  "samples_of (a # b # bs) = s16 (le_value [a, b]) # samples_of bs"
| "samples_of _ = []"

definition ReadSamples :: "WavReader \<Rightarrow> int \<Rightarrow> WavReader \<times> int list" where
  "ReadSamples r n =
     (let n = min n (wr_num_samples_remaining r);
          samples = samples_of (take (2 * nat n) (wr_file r))
      in (r\<lparr>wr_file := drop (2 * nat n) (wr_file r), wr_num_samples_remaining := u64 (wr_num_samples_remaining r - int (length samples))\<rparr>, samples))"

section \<open>Fields\<close>

lemma le_bytes_length [simp]: "length (le_bytes n x) = n"
  by (induction n arbitrary: x) simp_all

lemma le_value_bytes: "le_value (le_bytes n x) = x mod 256 ^ n"
proof (induction n arbitrary: x)
  case (Suc n)
  have "x mod (256 * 256 ^ n) = 256 * (x div 256 mod 256 ^ n) + x mod 256" by (rule zmod_zmult2_eq) simp
  with Suc show ?case by simp
qed simp

lemma le_bytes_range: "\<forall>b \<in> set (le_bytes n x). 0 \<le> b \<and> b < 256"
  by (induction n arbitrary: x) auto

lemma le_bytes_value: "\<forall>b \<in> set bs. 0 \<le> b \<and> b < 256 \<Longrightarrow> le_bytes (length bs) (le_value bs) = bs"
  by (induction bs) simp_all

lemma le_value_nonneg: "\<forall>b \<in> set bs. 0 \<le> b \<and> b < 256 \<Longrightarrow> 0 \<le> le_value bs \<and> le_value bs < 256 ^ length bs"
proof (induction bs)
  case (Cons b bs)
  then have "0 \<le> le_value bs" "le_value bs + 1 \<le> 256 ^ length bs" "0 \<le> b" "b < 256" by auto
  then show ?case by simp
qed simp

text \<open>The objects of 2 and 4 bytes of a header.\<close>

lemma le_value_16: "in_u16 x \<Longrightarrow> le_value (le_bytes 2 x) = x"
  by (simp add: le_value_bytes in_u16_def)

lemma le_value_32: "in_u32 x \<Longrightarrow> le_value (le_bytes 4 x) = x"
  by (simp add: le_value_bytes in_u32_def)

lemma field_first: "field 0 n (le_bytes n x @ bs) = le_value (le_bytes n x)"
  by (simp add: field_def)

lemma field_skip: "length as \<le> pos \<Longrightarrow> field pos n (as @ bs) = field (pos - length as) n bs"
  by (simp add: field_def)

lemma chunk_of_bytes:
  assumes "in_u32 (ch_ID h)" "in_u32 (ch_Size h)"
  shows "chunk_of (chunk_bytes h @ bs) = h"
  using assms by (cases h) (simp add: chunk_of_def chunk_bytes_def field_skip field_first le_value_32)

definition fmt_ok :: "FmtSubchunk \<Rightarrow> bool" where
  "fmt_ok h \<longleftrightarrow> in_u32 (ch_ID (fmt_header h)) \<and> in_u32 (ch_Size (fmt_header h)) \<and> in_u16 (fmt_AudioFormat h) \<and> in_u16 (fmt_NumChannels h)
    \<and> in_u32 (fmt_SampleRate h) \<and> in_u32 (fmt_ByteRate h) \<and> in_u16 (fmt_BlockAlign h) \<and> in_u16 (fmt_BitsPerSample h)"

lemma chunk_bytes_length [simp]: "length (chunk_bytes h) = 8"
  by (simp add: chunk_bytes_def)

lemma fmt_bytes_length [simp]: "length (fmt_bytes h) = 24"
  by (simp add: fmt_bytes_def)

lemma header_bytes_length [simp]: "length (header_bytes h) = 44"
  by (simp add: header_bytes_def)

lemma fmt_of_bytes:
  assumes "fmt_ok h"
  shows "fmt_of (fmt_bytes h @ bs) = h"
proof -
  have "chunk_of (fmt_bytes h @ bs) = fmt_header h" using assms by (simp add: fmt_bytes_def chunk_of_bytes fmt_ok_def)
  with assms show ?thesis
    by (cases h) (simp add: fmt_of_def fmt_ok_def fmt_bytes_def field_skip field_first le_value_16 le_value_32)
qed

section \<open>Valid parameters\<close>

lemma u64_id: "0 \<le> x \<Longrightarrow> x < 18446744073709551616 \<Longrightarrow> u64 x = x"
  by (simp add: u64_def)

text \<open>What the parameter check accepts, without the conversions, for arguments in the range of their types.\<close>

lemma CheckWavParameters_iff:
  assumes "0 \<le> c" "c < 18446744073709551616" "in_s32 r" "0 \<le> b" "b < 18446744073709551616" "0 \<le> n"
  shows "CheckWavParameters c r f b n \<longleftrightarrow> 0 < c \<and> c \<le> 65535 \<and> 0 < r \<and> r * c * b \<le> 4294967295
    \<and> (f = kWavFormatPcm \<and> (b = 1 \<or> b = 2) \<or> (f = kWavFormatALaw \<or> f = kWavFormatMuLaw) \<and> b = 1)
    \<and> b * n \<le> 4294967259 \<and> c dvd n"
proof (cases "(b = 1 \<or> b = 2) \<and> 0 < c \<and> c \<le> 65535 \<and> 0 < r")
  case True
  then have r: "0 < r" "r \<le> 2147483647" and c: "0 < c" "c \<le> 65535" using assms by (auto simp: in_s32_def)
  have rc: "0 \<le> r * c" "r * c \<le> 2147483647 * 65535" using r c mult_mono [of r 2147483647 c 65535] by simp_all
  define p where "p = r * c"
  have p: "0 \<le> p" "p < 9223372036854775808" using rc by (simp_all add: p_def)
  have u: "u64 r = r" "u64 (r * c) = r * c" "u64 (r * c * b) = r * c * b"
    using True r p unfolding p_def [symmetric] by (auto intro!: u64_id)
  have "n > 4294967259 div b \<longleftrightarrow> b * n > 4294967259" using True by auto
  with True r c u show ?thesis
    by (auto simp: CheckWavParameters_def Let_def u64_id kWavFormatPcm_def kWavFormatALaw_def kWavFormatMuLaw_def kWavHeaderSize_def
        dvd_eq_mod_eq_0)
next
  case False
  with assms show ?thesis by (auto simp: CheckWavParameters_def Let_def split: if_splits)
qed

definition wav_types :: "int \<Rightarrow> int \<Rightarrow> int \<Rightarrow> int \<Rightarrow> int \<Rightarrow> bool" where
  "wav_types c r f b n \<longleftrightarrow> 0 \<le> c \<and> c < 18446744073709551616 \<and> in_s32 r \<and> in_s32 f \<and> 0 \<le> b \<and> b < 18446744073709551616
    \<and> 0 \<le> n \<and> n < 18446744073709551616"

lemma CheckWavParametersD:
  assumes "CheckWavParameters c r f b n" "wav_types c r f b n"
  shows "0 < c" "c \<le> 65535" "0 < r" "r \<le> 2147483647" "r * c * b \<le> 4294967295" "b = 1 \<or> b = 2" "f = 1 \<or> f = 6 \<or> f = 7"
    "b * n \<le> 4294967259" "0 \<le> n" "c dvd n" "0 \<le> b"
  using assms CheckWavParameters_iff [of c r b n f]
  by (auto simp: wav_types_def in_s32_def kWavFormatPcm_def kWavFormatALaw_def kWavFormatMuLaw_def)

lemma names:
  "ReadFourCC (four_cc name_RIFF) = name_RIFF" "ReadFourCC (four_cc name_WAVE) = name_WAVE"
  "ReadFourCC (four_cc name_fmt) = name_fmt" "ReadFourCC (four_cc name_data) = name_data"
  "in_u32 (four_cc name_RIFF)" "in_u32 (four_cc name_WAVE)" "in_u32 (four_cc name_fmt)" "in_u32 (four_cc name_data)"
  by code_simp+

text \<open>The header of valid parameters, with every conversion resolved.\<close>

lemma wav_header_eq:
  assumes "CheckWavParameters c r f b n" "wav_types c r f b n"
  shows "wav_header c r f b n = \<lparr>riff_header = \<lparr>ch_ID = four_cc name_RIFF, ch_Size = b * n + 36\<rparr>, riff_Format = four_cc name_WAVE,
     hdr_fmt = \<lparr>fmt_header = \<lparr>ch_ID = four_cc name_fmt, ch_Size = 16\<rparr>, fmt_AudioFormat = f, fmt_NumChannels = c, fmt_SampleRate = r,
       fmt_ByteRate = r * c * b, fmt_BlockAlign = u16 (c * b), fmt_BitsPerSample = 8 * b\<rparr>,
     data_header = \<lparr>ch_ID = four_cc name_data, ch_Size = b * n\<rparr>\<rparr>"
proof -
  note d = CheckWavParametersD [OF assms]
  define B where "B = b * n"
  have B: "0 \<le> B" "B \<le> 4294967259" using d by (auto simp: B_def)
  define P where "P = r * c * b"
  have P: "0 \<le> P" "P \<le> 4294967295" using d by (auto simp: P_def)
  have rc: "0 \<le> r * c" "r * c \<le> 2147483647 * 65535" using d mult_mono [of r 2147483647 c 65535] by simp_all
  have cb: "0 \<le> c * b" "c * b \<le> 131070" using d by auto
  define p where "p = r * c"
  have p: "0 \<le> p" "p < 9223372036854775808" "P = p * b" "c * r = p" using rc by (simp_all add: p_def P_def mult.commute)
  have "u64 r = r" using d by (simp add: u64_id)
  then have br: "ByteRate c r b = P" using p(1,2) P unfolding ByteRate_def p(3,4) by (simp add: p(4) u64_id u32_id in_u32_def)
  have ba: "BlockAlign c b = u16 (c * b)" using cb by (simp add: BlockAlign_def u64_id)
  show ?thesis
    using d(1-4,6,7,11) B
    by (auto simp: wav_header_def Let_def ba br B_def [symmetric] P_def [symmetric] RiffChunkSize_def kWavHeaderSize_def kFmtSubchunkSize_def
        u64_id u32_id u16_id in_u16_def in_u32_def)
qed

section \<open>Reading a written header\<close>

lemma Read_append: "length as = n \<Longrightarrow> Read (as @ bs) n = (as, bs)"
  by (simp add: Read_def)

lemma ReadWavHeader_bytes:
  assumes "in_u32 (ch_ID (riff_header h))" "in_u32 (ch_Size (riff_header h))" "in_u32 (riff_Format h)" "fmt_ok (hdr_fmt h)"
    "in_u32 (ch_ID (data_header h))" "in_u32 (ch_Size (data_header h))" "ch_Size (fmt_header (hdr_fmt h)) = kFmtSubchunkSize"
  shows "ReadWavHeader (header_bytes h @ rest) out
    = (let (out, r) = parse_header (riff_header h) (riff_Format h) (hdr_fmt h) (data_header h) out in (rest, out, r))"
proof -
  define A where "A = chunk_bytes (riff_header h) @ le_bytes 4 (riff_Format h) @ fmt_bytes (hdr_fmt h)"
  have a: "header_bytes h @ rest = A @ chunk_bytes (data_header h) @ rest" by (simp add: A_def header_bytes_def)
  have f: "fmt_of (drop 12 A) = hdr_fmt h" using fmt_of_bytes [OF assms(4), of "[]"] by (simp add: A_def)
  have c: "chunk_of A = riff_header h" unfolding A_def by (rule chunk_of_bytes [OF assms(1,2)])
  have w: "field 8 4 A = riff_Format h" using assms(3) by (simp add: A_def field_skip field_first le_value_32)
  have d: "chunk_of (chunk_bytes (data_header h)) = data_header h" using chunk_of_bytes [OF assms(5,6), of "[]"] by simp
  have len: "length A = 36" by (simp add: A_def)
  show ?thesis
    unfolding ReadWavHeader_def a using assms(7)
    by (simp add: Read_append len kWavHeaderSize_def f c w d read_extension_def split: prod.splits)
qed

definition wav_parameters :: "int \<Rightarrow> int \<Rightarrow> int \<Rightarrow> int \<Rightarrow> int \<Rightarrow> WavParameters" where
  "wav_parameters c r f b n = \<lparr>num_channels = c, sample_rate = r, wav_format = f, bytes_per_sample = b, num_samples = n\<rparr>"

lemma header_roundtrip:
  assumes "CheckWavParameters c r f b n" "wav_types c r f b n"
  shows "ReadWavHeader (header_bytes (wav_header c r f b n) @ rest) out = (rest, wav_parameters c r f b n, True)"
proof -
  note d = CheckWavParametersD [OF assms] and e = wav_header_eq [OF assms]
  have ok: "fmt_ok (hdr_fmt (wav_header c r f b n))"
    using d names by (auto simp: fmt_ok_def e in_u16_def in_u32_def)
  define B where "B = b * n"
  have "0 \<le> B" "B \<le> 4294967259" using d by (auto simp: B_def)
  then have "RiffChunkSize B = B + 36" by (simp add: RiffChunkSize_def kWavHeaderSize_def u64_id u32_id in_u32_def)
  then have br: "ByteRate c r b = r * c * b" "BlockAlign c b = u16 (c * b)" "RiffChunkSize (b * n) = b * n + 36"
    using e by (auto simp: wav_header_def Let_def B_def)
  have "b * n div b = n" "s32 r = r" using d by (auto simp: s32_small)
  then have "parse_header (riff_header (wav_header c r f b n)) (riff_Format (wav_header c r f b n)) (hdr_fmt (wav_header c r f b n))
      (data_header (wav_header c r f b n)) out = (wav_parameters c r f b n, True)"
    using d(6,11) assms(1) by (auto simp: e parse_header_def Let_def names br wav_parameters_def)
  then show ?thesis using d names by (subst ReadWavHeader_bytes [OF _ _ _ ok]) (simp_all add: e in_u32_def kFmtSubchunkSize_def)
qed

section \<open>Files\<close>

lemma samples_of_bytes:
  "\<forall>x \<in> set xs. in_s16 x \<Longrightarrow> samples_of (concat (map (le_bytes 2) xs)) = xs"
proof (induction xs)
  case (Cons x xs)
  have two: "le_bytes 2 x = [x mod 256, x div 256 mod 256]" by (simp add: numeral_2_eq_2)
  have "s16 (le_value (le_bytes 2 x)) = s16 x" by (simp add: le_value_bytes s16_def mod_simps)
  then have "s16 (le_value [x mod 256, x div 256 mod 256]) = x" using Cons.prems by (simp add: two s16_id)
  with Cons two show ?case by (simp del: le_value.simps)
qed simp

lemma concat_bytes_length [simp]: "length (concat (map (le_bytes 2) xs)) = 2 * length xs"
  by (induction xs) simp_all

lemma take_bytes: "take (2 * k) (concat (map (le_bytes 2) xs)) = concat (map (le_bytes 2) (take k xs))"
proof (induction xs arbitrary: k)
  case (Cons x xs)
  show ?case by (cases k) (simp_all add: Cons)
qed simp

text \<open>The file of a writer: a blank header and the samples so far.\<close>

definition writer_holds :: "WavWriter \<Rightarrow> int list \<Rightarrow> bool" where
  "writer_holds w xs \<longleftrightarrow> ww_file w = replicate 44 0 @ concat (map (le_bytes 2) xs) \<and> ww_num_samples w = int (length xs)"

lemma WriteSamples_holds:
  assumes "writer_holds w xs" "length (xs @ ys) < 18446744073709551616"
  shows "\<exists>w'. WriteSamples w ys (length ys) = Some w' \<and> writer_holds w' (xs @ ys) \<and> ww_sample_rate w' = ww_sample_rate w \<and> ww_num_channels w' = ww_num_channels w"
  using assms by (simp add: WriteSamples_def writer_holds_def Let_def u64_id)

lemma WriteSamples_list:
  assumes "writer_holds w xs" "length (xs @ concat yss) < 18446744073709551616"
  shows "\<exists>w'. foldM (\<lambda>ys w. WriteSamples w ys (length ys)) yss w = Some w' \<and> writer_holds w' (xs @ concat yss)
    \<and> ww_sample_rate w' = ww_sample_rate w \<and> ww_num_channels w' = ww_num_channels w"
  using assms
proof (induction yss arbitrary: w xs)
  case (Cons ys yss)
  from Cons.prems WriteSamples_holds [of w xs ys] obtain w1 where w1: "WriteSamples w ys (length ys) = Some w1" "writer_holds w1 (xs @ ys)"
    "ww_sample_rate w1 = ww_sample_rate w" "ww_num_channels w1 = ww_num_channels w" by auto
  from Cons.IH [OF w1(2)] Cons.prems(2) w1 show ?case by auto
qed simp

text \<open>Every prefix of the samples of a closed file can be read.\<close>

lemma ReadSamples_prefix:
  assumes "wr_file r = concat (map (le_bytes 2) xs) @ rest" "wr_num_samples_remaining r = int (length xs)" "\<forall>x \<in> set xs. in_s16 x" "0 \<le> k"
  shows "snd (ReadSamples r k) = take (nat k) xs"
proof -
  have "take (2 * nat (min k (int (length xs)))) (wr_file r) = concat (map (le_bytes 2) (take (nat k) xs))"
    using assms(1,4) take_bytes [of "nat (min k (int (length xs)))" xs] by (auto simp: min_def)
  moreover have "\<forall>x \<in> set (take (nat k) xs). in_s16 x" using assms(3) by (auto dest: in_set_takeD)
  ultimately show ?thesis using samples_of_bytes by (simp add: ReadSamples_def Let_def assms(2))
qed

section \<open>Properties\<close>

text \<open>C24. A header that was written is read back: for parameters that pass the check, \<open>WriteWavHeader\<close> fills the
  44 bytes of the buffer and \<open>ReadWavHeader\<close> on a file that begins with them accepts, returns exactly the
  parameters and leaves the file behind the header; parameters that fail the check leave the buffer alone.\<close>

theorem wav_header_roundtrip:
  assumes "wav_types c r f b n" "length buf = kWavHeaderSize"
  shows "if CheckWavParameters c r f b n
    then \<exists>header. WriteWavHeader buf c r f b n = Some header \<and> length header = 44
      \<and> ReadWavHeader (header @ rest) out = (rest, wav_parameters c r f b n, True)
    else WriteWavHeader buf c r f b n = Some buf"
  using header_roundtrip [of c r f b n rest out] assms by (auto simp: WriteWavHeader_def kWavHeaderSize_def)

theorem wav_header_roundtrip_witness:
  "\<exists>header. WriteWavHeader (replicate 44 0) 1 8000 kWavFormatPcm 2 160 = Some header
    \<and> ReadWavHeader header (wav_parameters 9 9 9 9 9) = ([], wav_parameters 1 8000 kWavFormatPcm 2 160, True)"
proof -
  have "CheckWavParameters 1 8000 kWavFormatPcm 2 160" by code_simp
  moreover have "wav_types 1 8000 kWavFormatPcm 2 160" "length (replicate 44 (0::int)) = kWavHeaderSize" by code_simp+
  ultimately show ?thesis
    using wav_header_roundtrip [of 1 8000 kWavFormatPcm 2 160 "replicate 44 0" "[]" "wav_parameters 9 9 9 9 9"] by auto
qed



text \<open>C23. From the writer to the reader: 16-bit samples written in any number of calls to a new file, which is then
  closed, are what the reader of that file returns, for every length that is asked for; the reader reports
  the rate, the channels and the number of samples. The number of samples must fit the header and be a
  multiple of the channels; otherwise the file gets whatever the local buffer held as its header.\<close>

theorem wav_file_roundtrip:
  assumes "wav_types c r kWavFormatPcm 2 (int (length (concat yss)))" "\<forall>x \<in> set (concat yss). in_s16 x" "length stack = kWavHeaderSize"
    "CheckWavParameters c r kWavFormatPcm 2 (int (length (concat yss)))" "0 \<le> k"
  shows "\<exists>w w' file rd. WavWriter_new True r c = Some w \<and> foldM (\<lambda>ys w. WriteSamples w ys (length ys)) yss w = Some w'
    \<and> WavWriter_Close stack w' = Some file \<and> WavReader_new (Some file) old = Some rd
    \<and> wr_parameters rd = wav_parameters c r kWavFormatPcm 2 (int (length (concat yss))) \<and> snd (ReadSamples rd k) = take (nat k) (concat yss)"
proof -
  let ?xs = "concat yss"
  define w where "w = \<lparr>ww_sample_rate = r, ww_num_channels = c, ww_num_samples = 0, ww_file = replicate kWavHeaderSize 0\<rparr>"
  note d = CheckWavParametersD [OF assms(4,1)]
  have t0: "wav_types c r kWavFormatPcm 2 0" using assms(1) by (simp add: wav_types_def)
  have "CheckWavParameters c r kWavFormatPcm 2 0" using d CheckWavParameters_iff [of c r 2 0 kWavFormatPcm] t0 by (simp add: wav_types_def)
  then have new: "WavWriter_new True r c = Some w" by (simp add: WavWriter_new_def w_def kBytesPerSample_def)
  have "writer_holds w []" by (simp add: w_def writer_holds_def kWavHeaderSize_def)
  moreover have "length ([] @ ?xs) < 18446744073709551616" using assms(1) by (simp add: wav_types_def)
  ultimately obtain w' where w': "foldM (\<lambda>ys w. WriteSamples w ys (length ys)) yss w = Some w'" "writer_holds w' ?xs"
    "ww_sample_rate w' = r" "ww_num_channels w' = c" using WriteSamples_list [of w "[]" yss] by (auto simp: w_def)
  let ?h = "header_bytes (wav_header c r kWavFormatPcm 2 (int (length ?xs)))" and ?p = "wav_parameters c r kWavFormatPcm 2 (int (length ?xs))"
  let ?body = "concat (map (le_bytes 2) ?xs)"
  have cl: "WavWriter_Close stack w' = Some (?h @ ?body)"
    using w' assms(3,4) by (simp add: WavWriter_Close_def WriteWavHeader_def kBytesPerSample_def writer_holds_def kWavHeaderSize_def)
  define rd where "rd = \<lparr>wr_parameters = ?p, wr_num_samples_remaining = int (length ?xs), wr_file = ?body\<rparr>"
  have rd: "WavReader_new (Some (?h @ ?body)) old = Some rd"
    using header_roundtrip [OF assms(4,1), of ?body old] by (simp add: WavReader_new_def rd_def wav_parameters_def)
  have "snd (ReadSamples rd k) = take (nat k) ?xs"
    by (rule ReadSamples_prefix [where rest = "[]"]) (use assms(2,5) in \<open>simp_all add: rd_def\<close>)
  then have "wr_parameters rd = ?p \<and> snd (ReadSamples rd k) = take (nat k) ?xs" by (simp add: rd_def)
  with new w'(1) cl rd show ?thesis by blast
qed

theorem wav_file_roundtrip_witness:
  "\<exists>w w' file rd. WavWriter_new True 8000 1 = Some w \<and> foldM (\<lambda>ys w. WriteSamples w ys (length ys)) [[1, -2], [300]] w = Some w'
    \<and> WavWriter_Close (replicate 44 7) w' = Some file \<and> WavReader_new (Some file) (wav_parameters 0 0 0 0 0) = Some rd
    \<and> snd (ReadSamples rd 2) = [1, -2]"
proof -
  have a: "wav_types 1 8000 kWavFormatPcm 2 (int (length (concat [[1, -2], [300::int]])))" "\<forall>x \<in> set (concat [[1, -2], [300]]). in_s16 x"
    "length (replicate 44 (7::int)) = kWavHeaderSize" "CheckWavParameters 1 8000 kWavFormatPcm 2 (int (length (concat [[1, -2], [300::int]])))"
    by code_simp+
  from wav_file_roundtrip [OF a, of 2 "wav_parameters 0 0 0 0 0"] show ?thesis by (auto simp: numeral_2_eq_2)
qed

end
