(* ===== verification/Base64.thy ===== *)
theory Base64
  imports C_Prelude
begin

text \<open>
  Base64 (\<open>base/base64.cc\<close>): the encoder and the decoder with its options for white space, padding and
  termination. Characters and bytes are their codes between 0 and 255. The theorems show that every
  encoded string decodes to its source under all options that allow padding, and that the strict decoder
  accepts exactly the strings the encoder produces.
\<close>

section \<open>Tables\<close>

definition kPad :: int where "kPad = of_char CHR ''=''"

definition pd :: int where "pd = 0xFD"

definition sp :: int where "sp = 0xFE"

definition il :: int where "il = 0xFF"

definition Base64Table :: "int list" where
  "Base64Table = map of_char ''ABCDEFGHIJKLMNOPQRSTUVWXYZabcdefghijklmnopqrstuvwxyz0123456789+/''"

definition DecodeTable :: "int list" where
  "DecodeTable =
    [il, il, il, il, il, il, il, il, il, sp,
     sp, sp, sp, sp, il, il, il, il, il, il,
     il, il, il, il, il, il, il, il, il, il,
     il, il, sp, il, il, il, il, il, il, il,
     il, il, il, 62, il, il, il, 63, 52, 53,
     54, 55, 56, 57, 58, 59, 60, 61, il, il,
     il, pd, il, il, il, 0, 1, 2, 3, 4,
     5, 6, 7, 8, 9, 10, 11, 12, 13, 14,
     15, 16, 17, 18, 19, 20, 21, 22, 23, 24,
     25, il, il, il, il, il, il, 26, 27, 28,
     29, 30, 31, 32, 33, 34, 35, 36, 37, 38,
     39, 40, 41, 42, 43, 44, 45, 46, 47, 48,
     49, 50, 51, il, il, il, il, il, il, il,
     il, il, il, il, il, il, il, il, il, il,
     il, il, il, il, il, il, il, il, il, il,
     il, il, il, il, il, il, il, il, il, il,
     il, il, il, il, il, il, il, il, il, il,
     il, il, il, il, il, il, il, il, il, il,
     il, il, il, il, il, il, il, il, il, il,
     il, il, il, il, il, il, il, il, il, il,
     il, il, il, il, il, il, il, il, il, il,
     il, il, il, il, il, il, il, il, il, il,
     il, il, il, il, il, il, il, il, il, il,
     il, il, il, il, il, il, il, il, il, il,
     il, il, il, il, il, il, il, il, il, il,
     il, il, il, il, il, il]"

section \<open>Characters\<close>

definition IsBase64Char :: "int \<Rightarrow> bool" where
  "IsBase64Char ch \<longleftrightarrow> of_char CHR ''A'' \<le> ch \<and> ch \<le> of_char CHR ''Z'' \<or> of_char CHR ''a'' \<le> ch \<and> ch \<le> of_char CHR ''z''
     \<or> of_char CHR ''0'' \<le> ch \<and> ch \<le> of_char CHR ''9'' \<or> ch = of_char CHR ''+'' \<or> ch = of_char CHR ''/''"

text \<open>\<open>strchr\<close> on the table, which is followed by its terminating zero.\<close>

fun strchr :: "int list \<Rightarrow> int \<Rightarrow> int list option" where
  "strchr [] ch = (if ch = 0 then Some [] else None)"
| "strchr (c # cs) ch = (if c = ch then Some (c # cs) else strchr cs ch)"

text \<open>
  The result is the return value and \<open>*next_ch\<close>. When \<open>ch\<close> is zero the pointer is moved behind the terminating
  zero, which is undefined.
\<close>

definition GetNextBase64Char :: "int \<Rightarrow> int option \<Rightarrow> (bool \<times> int option) option" where
  "GetNextBase64Char ch next_ch =
     (case next_ch of None \<Rightarrow> Some (False, None)
      | Some old \<Rightarrow>
          (case strchr Base64Table ch of
             None \<Rightarrow> Some (False, Some old)
           | Some [] \<Rightarrow> None
           | Some (c # cs) \<Rightarrow> Some (True, Some (case cs of [] \<Rightarrow> Base64Table ! 0 | d # ds \<Rightarrow> d))))"

fun IsBase64Encoded :: "int list \<Rightarrow> bool" where
  "IsBase64Encoded [] = True"
| "IsBase64Encoded (c # cs) = (if \<not> IsBase64Char c then False else IsBase64Encoded cs)"

section \<open>Encoding\<close>

text \<open>
  One pass of the loop: the four characters and the bytes that are left; the argument holds the bytes from
  \<open>byte_data[i]\<close> on.
\<close>

definition encode_pass :: "int list \<Rightarrow> int list \<times> int list" where
  "encode_pass d =
     (let r0 = Base64Table ! nat ((hd d div 4) AND 0x3f);
          c = (hd d * 16) AND 0x3f;
          d = tl d;
          c = (if d \<noteq> [] then c OR ((hd d div 16) AND 0x0f) else c);
          r1 = Base64Table ! nat c;
          (r2, d) = (if d \<noteq> [] then
              let c = (hd d * 4) AND 0x3f;
                  d = tl d;
                  c = (if d \<noteq> [] then c OR ((hd d div 64) AND 0x03) else c)
              in (Base64Table ! nat c, d)
            else (kPad, d));
          (r3, d) = (if d \<noteq> [] then (Base64Table ! nat (hd d AND 0x3f), tl d) else (kPad, d))
      in ([r0, r1, r2, r3], d))"

lemma encode_pass_shorter: "d \<noteq> [] \<Longrightarrow> length (snd (encode_pass d)) < length d"
  by (cases d rule: list.exhaust; cases "tl d"; cases "tl (tl d)") (auto simp: encode_pass_def Let_def)

function EncodeFromArray :: "int list \<Rightarrow> int list" where
  "EncodeFromArray d = (if d = [] then [] else fst (encode_pass d) @ EncodeFromArray (snd (encode_pass d)))"
  by auto
termination by (relation "measure length") (auto intro: encode_pass_shorter)

declare EncodeFromArray.simps [simp del]

section \<open>Decoding\<close>

definition DO_PARSE_STRICT :: int where "DO_PARSE_STRICT = 1"

definition DO_PARSE_WHITE :: int where "DO_PARSE_WHITE = 2"

definition DO_PARSE_ANY :: int where "DO_PARSE_ANY = 3"

definition DO_PARSE_MASK :: int where "DO_PARSE_MASK = 3"

definition DO_PAD_YES :: int where "DO_PAD_YES = 4"

definition DO_PAD_ANY :: int where "DO_PAD_ANY = 8"

definition DO_PAD_NO :: int where "DO_PAD_NO = 12"

definition DO_PAD_MASK :: int where "DO_PAD_MASK = 12"

definition DO_TERM_BUFFER :: int where "DO_TERM_BUFFER = 16"

definition DO_TERM_CHAR :: int where "DO_TERM_CHAR = 32"

definition DO_TERM_ANY :: int where "DO_TERM_ANY = 48"

definition DO_TERM_MASK :: int where "DO_TERM_MASK = 48"

definition DO_STRICT :: int where "DO_STRICT = DO_PARSE_STRICT OR DO_PAD_YES OR DO_TERM_BUFFER"

definition DO_LAX :: int where "DO_LAX = DO_PARSE_ANY OR DO_PAD_ANY OR DO_TERM_CHAR"

lemmas flag_defs = DO_PARSE_STRICT_def DO_PARSE_WHITE_def DO_PARSE_ANY_def DO_PARSE_MASK_def DO_PAD_YES_def DO_PAD_ANY_def
  DO_PAD_NO_def DO_PAD_MASK_def DO_TERM_BUFFER_def DO_TERM_CHAR_def DO_TERM_ANY_def DO_TERM_MASK_def

text \<open>The variables of the loop that collects a quantum.\<close>

record quantum =
  q_dpos :: nat
  q_byte_len :: nat
  q_pad_len :: nat
  q_pad_start :: nat
  q_buf :: "int list"

text \<open>
  The loop over the characters from \<open>data[*dpos]\<close> on; leaving it with \<open>break\<close> does not advance \<open>*dpos\<close>.
\<close>

fun quantum_loop :: "int \<Rightarrow> bool \<Rightarrow> int list \<Rightarrow> quantum \<Rightarrow> quantum" where
  "quantum_loop parse_flags illegal_pads [] q = q"
| "quantum_loop parse_flags illegal_pads (ch # chs) q =
     (if \<not> q_byte_len q < 4 then q
      else
        let v = DecodeTable ! nat ch;
            q = q\<lparr>q_buf := (q_buf q)[q_byte_len q := v]\<rparr>;
            q1 = q\<lparr>q_dpos := Suc (q_dpos q)\<rparr>
        in if v = il \<or> illegal_pads \<and> v = pd then
             if parse_flags \<noteq> DO_PARSE_ANY then q else quantum_loop parse_flags illegal_pads chs q1
           else if v = sp then
             if parse_flags = DO_PARSE_STRICT then q else quantum_loop parse_flags illegal_pads chs q1
           else if v = pd then
             if q_byte_len q < 2 then
               if parse_flags \<noteq> DO_PARSE_ANY then q else quantum_loop parse_flags illegal_pads chs q1
             else if q_byte_len q + q_pad_len q \<ge> 4 then
               if parse_flags \<noteq> DO_PARSE_ANY then q else quantum_loop parse_flags illegal_pads chs q1
             else quantum_loop parse_flags illegal_pads chs
               (q1\<lparr>q_pad_len := Suc (q_pad_len q), q_pad_start := (if Suc (q_pad_len q) = 1 then q_dpos q else q_pad_start q)\<rparr>)
           else if q_pad_len q > 0 \<and> parse_flags \<noteq> DO_PARSE_ANY then q
           else quantum_loop parse_flags illegal_pads chs (q1\<lparr>q_pad_len := 0, q_byte_len := Suc (q_byte_len q)\<rparr>))"

text \<open>The result holds the length, \<open>*dpos\<close>, the buffer and \<open>*padded\<close>.\<close>

definition GetNextQuantum :: "int \<Rightarrow> bool \<Rightarrow> int list \<Rightarrow> nat \<Rightarrow> int list \<Rightarrow> nat \<times> nat \<times> int list \<times> bool" where
  "GetNextQuantum parse_flags illegal_pads data dpos qbuf =
     (let q = quantum_loop parse_flags illegal_pads (drop dpos data)
            \<lparr>q_dpos = dpos, q_byte_len = 0, q_pad_len = 0, q_pad_start = 0, q_buf = qbuf\<rparr>;
          buf = take (q_byte_len q) (q_buf q) @ replicate (4 - q_byte_len q) 0;
          padded = (4 = q_byte_len q + q_pad_len q);
          dpos = (if \<not> padded \<and> q_pad_len q \<noteq> 0 then q_pad_start q else q_dpos q)
      in (q_byte_len q, dpos, buf, padded))"

text \<open>The bytes of a quantum and the value \<open>c\<close> holds afterwards.\<close>

definition decode_bytes :: "nat \<Rightarrow> int list \<Rightarrow> int list \<times> int" where
  "decode_bytes qlen qbuf =
     (let c = u8 ((qbuf ! 0 * 4) OR ((qbuf ! 1 div 16) AND 0x3) ) in
      if qlen \<ge> 2 then
        let r = [c]; c = u8 (((qbuf ! 1 * 16) AND 0xf0) OR ((qbuf ! 2 div 4) AND 0xf)) in
        if qlen \<ge> 3 then
          let r = r @ [c]; c = u8 (((qbuf ! 2 * 64) AND 0xc0) OR qbuf ! 3) in
          if qlen \<ge> 4 then (r @ [c], 0) else (r, c)
        else (r, c)
      else ([], c))"

text \<open>A full quantum has taken four characters and no padding is pending.\<close>

declare quantum_loop.simps(2) [simp del]

text \<open>One character: the loop stops, skips it, counts it as padding or takes it as a digit.\<close>

lemma quantum_loop_cases:
  obtains (full) "\<not> q_byte_len q < 4" "quantum_loop pf ip (ch # chs) q = q"
  | (stop) b where "q_byte_len q < 4" "quantum_loop pf ip (ch # chs) q = q\<lparr>q_buf := b\<rparr>"
  | (skip) b where "q_byte_len q < 4" "quantum_loop pf ip (ch # chs) q = quantum_loop pf ip chs (q\<lparr>q_buf := b, q_dpos := Suc (q_dpos q)\<rparr>)"
  | (pad) b s where "q_byte_len q < 4" "quantum_loop pf ip (ch # chs) q
      = quantum_loop pf ip chs (q\<lparr>q_buf := b, q_dpos := Suc (q_dpos q), q_pad_len := Suc (q_pad_len q), q_pad_start := s\<rparr>)"
  | (digit) b where "q_byte_len q < 4" "quantum_loop pf ip (ch # chs) q
      = quantum_loop pf ip chs (q\<lparr>q_buf := b, q_dpos := Suc (q_dpos q), q_pad_len := 0, q_byte_len := Suc (q_byte_len q)\<rparr>)"
proof (cases "q_byte_len q < 4")
  case True
  define v b s where "v = DecodeTable ! nat ch" and "b = (q_buf q)[q_byte_len q := v]"
    and "s = (if Suc (q_pad_len q) = 1 then q_dpos q else q_pad_start q)"
  have eq: "quantum_loop pf ip (ch # chs) q =
    (if v = il \<or> ip \<and> v = pd then
       if pf \<noteq> DO_PARSE_ANY then q\<lparr>q_buf := b\<rparr> else quantum_loop pf ip chs (q\<lparr>q_buf := b, q_dpos := Suc (q_dpos q)\<rparr>)
     else if v = sp then
       if pf = DO_PARSE_STRICT then q\<lparr>q_buf := b\<rparr> else quantum_loop pf ip chs (q\<lparr>q_buf := b, q_dpos := Suc (q_dpos q)\<rparr>)
     else if v = pd then
       if q_byte_len q < 2 \<or> q_byte_len q + q_pad_len q \<ge> 4 then
         if pf \<noteq> DO_PARSE_ANY then q\<lparr>q_buf := b\<rparr> else quantum_loop pf ip chs (q\<lparr>q_buf := b, q_dpos := Suc (q_dpos q)\<rparr>)
       else quantum_loop pf ip chs (q\<lparr>q_buf := b, q_dpos := Suc (q_dpos q), q_pad_len := Suc (q_pad_len q), q_pad_start := s\<rparr>)
     else if q_pad_len q > 0 \<and> pf \<noteq> DO_PARSE_ANY then q\<lparr>q_buf := b\<rparr>
     else quantum_loop pf ip chs (q\<lparr>q_buf := b, q_dpos := Suc (q_dpos q), q_pad_len := 0, q_byte_len := Suc (q_byte_len q)\<rparr>))"
    using True unfolding quantum_loop.simps(2) Let_def v_def [symmetric] b_def [symmetric] s_def by simp
  then consider "quantum_loop pf ip (ch # chs) q = q\<lparr>q_buf := b\<rparr>"
    | "quantum_loop pf ip (ch # chs) q = quantum_loop pf ip chs (q\<lparr>q_buf := b, q_dpos := Suc (q_dpos q)\<rparr>)"
    | "quantum_loop pf ip (ch # chs) q = quantum_loop pf ip chs (q\<lparr>q_buf := b, q_dpos := Suc (q_dpos q), q_pad_len := Suc (q_pad_len q), q_pad_start := s\<rparr>)"
    | "quantum_loop pf ip (ch # chs) q = quantum_loop pf ip chs (q\<lparr>q_buf := b, q_dpos := Suc (q_dpos q), q_pad_len := 0, q_byte_len := Suc (q_byte_len q)\<rparr>)"
    by presburger
  then show thesis using True by cases (rule stop skip pad digit; assumption)+
next
  case False
  then show thesis by (intro full) (simp_all add: quantum_loop.simps(2))
qed

lemma quantum_loop_stop [simp]: "\<not> q_byte_len q < 4 \<Longrightarrow> quantum_loop pf ip chs q = q"
  by (cases chs) (simp_all add: quantum_loop.simps(2))

lemma quantum_loop_progress:
  assumes "q_byte_len q < 4" "q_byte_len (quantum_loop pf ip chs q) \<ge> 4"
  shows "q_dpos q < q_dpos (quantum_loop pf ip chs q) \<and> q_pad_len (quantum_loop pf ip chs q) = 0 \<and> q_byte_len (quantum_loop pf ip chs q) = 4"
  using assms
proof (induction chs arbitrary: q)
  case (Cons ch chs)
  show ?case
  proof (cases rule: quantum_loop_cases [of q pf ip ch chs])
    case (skip b)
    from Cons.IH [of "q\<lparr>q_buf := b, q_dpos := Suc (q_dpos q)\<rparr>"] Cons.prems skip show ?thesis by simp
  next
    case (pad b s)
    from Cons.IH [of "q\<lparr>q_buf := b, q_dpos := Suc (q_dpos q), q_pad_len := Suc (q_pad_len q), q_pad_start := s\<rparr>"] Cons.prems pad show ?thesis by simp
  next
    case (digit b)
    let ?q = "q\<lparr>q_buf := b, q_dpos := Suc (q_dpos q), q_pad_len := 0, q_byte_len := Suc (q_byte_len q)\<rparr>"
    show ?thesis
    proof (cases "q_byte_len ?q < 4")
      case True
      from Cons.IH [OF True] Cons.prems digit show ?thesis by simp
    next
      case False
      with Cons.prems(1) digit show ?thesis by simp
    qed
  qed (use Cons.prems in simp_all)
qed simp

lemma GetNextQuantum_progress:
  assumes "GetNextQuantum pf ip data dpos qb = (qlen, dpos', buf, padded)" "\<not> qlen < 4"
  shows "dpos < dpos'"
  using assms quantum_loop_progress [of "\<lparr>q_dpos = dpos, q_byte_len = 0, q_pad_len = 0, q_pad_start = 0, q_buf = qb\<rparr>" pf ip "drop dpos data"]
  by (auto simp: GetNextQuantum_def Let_def)

text \<open>The result holds the bytes, \<open>dpos\<close> and \<open>success\<close>; \<open>qbuf\<close> is the buffer the previous quantum left.\<close>

function decode_loop :: "int \<Rightarrow> int \<Rightarrow> int \<Rightarrow> int list \<Rightarrow> nat \<Rightarrow> int list \<Rightarrow> int list \<times> nat \<times> bool" where
  "decode_loop parse_flags pad_flags term_flags data dpos qbuf =
     (if \<not> dpos < length data then ([], dpos, True)
      else
        let (qlen, dpos, qbuf, padded) = GetNextQuantum parse_flags (DO_PAD_NO = pad_flags) data dpos qbuf;
            (bytes, c) = decode_bytes qlen qbuf
        in if qlen < 4 then
             (bytes, dpos, \<not> (DO_TERM_ANY \<noteq> term_flags \<and> 0 \<noteq> c) \<and> \<not> (DO_PAD_YES = pad_flags \<and> \<not> padded))
           else let (result, dpos, success) = decode_loop parse_flags pad_flags term_flags data dpos qbuf
                in (bytes @ result, dpos, success))"
  by auto
termination
  by (relation "measure (\<lambda>(_, _, _, data, dpos, _). length data - dpos)") (auto dest!: GetNextQuantum_progress [OF sym])

declare decode_loop.simps [simp del]

text \<open>
  The failure of an assertion is \<open>None\<close>; \<open>stack\<close> is the uninitialised buffer of a quantum. The result holds the
  return value, the decoded bytes and \<open>*data_used\<close>.
\<close>

definition DecodeFromArrayTemplate :: "int list \<Rightarrow> int list \<Rightarrow> int \<Rightarrow> (bool \<times> int list \<times> nat) option" where
  "DecodeFromArrayTemplate stack data flags =
     (let parse_flags = flags AND DO_PARSE_MASK;
          pad_flags = flags AND DO_PAD_MASK;
          term_flags = flags AND DO_TERM_MASK
      in if \<not> flags \<le> (DO_PARSE_MASK OR DO_PAD_MASK OR DO_TERM_MASK) \<or> parse_flags = 0 \<or> pad_flags = 0 \<or> term_flags = 0 then None
      else
        let (result, dpos, success) = decode_loop parse_flags pad_flags term_flags data 0 stack;
            success = (if DO_TERM_BUFFER = term_flags \<and> dpos \<noteq> length data then False else success)
        in Some (success, result, dpos))"

definition Encode :: "int list \<Rightarrow> int list" where
  "Encode data = EncodeFromArray data"

definition Decode :: "int list \<Rightarrow> int list \<Rightarrow> int \<Rightarrow> (bool \<times> int list \<times> nat) option" where
  "Decode stack data flags = DecodeFromArrayTemplate stack data flags"

section \<open>Bits\<close>

lemma and_mod: "(x::int) AND 0x3f = x mod 64" "x AND 0x0f = x mod 16" "x AND 0x03 = x mod 4"
  using take_bit_eq_mask [of 6 x] take_bit_eq_mask [of 4 x] take_bit_eq_mask [of 2 x]
  by (simp_all add: take_bit_eq_mod mask_eq_exp_minus_1)

lemma and_high: "(x::int) * 16 AND 0xf0 = x mod 16 * 16" "x * 64 AND 0xc0 = x mod 4 * 64"
  using push_bit_and [of 4 x 15] push_bit_and [of 6 x 3] by (simp_all add: and_mod push_bit_eq_mult)

lemma or_add: "0 \<le> y \<Longrightarrow> y < 2 ^ n \<Longrightarrow> (x * 2 ^ n) OR y = x * 2 ^ n + (y::int)"
  using concat_bit_eq [of n y x] concat_bit_def [of n y x]
  by (simp add: take_bit_int_eq_self push_bit_eq_mult or.commute add.commute)

lemmas or_adds = or_add [where n = 2, simplified] or_add [where n = 4, simplified] or_add [where n = 6, simplified]

text \<open>The four indices of three bytes, and back.\<close>

lemma encode_indices:
  fixes a b c :: int
  assumes "0 \<le> a" "a < 256" "0 \<le> b" "b < 256" "0 \<le> c" "c < 256"
  shows "(a div 4) AND 0x3f = a div 4" "(a * 16) AND 0x3f = a mod 4 * 16"
    "(a * 16) AND 0x3f OR ((b div 16) AND 0x0f) = a mod 4 * 16 + b div 16" "(b * 4) AND 0x3f = b mod 16 * 4"
    "(b * 4) AND 0x3f OR ((c div 64) AND 0x03) = b mod 16 * 4 + c div 64" "c AND 0x3f = c mod 64"
proof -
  have m: "a * 16 mod 64 = a mod 4 * 16" "b * 4 mod 64 = b mod 16 * 4" using mult_mod_left [of a 4 16] mult_mod_left [of b 16 4] by simp_all
  have d: "a div 4 < 64" "b div 16 < 16" "c div 64 < 4" using assms by simp_all
  show "(a div 4) AND 0x3f = a div 4" using d assms by (simp add: and_mod)
  show "(a * 16) AND 0x3f = a mod 4 * 16" "(b * 4) AND 0x3f = b mod 16 * 4" "c AND 0x3f = c mod 64" by (simp_all add: and_mod m)
  show "(a * 16) AND 0x3f OR ((b div 16) AND 0x0f) = a mod 4 * 16 + b div 16"
    using d assms by (simp add: and_mod m or_adds)
  show "(b * 4) AND 0x3f OR ((c div 64) AND 0x03) = b mod 16 * 4 + c div 64"
    using d assms by (simp add: and_mod m or_adds)
qed

lemma decode_indices:
  fixes w x y z :: int
  assumes "0 \<le> w" "w < 64" "0 \<le> x" "x < 64" "0 \<le> y" "y < 64" "0 \<le> z" "z < 64"
  shows "u8 ((w * 4) OR ((x div 16) AND 0x3)) = w * 4 + x div 16" "u8 (((x * 16) AND 0xf0) OR ((y div 4) AND 0xf)) = x mod 16 * 16 + y div 4"
    "u8 (((y * 64) AND 0xc0) OR z) = y mod 4 * 64 + z"
proof -
  have d: "x div 16 < 4" "y div 4 < 16" using assms by simp_all
  show "u8 ((w * 4) OR ((x div 16) AND 0x3)) = w * 4 + x div 16" using d assms by (simp add: and_mod or_adds u8_def)
  show "u8 (((x * 16) AND 0xf0) OR ((y div 4) AND 0xf)) = x mod 16 * 16 + y div 4"
    using d assms pos_mod_bound [of 16 x] by (simp add: and_mod and_high or_adds u8_def)
  show "u8 (((y * 64) AND 0xc0) OR z) = y mod 4 * 64 + z"
    using assms pos_mod_bound [of 4 y] by (simp add: and_high or_adds u8_def)
qed

section \<open>Tables\<close>

lemma tables: "i < 64 \<Longrightarrow> DecodeTable ! nat (Base64Table ! i) = int i"
proof -
  have "\<forall>i \<in> {..<64}. DecodeTable ! nat (Base64Table ! i) = int i" by code_simp
  then show "i < 64 \<Longrightarrow> DecodeTable ! nat (Base64Table ! i) = int i" by simp
qed

text \<open>Every byte decodes to a digit, whose character it is, or is padding, white space or illegal.\<close>

lemma DecodeTable_cases:
  assumes "0 \<le> ch" "ch < 256"
  shows "DecodeTable ! nat ch = il \<or> DecodeTable ! nat ch = sp \<or> DecodeTable ! nat ch = pd \<and> ch = kPad
    \<or> 0 \<le> DecodeTable ! nat ch \<and> DecodeTable ! nat ch < 64 \<and> Base64Table ! nat (DecodeTable ! nat ch) = ch"
proof -
  have "\<forall>i \<in> {..<256}. let v = DecodeTable ! i in v = il \<or> v = sp \<or> v = pd \<and> int i = kPad \<or> 0 \<le> v \<and> v < 64 \<and> Base64Table ! nat v = int i"
    by code_simp
  from bspec [OF this, of "nat ch"] assms show ?thesis by (simp add: Let_def nat_less_iff)
qed

lemma DecodeTable_pad: "DecodeTable ! nat kPad = pd"
  by code_simp

section \<open>Encoded strings\<close>

definition digit_char :: "int \<Rightarrow> int" where
  "digit_char v = Base64Table ! nat v"

definition is_byte :: "int \<Rightarrow> bool" where
  "is_byte x \<longleftrightarrow> 0 \<le> x \<and> x < 256"

definition is_digit :: "int \<Rightarrow> bool" where
  "is_digit v \<longleftrightarrow> 0 \<le> v \<and> v < 64"

lemma Encode_Nil: "EncodeFromArray [] = []"
  by (simp add: EncodeFromArray.simps)

lemma Encode_1:
  assumes "is_byte a"
  shows "EncodeFromArray [a] = [digit_char (a div 4), digit_char (a mod 4 * 16), kPad, kPad]"
  using assms encode_indices [of a 0 0]
  by (simp add: EncodeFromArray.simps [of "[a]"] Encode_Nil encode_pass_def is_byte_def digit_char_def)

lemma Encode_2:
  assumes "is_byte a" "is_byte b"
  shows "EncodeFromArray [a, b] = [digit_char (a div 4), digit_char (a mod 4 * 16 + b div 16), digit_char (b mod 16 * 4), kPad]"
  using assms encode_indices [of a b 0]
  by (simp add: EncodeFromArray.simps [of "[a, b]"] Encode_Nil encode_pass_def is_byte_def digit_char_def)

lemma Encode_3:
  assumes "is_byte a" "is_byte b" "is_byte c"
  shows "EncodeFromArray (a # b # c # xs)
    = [digit_char (a div 4), digit_char (a mod 4 * 16 + b div 16), digit_char (b mod 16 * 4 + c div 64), digit_char (c mod 64)] @ EncodeFromArray xs"
  using assms encode_indices [of a b c]
  by (simp add: EncodeFromArray.simps [of "a # b # c # xs"] encode_pass_def is_byte_def digit_char_def)

text \<open>Induction over blocks of three bytes.\<close>

lemma block_induct [case_names Nil One Two Block]:
  assumes "P []" "\<And>a. P [a]" "\<And>a b. P [a, b]" "\<And>a b c xs. P xs \<Longrightarrow> P (a # b # c # xs)"
  shows "P xs"
proof (induction "length xs" arbitrary: xs rule: less_induct)
  case less
  consider "xs = []" | a where "xs = [a]" | a b where "xs = [a, b]" | a b c ys where "xs = a # b # c # ys"
    by (cases xs; cases "tl xs"; cases "tl (tl xs)") auto
  then show ?case using assms less by cases auto
qed

lemma Encode_length: "\<forall>x \<in> set xs. is_byte x \<Longrightarrow> length (EncodeFromArray xs) = (length xs + 2) div 3 * 4"
proof (induction xs rule: block_induct)
  case (Block a b c xs)
  have "(5 + length xs) div 3 = Suc (Suc (Suc (length xs)) div 3)" by presburger
  with Block show ?case by (simp add: Encode_3)
qed (simp_all add: Encode_Nil Encode_1 Encode_2)

section \<open>Collecting a quantum\<close>

lemma digit_decodes: "is_digit v \<Longrightarrow> DecodeTable ! nat (digit_char v) = v"
  using tables [of "nat v"] by (simp add: digit_char_def is_digit_def nat_less_iff)

lemma loop_digit:
  assumes "is_digit v" "q_byte_len q < 4" "q_pad_len q = 0"
  shows "quantum_loop pf ip (digit_char v # chs) q
    = quantum_loop pf ip chs (q\<lparr>q_buf := (q_buf q)[q_byte_len q := v], q_dpos := Suc (q_dpos q), q_pad_len := 0, q_byte_len := Suc (q_byte_len q)\<rparr>)"
proof -
  have "v \<noteq> il" "v \<noteq> sp" "v \<noteq> pd" using assms(1) by (simp_all add: is_digit_def il_def sp_def pd_def)
  then show ?thesis
    using assms(2,3) by (simp add: quantum_loop.simps(2) digit_decodes [OF assms(1)] Let_def)
qed

lemma loop_pad:
  assumes "2 \<le> q_byte_len q" "q_byte_len q + q_pad_len q < 4"
  shows "quantum_loop pf False (kPad # chs) q
    = quantum_loop pf False chs (q\<lparr>q_buf := (q_buf q)[q_byte_len q := pd], q_dpos := Suc (q_dpos q), q_pad_len := Suc (q_pad_len q),
        q_pad_start := (if q_pad_len q = 0 then q_dpos q else q_pad_start q)\<rparr>)"
  using assms by (simp add: quantum_loop.simps(2) DecodeTable_pad Let_def il_def sp_def pd_def)

lemma four: "length qb = 4 \<Longrightarrow> \<exists>a b c d. qb = [a, b, c, d]"
  by (auto simp: length_Suc_conv numeral_eq_Suc)

lemma quantum_4:
  assumes "drop dpos data = [digit_char w, digit_char x, digit_char y, digit_char z] @ rest" "is_digit w" "is_digit x" "is_digit y" "is_digit z" "length qb = 4"
  shows "GetNextQuantum pf ip data dpos qb = (4, dpos + 4, [w, x, y, z], True)"
  using assms four [OF assms(6)] by (auto simp: GetNextQuantum_def Let_def loop_digit numeral_2_eq_2 numeral_3_eq_3)

lemma quantum_3:
  assumes "drop dpos data = [digit_char w, digit_char x, digit_char y, kPad]" "is_digit w" "is_digit x" "is_digit y" "length qb = 4"
  shows "GetNextQuantum pf False data dpos qb = (3, dpos + 4, [w, x, y, 0], True)"
  using assms four [OF assms(5)] by (auto simp: GetNextQuantum_def Let_def loop_digit loop_pad numeral_2_eq_2 numeral_3_eq_3)

lemma quantum_2:
  assumes "drop dpos data = [digit_char w, digit_char x, kPad, kPad]" "is_digit w" "is_digit x" "length qb = 4"
  shows "GetNextQuantum pf False data dpos qb = (2, dpos + 4, [w, x, 0, 0], True)"
  using assms four [OF assms(4)] by (auto simp: GetNextQuantum_def Let_def loop_digit loop_pad numeral_2_eq_2 numeral_3_eq_3)

lemma decode_bytes_4:
  "is_digit w \<Longrightarrow> is_digit x \<Longrightarrow> is_digit y \<Longrightarrow> is_digit z
    \<Longrightarrow> decode_bytes 4 [w, x, y, z] = ([w * 4 + x div 16, x mod 16 * 16 + y div 4, y mod 4 * 64 + z], 0)"
  using decode_indices [of w x y z] by (simp add: decode_bytes_def is_digit_def Let_def)

lemma decode_bytes_3:
  "is_digit w \<Longrightarrow> is_digit x \<Longrightarrow> is_digit y
    \<Longrightarrow> decode_bytes 3 [w, x, y, 0] = ([w * 4 + x div 16, x mod 16 * 16 + y div 4], y mod 4 * 64)"
  using decode_indices [of w x y 0] by (simp add: decode_bytes_def is_digit_def Let_def)

lemma decode_bytes_2: "is_digit w \<Longrightarrow> is_digit x \<Longrightarrow> decode_bytes 2 [w, x, 0, 0] = ([w * 4 + x div 16], x mod 16 * 16)"
  using decode_indices [of w x 0 0] by (simp add: decode_bytes_def is_digit_def Let_def)

lemmas decode_bytes_eq = decode_bytes_4 decode_bytes_3 decode_bytes_2

section \<open>Decoding an encoded string\<close>

lemma digits:
  assumes "is_byte a" "is_byte b" "is_byte c"
  shows "is_digit (a div 4)" "is_digit (a mod 4 * 16)" "is_digit (a mod 4 * 16 + b div 16)" "is_digit (b mod 16 * 4)"
    "is_digit (b mod 16 * 4 + c div 64)" "is_digit (c mod 64)"
proof -
  have m: "0 \<le> a mod 4" "a mod 4 < 4" "0 \<le> b mod 16" "b mod 16 < 16" by simp_all
  have d: "0 \<le> a div 4" "a div 4 < 64" "0 \<le> b div 16" "b div 16 < 16" "0 \<le> c div 64" "c div 64 < 4" using assms by (auto simp: is_byte_def)
  show "is_digit (a div 4)" "is_digit (a mod 4 * 16)" "is_digit (a mod 4 * 16 + b div 16)" "is_digit (b mod 16 * 4)"
    "is_digit (b mod 16 * 4 + c div 64)" "is_digit (c mod 64)"
    using m d unfolding is_digit_def by simp_all
qed

lemma regroup:
  fixes a b c :: int
  assumes "is_byte a" "is_byte b" "is_byte c"
  shows "a div 4 * 4 + (a mod 4 * 16 + b div 16) div 16 = a" "(a mod 4 * 16 + b div 16) mod 16 * 16 + (b mod 16 * 4 + c div 64) div 4 = b"
    "(b mod 16 * 4 + c div 64) mod 4 * 64 + c mod 64 = c"
proof -
  have d: "0 \<le> b div 16" "b div 16 < 16" "0 \<le> c div 64" "c div 64 < 4" using assms by (auto simp: is_byte_def)
  have 1: "(a mod 4 * 16 + b div 16) div 16 = a mod 4" "(a mod 4 * 16 + b div 16) mod 16 = b div 16"
    using d div_mult_self3 [of 16 "b div 16" "a mod 4"] by simp_all
  have 2: "(b mod 16 * 4 + c div 64) div 4 = b mod 16" "(b mod 16 * 4 + c div 64) mod 4 = c div 64" using d by simp_all
  show "a div 4 * 4 + (a mod 4 * 16 + b div 16) div 16 = a" "(a mod 4 * 16 + b div 16) mod 16 * 16 + (b mod 16 * 4 + c div 64) div 4 = b"
    "(b mod 16 * 4 + c div 64) mod 4 * 64 + c mod 64 = c"
    unfolding 1 2 by simp_all
qed

lemma regroup_0:
  fixes a b :: int
  assumes "is_byte a" "is_byte b"
  shows "a div 4 * 4 + (a mod 4 * 16) div 16 = a" "(a mod 4 * 16) mod 16 * 16 = 0"
    "(a mod 4 * 16 + b div 16) mod 16 * 16 + (b mod 16 * 4) div 4 = b" "(b mod 16 * 4) mod 4 * 64 = 0"
  using regroup [of a 0 0] regroup [of a b 0] assms by (simp_all add: is_byte_def)

lemma decode_loop_encoded:
  assumes "drop dpos data = EncodeFromArray xs" "dpos \<le> length data" "\<forall>x \<in> set xs. is_byte x" "length qb = 4" "padf \<noteq> DO_PAD_NO"
  shows "decode_loop pf padf tf data dpos qb = (xs, length data, True)"
  using assms
proof (induction xs arbitrary: dpos qb rule: block_induct)
  case Nil
  then show ?case by (simp add: decode_loop.simps Encode_Nil)
next
  case (One a)
  then have a: "is_byte a" "drop dpos data = [digit_char (a div 4), digit_char (a mod 4 * 16), kPad, kPad]" by (simp_all add: Encode_1)
  from arg_cong [OF a(2), of length] have "dpos + 4 = length data" by simp
  with a One show ?case
    by (simp add: decode_loop.simps quantum_2 [OF a(2) digits(1,2) [OF a(1) a(1) a(1)]] decode_bytes_eq digits [OF a(1) a(1) a(1)] regroup_0 [OF a(1) a(1)])
next
  case (Two a b)
  then have a: "is_byte a" "is_byte b" "drop dpos data = [digit_char (a div 4), digit_char (a mod 4 * 16 + b div 16), digit_char (b mod 16 * 4), kPad]"
    by (simp_all add: Encode_2)
  from arg_cong [OF a(3), of length] have "dpos + 4 = length data" by simp
  moreover have "b div 16 div 16 = 0" "b div 16 mod 16 = b div 16" using a(2) by (auto simp: is_byte_def)
  ultimately show ?case using a Two
    by (simp add: decode_loop.simps quantum_3 [OF a(3) digits(1,3,4) [OF a(1,2) a(1)]] decode_bytes_eq digits [OF a(1,2) a(1)] regroup [OF a(1,2) a(1)] regroup_0 [OF a(1,2)])
next
  case (Block a b c xs)
  then have a: "is_byte a" "is_byte b" "is_byte c" "drop dpos data = [digit_char (a div 4), digit_char (a mod 4 * 16 + b div 16),
      digit_char (b mod 16 * 4 + c div 64), digit_char (c mod 64)] @ EncodeFromArray xs"
    by (simp_all add: Encode_3)
  from arg_cong [OF a(4), of length] have l: "dpos + 4 \<le> length data" by simp
  have "drop (dpos + 4) data = EncodeFromArray xs" using arg_cong [OF a(4), of "drop 4"] by (simp add: add.commute)
  moreover have "b div 16 div 16 = 0" "b div 16 mod 16 = b div 16" "c div 64 div 4 = 0" "c div 64 mod 4 = c div 64" using a(2,3) by (auto simp: is_byte_def)
  ultimately show ?case
    using Block.IH [OF _ l, of "[a div 4, a mod 4 * 16 + b div 16, b mod 16 * 4 + c div 64, c mod 64]"] a l Block.prems
    by (simp add: decode_loop.simps [of _ _ _ _ dpos] quantum_4 [OF a(4) digits(1,3,5,6) [OF a(1-3)]] decode_bytes_eq digits [OF a(1-3)] regroup [OF a(1-3)])
qed


section \<open>The encoder and the decoder together\<close>

text \<open>The flags of a decoding: an option of each group.\<close>

definition decode_flags :: "int \<Rightarrow> bool" where
  "decode_flags flags \<longleftrightarrow> flags \<le> (DO_PARSE_MASK OR DO_PAD_MASK OR DO_TERM_MASK)
     \<and> flags AND DO_PARSE_MASK \<noteq> 0 \<and> flags AND DO_PAD_MASK \<noteq> 0 \<and> flags AND DO_TERM_MASK \<noteq> 0"

text \<open>C29. Every string of bytes is encoded to four characters for each started group of three, and decoding it gives
  back the bytes, reports success and has used all characters, under every combination of options that does not
  forbid padding, whatever the decoder's quantum buffer held before.\<close>

theorem base64_roundtrip:
  assumes "\<forall>x \<in> set data. is_byte x" "length stack = 4" "decode_flags flags" "flags AND DO_PAD_MASK \<noteq> DO_PAD_NO"
  shows "length (Encode data) = (length data + 2) div 3 * 4
    \<and> Decode stack (Encode data) flags = Some (True, data, length (Encode data))"
  using assms decode_loop_encoded [of 0 "EncodeFromArray data" data stack "flags AND DO_PAD_MASK" "flags AND DO_PARSE_MASK" "flags AND DO_TERM_MASK"]
  by (auto simp: Encode_def Decode_def DecodeFromArrayTemplate_def decode_flags_def Encode_length Let_def)

theorem base64_roundtrip_witness: "Decode [7, 7, 7, 7] (Encode [0, 255, 16, 77]) DO_STRICT = Some (True, [0, 255, 16, 77], 8)"
  using base64_roundtrip [of "[0, 255, 16, 77]" "[7, 7, 7, 7]" DO_STRICT]
  by (simp add: is_byte_def decode_flags_def DO_STRICT_def DO_PARSE_MASK_def DO_PAD_MASK_def DO_TERM_MASK_def DO_PARSE_STRICT_def DO_PAD_YES_def
      DO_PAD_NO_def DO_TERM_BUFFER_def)


section \<open>Strict decoding\<close>

text \<open>What a strict pass took from the characters: digits and then padding, and nothing else.\<close>

definition taken :: "int list \<Rightarrow> quantum \<Rightarrow> quantum \<Rightarrow> int list \<Rightarrow> nat \<Rightarrow> bool" where
  "taken chs q q' ds p \<longleftrightarrow> take (length ds + p) chs = map digit_char ds @ replicate p kPad \<and> (\<forall>v \<in> set ds. is_digit v)
    \<and> q_byte_len q' = q_byte_len q + length ds \<and> q_pad_len q' = q_pad_len q + p \<and> q_dpos q' = q_dpos q + length ds + p
    \<and> take (q_byte_len q') (q_buf q') = take (q_byte_len q) (q_buf q) @ ds \<and> (q_pad_len q > 0 \<longrightarrow> ds = [])
    \<and> q_byte_len q' + q_pad_len q' \<le> 4 \<and> (p > 0 \<longrightarrow> 2 \<le> q_byte_len q')"

lemma taken_none: "q_byte_len q + q_pad_len q \<le> 4 \<Longrightarrow> taken chs q (q\<lparr>q_buf := (q_buf q)[q_byte_len q := v]\<rparr>) [] 0"
  by (simp add: taken_def)

lemma taken_refl: "q_byte_len q + q_pad_len q \<le> 4 \<Longrightarrow> taken chs q q [] 0"
  by (simp add: taken_def)

lemma taken_pad:
  assumes "taken chs (q\<lparr>q_buf := (q_buf q)[q_byte_len q := pd], q_dpos := Suc (q_dpos q), q_pad_len := Suc (q_pad_len q), q_pad_start := s\<rparr>) q' ds p"
    "2 \<le> q_byte_len q"
  shows "taken (kPad # chs) q q' ds (Suc p)"
proof -
  have "ds = []" using assms(1) by (simp add: taken_def)
  with assms show ?thesis by (auto simp: taken_def)
qed

lemma taken_digit:
  assumes "taken chs (q\<lparr>q_buf := (q_buf q)[q_byte_len q := v], q_dpos := Suc (q_dpos q), q_pad_len := 0, q_byte_len := Suc (q_byte_len q)\<rparr>) q' ds p"
    "is_digit v" "q_pad_len q = 0" "q_byte_len q < length (q_buf q)"
  shows "taken (digit_char v # chs) q q' (v # ds) p"
proof -
  have "take (Suc (q_byte_len q)) ((q_buf q)[q_byte_len q := v]) = take (q_byte_len q) (q_buf q) @ [v]"
    using assms(4) by (simp add: take_Suc_conv_app_nth)
  with assms show ?thesis by (auto simp: taken_def)
qed

text \<open>A character at which the strict loop stops.\<close>

lemma strict_stop:
  assumes "DecodeTable ! nat ch = v" "v = il \<or> v = sp \<or> v = pd \<and> (q_byte_len q < 2 \<or> q_byte_len q + q_pad_len q \<ge> 4)
      \<or> is_digit v \<and> q_pad_len q > 0" "q_byte_len q < 4"
  shows "quantum_loop DO_PARSE_STRICT False (ch # chs) q = q\<lparr>q_buf := (q_buf q)[q_byte_len q := v]\<rparr>"
  using assms by (auto simp: quantum_loop.simps(2) DO_PARSE_STRICT_def DO_PARSE_ANY_def Let_def il_def sp_def pd_def is_digit_def)

lemma strict_pad:
  assumes "2 \<le> q_byte_len q" "q_byte_len q + q_pad_len q < 4" "length (q_buf q) = 4"
    "\<And>q. length (q_buf q) = 4 \<Longrightarrow> q_byte_len q + q_pad_len q \<le> 4 \<Longrightarrow> \<exists>ds p. taken chs q (quantum_loop DO_PARSE_STRICT False chs q) ds p"
  shows "\<exists>ds p. taken (kPad # chs) q (quantum_loop DO_PARSE_STRICT False (kPad # chs) q) ds p"
proof -
  define q1 where "q1 = q\<lparr>q_buf := (q_buf q)[q_byte_len q := pd], q_dpos := Suc (q_dpos q), q_pad_len := Suc (q_pad_len q),
    q_pad_start := (if q_pad_len q = 0 then q_dpos q else q_pad_start q)\<rparr>"
  have "length (q_buf q1) = 4" "q_byte_len q1 + q_pad_len q1 \<le> 4" using assms(2,3) by (simp_all add: q1_def)
  from assms(4) [OF this] obtain ds p where "taken chs q1 (quantum_loop DO_PARSE_STRICT False chs q1) ds p" by blast
  from taken_pad [OF this [unfolded q1_def] assms(1)] show ?thesis unfolding loop_pad [OF assms(1,2)] by blast
qed

lemma strict_digit:
  assumes "is_digit v" "q_byte_len q < 4" "q_pad_len q = 0" "length (q_buf q) = 4"
    "\<And>q. length (q_buf q) = 4 \<Longrightarrow> q_byte_len q + q_pad_len q \<le> 4 \<Longrightarrow> \<exists>ds p. taken chs q (quantum_loop DO_PARSE_STRICT False chs q) ds p"
  shows "\<exists>ds p. taken (digit_char v # chs) q (quantum_loop DO_PARSE_STRICT False (digit_char v # chs) q) ds p"
proof -
  define q1 where "q1 = q\<lparr>q_buf := (q_buf q)[q_byte_len q := v], q_dpos := Suc (q_dpos q), q_pad_len := 0, q_byte_len := Suc (q_byte_len q)\<rparr>"
  have "length (q_buf q1) = 4" "q_byte_len q1 + q_pad_len q1 \<le> 4" using assms(2,4) by (simp_all add: q1_def)
  from assms(5) [OF this] obtain ds p where "taken chs q1 (quantum_loop DO_PARSE_STRICT False chs q1) ds p" by blast
  moreover have "q_byte_len q < length (q_buf q)" using assms(2,4) by simp
  ultimately show ?thesis using taken_digit [OF _ assms(1,3)] unfolding loop_digit [OF assms(1-3)] q1_def by blast
qed

lemma char_cases:
  assumes "is_byte ch"
  shows "DecodeTable ! nat ch = il \<or> DecodeTable ! nat ch = sp \<or> DecodeTable ! nat ch = pd \<and> ch = kPad
    \<or> (\<exists>v. is_digit v \<and> DecodeTable ! nat ch = v \<and> ch = digit_char v)"
  using DecodeTable_cases [of ch] assms unfolding is_byte_def is_digit_def digit_char_def by metis

lemma strict_loop:
  assumes "\<forall>c \<in> set chs. is_byte c" "length (q_buf q) = 4" "q_byte_len q + q_pad_len q \<le> 4"
  shows "\<exists>ds p. taken chs q (quantum_loop DO_PARSE_STRICT False chs q) ds p"
  using assms
proof (induction chs arbitrary: q)
  case Nil
  from taken_refl [OF Nil(3)] show ?case unfolding quantum_loop.simps(1) by blast
next
  case (Cons ch chs)
  have ih: "\<exists>ds p. taken chs q (quantum_loop DO_PARSE_STRICT False chs q) ds p" if "length (q_buf q) = 4" "q_byte_len q + q_pad_len q \<le> 4" for q
    using Cons.IH [OF _ that] Cons.prems(1) by simp
  have stops: ?case if "quantum_loop DO_PARSE_STRICT False (ch # chs) q = q\<lparr>q_buf := (q_buf q)[q_byte_len q := v]\<rparr>" for v
    using taken_none [OF Cons.prems(3)] unfolding that by blast
  show ?case
  proof (cases "q_byte_len q < 4")
    case False
    then have "quantum_loop DO_PARSE_STRICT False (ch # chs) q = q" by (simp add: quantum_loop.simps(2))
    with taken_refl [OF Cons.prems(3)] show ?thesis by metis
  next
    case True
    have "is_byte ch" using Cons.prems(1) by simp
    from char_cases [OF this] consider "DecodeTable ! nat ch = il \<or> DecodeTable ! nat ch = sp" | "DecodeTable ! nat ch = pd" "ch = kPad"
      | v where "is_digit v" "DecodeTable ! nat ch = v" "ch = digit_char v" by blast
    then show ?thesis
    proof cases
      case 1
      then show ?thesis using strict_stop [OF refl _ True] stops by blast
    next
      case 2
      show ?thesis
      proof (cases "2 \<le> q_byte_len q \<and> q_byte_len q + q_pad_len q < 4")
        case False
        then show ?thesis using strict_stop [OF 2(1) _ True] stops by (metis not_less)
      next
        case True
        then show ?thesis using strict_pad [OF _ _ Cons.prems(2) ih] 2(2) by blast
      qed
    next
      case 3
      show ?thesis
      proof (cases "q_pad_len q = 0")
        case False
        then show ?thesis using strict_stop [OF 3(2) _ True] 3(1) stops by (metis gr0I)
      next
        case pl: True
        then show ?thesis using strict_digit [OF 3(1) True pl Cons.prems(2) ih] 3(3) by blast
      qed
    qed
  qed
qed

text \<open>A padded or full quantum of the strict decoder.\<close>

lemma strict_quantum:
  assumes "GetNextQuantum DO_PARSE_STRICT False data dpos qb = (qlen, dpos', buf, padded)" "\<forall>c \<in> set data. is_byte c" "length qb = 4"
  shows "length buf = 4 \<and> qlen \<le> 4 \<and> (padded \<or> qlen = 4 \<longrightarrow> dpos' = dpos + 4 \<and> (\<exists>ds. (\<forall>v \<in> set ds. is_digit v) \<and> length ds = qlen \<and> 2 \<le> qlen
    \<and> buf = ds @ replicate (4 - qlen) 0 \<and> take 4 (drop dpos data) = map digit_char ds @ replicate (4 - qlen) kPad))"
proof -
  define q0 where "q0 = \<lparr>q_dpos = dpos, q_byte_len = 0, q_pad_len = 0, q_pad_start = 0, q_buf = qb\<rparr>"
  have "\<forall>c \<in> set (drop dpos data). is_byte c" using assms(2) by (auto dest: in_set_dropD)
  then obtain ds p where t: "taken (drop dpos data) q0 (quantum_loop DO_PARSE_STRICT False (drop dpos data) q0) ds p"
    using strict_loop [of "drop dpos data" q0] assms(3) unfolding q0_def by fastforce
  define q where "q = quantum_loop DO_PARSE_STRICT False (drop dpos data) q0"
  have r: "qlen = q_byte_len q" "buf = take (q_byte_len q) (q_buf q) @ replicate (4 - q_byte_len q) 0" "padded = (4 = q_byte_len q + q_pad_len q)"
    "dpos' = (if \<not> padded \<and> q_pad_len q \<noteq> 0 then q_pad_start q else q_dpos q)"
    using assms(1) unfolding q_def q0_def by (auto simp: GetNextQuantum_def Let_def)
  have d: "q_byte_len q = length ds" "q_pad_len q = p" "q_dpos q = dpos + length ds + p" "take (q_byte_len q) (q_buf q) = ds" "length ds + p \<le> 4"
    "p > 0 \<longrightarrow> 2 \<le> length ds" "\<forall>v \<in> set ds. is_digit v" "take (length ds + p) (drop dpos data) = map digit_char ds @ replicate p kPad"
    using t unfolding q_def [symmetric] by (auto simp: taken_def q0_def add.commute)
  have "dpos' = dpos + 4 \<and> 2 \<le> qlen \<and> p = 4 - qlen" if "padded \<or> qlen = 4"
    using that r d by (cases p) auto
  moreover have "length ds \<le> 4" "buf = ds @ replicate (4 - length ds) 0" "qlen = length ds" using r(1,2) d(1,4,5) by simp_all
  ultimately show ?thesis using d(7,8) by auto
qed

text \<open>The bytes of four digits have these digits.\<close>

lemma ungroup:
  fixes p q r s :: int
  assumes "is_digit p" "is_digit q" "is_digit r" "is_digit s"
  defines "x \<equiv> p * 4 + q div 16" and "y \<equiv> q mod 16 * 16 + r div 4" and "z \<equiv> r mod 4 * 64 + s"
  shows "is_byte x" "is_byte y" "is_byte z" "x div 4 = p" "x mod 4 * 16 + y div 16 = q" "y mod 16 * 4 + z div 64 = r" "z mod 64 = s"
proof -
  have d: "0 \<le> q div 16" "q div 16 < 4" "0 \<le> r div 4" "r div 4 < 16" "0 \<le> p" "p < 64" "0 \<le> s" "s < 64"
    "0 \<le> q mod 16" "q mod 16 < 16" "0 \<le> r mod 4" "r mod 4 < 4"
    using assms(1-4) by (auto simp: is_digit_def)
  show "is_byte x" "is_byte y" "is_byte z" unfolding is_byte_def x_def y_def z_def using d by linarith+
  have x: "x div 4 = p" "x mod 4 = q div 16" using d unfolding x_def by simp_all
  have y: "y div 16 = q mod 16" "y mod 16 = r div 4" using d unfolding y_def by simp_all
  have z: "z div 64 = r mod 4" "z mod 64 = s" using d unfolding z_def by simp_all
  show "x div 4 = p" "z mod 64 = s" by (rule x(1), rule z(2))
  show "x mod 4 * 16 + y div 16 = q" "y mod 16 * 4 + z div 64 = r" unfolding x(2) y z(1) by simp_all
qed

text \<open>What a strict pass of the decoder yields, encoded again.\<close>

lemma encode_decoded:
  assumes "\<forall>v \<in> set ds. is_digit v" "2 \<le> length ds" "length ds \<le> 4" "decode_bytes (length ds) (ds @ replicate (4 - length ds) 0) = (bs, 0)"
  shows "(\<forall>b \<in> set bs. is_byte b) \<and> (length ds = 4 \<or> xs = [] \<longrightarrow>
    EncodeFromArray (bs @ xs) = map digit_char ds @ replicate (4 - length ds) kPad @ EncodeFromArray xs)"
proof -
  consider p q where "ds = [p, q]" | p q r where "ds = [p, q, r]" | p q r s where "ds = [p, q, r, s]"
    using assms(2,3) by (cases ds; cases "tl ds"; cases "tl (tl ds)"; cases "tl (tl (tl ds))") auto
  then show ?thesis
  proof cases
    case 1
    then have d: "is_digit p" "is_digit q" "is_digit 0" using assms(1) by (simp_all add: is_digit_def)
    from assms(4) have b: "bs = [p * 4 + q div 16]" "q mod 16 = 0" unfolding 1 using decode_bytes_2 [OF d(1,2)] by (simp_all add: eval_nat_numeral)
    define x where "x = p * 4 + q div 16"
    have u: "is_byte x" "x div 4 = p" "x mod 4 * 16 = q" using ungroup [OF d(1,2,3,3), folded x_def] unfolding b(2) by simp_all
    show ?thesis unfolding 1 b(1) x_def [symmetric] by (simp add: Encode_1 u Encode_Nil numeral_2_eq_2)
  next
    case 2
    then have d: "is_digit p" "is_digit q" "is_digit r" "is_digit 0" using assms(1) by (simp_all add: is_digit_def)
    from assms(4) have b: "bs = [p * 4 + q div 16, q mod 16 * 16 + r div 4]" "r mod 4 = 0" unfolding 2 using decode_bytes_3 [OF d(1-3)] by (simp_all add: eval_nat_numeral)
    define x y where "x = p * 4 + q div 16" and "y = q mod 16 * 16 + r div 4"
    have u: "is_byte x" "is_byte y" "x div 4 = p" "x mod 4 * 16 + y div 16 = q" "y mod 16 * 4 = r"
      using ungroup [OF d, folded x_def y_def] unfolding b(2) by simp_all
    show ?thesis unfolding 2 b(1) x_def [symmetric] y_def [symmetric] by (simp add: Encode_2 u Encode_Nil)
  next
    case 3
    then have d: "is_digit p" "is_digit q" "is_digit r" "is_digit s" using assms(1) by simp_all
    from assms(4) have b: "bs = [p * 4 + q div 16, q mod 16 * 16 + r div 4, r mod 4 * 64 + s]" unfolding 3 using decode_bytes_4 [OF d] by (simp add: eval_nat_numeral)
    define x y z where "x = p * 4 + q div 16" and "y = q mod 16 * 16 + r div 4" and "z = r mod 4 * 64 + s"
    show ?thesis unfolding 3 b x_def [symmetric] y_def [symmetric] z_def [symmetric] by (simp add: Encode_3 ungroup [OF d, folded x_def y_def z_def])
  qed
qed

lemma decode_bytes_full: "length ds = 4 \<Longrightarrow> snd (decode_bytes 4 ds) = 0"
  by (simp add: decode_bytes_def Let_def)

lemma decode_loop_pass:
  assumes "dpos < length data" "GetNextQuantum pf (DO_PAD_NO = padf) data dpos qb = (qlen, dpos', buf, padded)" "decode_bytes qlen buf = (bs, c)"
  shows "qlen < 4 \<Longrightarrow> decode_loop pf padf tf data dpos qb
      = (bs, dpos', \<not> (DO_TERM_ANY \<noteq> tf \<and> 0 \<noteq> c) \<and> \<not> (DO_PAD_YES = padf \<and> \<not> padded))"
    "\<not> qlen < 4 \<Longrightarrow> decode_loop pf padf tf data dpos' buf = (ys, e, ok) \<Longrightarrow> decode_loop pf padf tf data dpos qb = (bs @ ys, e, ok)"
  using assms by (simp_all add: decode_loop.simps [of pf padf tf data dpos])

lemma strict_last:
  assumes "GetNextQuantum DO_PARSE_STRICT False data dpos qb = (qlen, length data, buf, True)" "decode_bytes qlen buf = (xs, 0)" "qlen < 4"
    "\<forall>c \<in> set data. is_byte c" "length qb = 4"
  shows "(\<forall>x \<in> set xs. is_byte x) \<and> EncodeFromArray xs = drop dpos data"
proof -
  from strict_quantum [OF assms(1,4,5)] obtain ds where d: "\<forall>v \<in> set ds. is_digit v" "length ds = qlen" "2 \<le> qlen" "buf = ds @ replicate (4 - qlen) 0"
    "take 4 (drop dpos data) = map digit_char ds @ replicate (4 - qlen) kPad" "length data = dpos + 4" by blast
  have "drop dpos data = map digit_char ds @ replicate (4 - qlen) kPad" using d(5,6) by simp
  with encode_decoded [OF d(1), of xs "[]"] assms(2,3) d(2-4) show ?thesis by (simp add: Encode_Nil)
qed

lemma strict_block:
  assumes "GetNextQuantum DO_PARSE_STRICT False data dpos qb = (4, dpos', buf, padded)" "decode_bytes 4 buf = (bs, c)"
    "\<forall>c \<in> set data. is_byte c" "length qb = 4" "dpos < length data"
  shows "dpos' = dpos + 4 \<and> dpos' \<le> length data \<and> length buf = 4 \<and> (\<forall>x \<in> set bs. is_byte x)
    \<and> (\<forall>ys. EncodeFromArray ys = drop dpos' data \<longrightarrow> EncodeFromArray (bs @ ys) = drop dpos data)"
proof -
  from strict_quantum [OF assms(1,3,4)] obtain ds where d: "\<forall>v \<in> set ds. is_digit v" "length ds = 4" "buf = ds"
    "take 4 (drop dpos data) = map digit_char ds" "dpos' = dpos + 4" by auto
  have "drop dpos data = map digit_char ds @ drop dpos' data"
    using append_take_drop_id [of 4 "drop dpos data"] unfolding d(4,5) by (simp add: add.commute)
  moreover have "dpos' \<le> length data" using arg_cong [OF d(4), of length] d(2,5) assms(5) by simp
  moreover have "decode_bytes (length ds) (ds @ replicate (4 - length ds) 0) = (bs, 0)"
    using decode_bytes_full [OF d(2)] assms(2) unfolding d(2,3) by simp
  then have "(\<forall>x \<in> set bs. is_byte x) \<and> EncodeFromArray (bs @ ys) = map digit_char ds @ EncodeFromArray ys" for ys
    using encode_decoded [OF d(1), of bs ys] d(2) by simp
  ultimately show ?thesis using d(2,3,5) by simp
qed

lemma strict_decoded:
  assumes "decode_loop DO_PARSE_STRICT DO_PAD_YES DO_TERM_BUFFER data dpos qb = (xs, length data, True)" "\<forall>c \<in> set data. is_byte c" "length qb = 4"
    "dpos \<le> length data"
  shows "(\<forall>x \<in> set xs. is_byte x) \<and> EncodeFromArray xs = drop dpos data"
  using assms
proof (induction "length data - dpos" arbitrary: dpos qb xs rule: less_induct)
  case less
  show ?case
  proof (cases "dpos < length data")
    case False
    with less.prems show ?thesis by (simp add: decode_loop.simps Encode_Nil)
  next
    case True
    have n: "(DO_PAD_NO = DO_PAD_YES) = False" "(DO_TERM_ANY \<noteq> DO_TERM_BUFFER) = True"
      by (simp_all add: DO_PAD_NO_def DO_PAD_YES_def DO_TERM_ANY_def DO_TERM_BUFFER_def)
    obtain qlen dpos' buf padded where g: "GetNextQuantum DO_PARSE_STRICT False data dpos qb = (qlen, dpos', buf, padded)" by (metis prod_cases4)
    obtain bs c where b: "decode_bytes qlen buf = (bs, c)" by fastforce
    obtain ys e ok where y: "decode_loop DO_PARSE_STRICT DO_PAD_YES DO_TERM_BUFFER data dpos' buf = (ys, e, ok)" by (metis prod_cases3)
    note pass = decode_loop_pass [OF True g [folded n(1)] b, of DO_TERM_BUFFER, unfolded less.prems(1)]
    show ?thesis
    proof (cases "qlen < 4")
      case short: True
      from pass(1) [OF short] have "bs = xs" "c = 0" "padded" "dpos' = length data" unfolding n by auto
      with g b have "GetNextQuantum DO_PARSE_STRICT False data dpos qb = (qlen, length data, buf, True)" "decode_bytes qlen buf = (xs, 0)" by simp_all
      from strict_last [OF this short less.prems(2,3)] show ?thesis .
    next
      case False
      from pass(2) [OF False y] have r: "xs = bs @ ys" "e = length data" ok by auto
      have "qlen = 4" using strict_quantum [OF g less.prems(2,3)] False by linarith
      from strict_block [OF g [unfolded this] b [unfolded this] less.prems(2,3) True]
      have s: "dpos' = dpos + 4" "dpos' \<le> length data" "length buf = 4" "\<forall>x \<in> set bs. is_byte x"
        "EncodeFromArray ys = drop dpos' data \<Longrightarrow> EncodeFromArray (bs @ ys) = drop dpos data" by blast+
      have "(\<forall>x \<in> set ys. is_byte x) \<and> EncodeFromArray ys = drop dpos' data"
        by (rule less.hyps [OF _ _ less.prems(2) s(3,2)]) (use True s(1) y r in simp_all)
      with s(4,5) show ?thesis unfolding r(1) by auto
    qed
  qed
qed

text \<open>C28. The strict decoder inverts the encoder: it accepts a string of characters, yielding some bytes, exactly when
  the string is the encoding of these bytes. Every other string, also one with white space, missing or superfluous
  padding or nonzero unused bits, is reported as a failure.\<close>

theorem strict_decode_inverse:
  assumes "\<forall>c \<in> set data. is_byte c" "length stack = 4"
  shows "(\<exists>n. Decode stack data DO_STRICT = Some (True, xs, n)) \<longleftrightarrow> (\<forall>x \<in> set xs. is_byte x) \<and> data = Encode xs"
proof -
  have f: "DO_STRICT AND DO_PARSE_MASK = DO_PARSE_STRICT" "DO_STRICT AND DO_PAD_MASK = DO_PAD_YES" "DO_STRICT AND DO_TERM_MASK = DO_TERM_BUFFER"
    "DO_PARSE_STRICT \<noteq> 0" "DO_PAD_YES \<noteq> 0" "DO_TERM_BUFFER \<noteq> 0" "DO_STRICT \<le> (DO_PARSE_MASK OR DO_PAD_MASK OR DO_TERM_MASK)" "DO_PAD_YES \<noteq> DO_PAD_NO"
    by (simp_all add: DO_STRICT_def DO_PARSE_MASK_def DO_PAD_MASK_def DO_TERM_MASK_def DO_PARSE_STRICT_def DO_PAD_YES_def DO_TERM_BUFFER_def DO_PAD_NO_def)
  obtain ys e ok where l: "decode_loop DO_PARSE_STRICT DO_PAD_YES DO_TERM_BUFFER data 0 stack = (ys, e, ok)" by (metis prod_cases3)
  have d: "(\<exists>n. Decode stack data DO_STRICT = Some (True, xs, n)) \<longleftrightarrow> (ys, e, ok) = (xs, length data, True)"
    unfolding Decode_def DecodeFromArrayTemplate_def Let_def f l using f(4-7) by auto
  show ?thesis
  proof (rule iffI)
    assume "\<exists>n. Decode stack data DO_STRICT = Some (True, xs, n)"
    with d l have "decode_loop DO_PARSE_STRICT DO_PAD_YES DO_TERM_BUFFER data 0 stack = (xs, length data, True)" by simp
    from strict_decoded [OF this assms] show "(\<forall>x \<in> set xs. is_byte x) \<and> data = Encode xs" by (simp add: Encode_def)
  next
    assume x: "(\<forall>x \<in> set xs. is_byte x) \<and> data = Encode xs"
    then have "drop 0 data = EncodeFromArray xs" "0 \<le> length data" by (simp_all add: Encode_def)
    from decode_loop_encoded [OF this conjunct1 [OF x] assms(2) f(8)] l show "\<exists>n. Decode stack data DO_STRICT = Some (True, xs, n)"
      unfolding d by metis
  qed
qed

text \<open>An encoding of one byte, and the same with nonzero unused bits.\<close>

theorem strict_decode_inverse_witness:
  "(\<exists>n. Decode [0, 0, 0, 0] (map of_char ''TQ=='') DO_STRICT = Some (True, [77], n))
    \<and> \<not> (\<exists>n. Decode [0, 0, 0, 0] (map of_char ''TR=='') DO_STRICT = Some (True, [77], n))"
  using strict_decode_inverse [of "map of_char ''TQ==''" "[0, 0, 0, 0]" "[77]"] strict_decode_inverse [of "map of_char ''TR==''" "[0, 0, 0, 0]" "[77]"]
  by (simp add: is_byte_def Encode_def Encode_1 digit_char_def Base64Table_def kPad_def)

end
