(* ===== verification/Qmf.thy ===== *)
theory Qmf
  imports Spl
begin

text \<open>
  The two-band splitting filter (\<open>common_audio/splitting_filter.c\<close>): a cascade of three all-pass sections, the
  analysis that splits a frame into a low and a high band, and the synthesis that joins two bands again. The all-pass
  sections are the sections of the downsampler with other coefficients, so the contract \<open>allpass_section\<close> is
  interpreted for them. The theorems show that no sum of either filter leaves 32 bits, over any number of frames of
  any samples.
\<close>

section \<open>Saturated sums\<close>

definition WebRtcSpl_AddSatW32 :: "int \<Rightarrow> int \<Rightarrow> int" where
  "WebRtcSpl_AddSatW32 a b =
     (let sum = s32 (u32 (u32 a + u32 b)) in
      if (a < 0) = (b < 0) \<and> (a < 0) \<noteq> (sum < 0) then if sum < 0 then 2147483647 else -2147483648
      else sum)"

definition WebRtcSpl_SubSatW32 :: "int \<Rightarrow> int \<Rightarrow> int" where
  "WebRtcSpl_SubSatW32 a b =
     (let diff = s32 (u32 (u32 a - u32 b)) in
      if (a < 0) \<noteq> (b < 0) \<and> (a < 0) \<noteq> (diff < 0) then if diff < 0 then 2147483647 else -2147483648
      else diff)"

definition WebRtcSpl_SubSatW16 :: "int \<Rightarrow> int \<Rightarrow> int" where
  "WebRtcSpl_SubSatW16 var1 var2 = WebRtcSpl_SatW32ToW16 (var1 - var2)"

definition WebRtcSpl_GetSizeInBits :: "int \<Rightarrow> int" where
  "WebRtcSpl_GetSizeInBits n = s16 (32 - WebRtcSpl_CountLeadingZeros32 n)"

definition WebRtcSpl_NormW16 :: "int \<Rightarrow> int" where
  "WebRtcSpl_NormW16 a = (if a = 0 then 0 else s16 (WebRtcSpl_CountLeadingZeros32 (u32 (if a < 0 then NOT a else a)) - 17))"

definition WebRtc_MulAccumW16 :: "int \<Rightarrow> int \<Rightarrow> int \<Rightarrow> int option" where
  "WebRtc_MulAccumW16 a b c = do { p \<leftarrow> chk32 (a * b); chk32 (p + c) }"

section \<open>The all-pass filter\<close>

definition kMaxBandFrameLength :: nat where "kMaxBandFrameLength = 320"

definition WebRtcSpl_kAllPassFilter1 :: "int list" where "WebRtcSpl_kAllPassFilter1 = [6418, 36982, 57261]"

definition WebRtcSpl_kAllPassFilter2 :: "int list" where "WebRtcSpl_kAllPassFilter2 = [21333, 49062, 63010]"

text \<open>
  One cascade over an array: \<open>xp\<close> and \<open>yp\<close> are the previous input and output, from the filter state before the first
  sample and from the arrays afterwards.
\<close>

fun allpass_cascade :: "int \<Rightarrow> int \<Rightarrow> int \<Rightarrow> int list \<Rightarrow> int list option" where
  "allpass_cascade a xp yp [] = Some []"
| "allpass_cascade a xp yp (x # xs) = do {
     y \<leftarrow> WEBRTC_SPL_SCALEDIFF32 a (WebRtcSpl_SubSatW32 x yp) xp;
     ys \<leftarrow> allpass_cascade a x y xs;
     Some (y # ys)
   }"

text \<open>
  The result holds the overwritten input, the output and the new filter state. The element before the first is
  read where the data is empty.
\<close>

fun WebRtcSpl_AllPassQMF :: "int list \<Rightarrow> int list \<Rightarrow> int list \<Rightarrow> (int list \<times> int list \<times> int list) option" where
  "WebRtcSpl_AllPassQMF in_data filter_coefficients [s0, s1, s2, s3, s4, s5] =
     (if in_data = [] then None
      else do {
        c0 \<leftarrow> rd filter_coefficients 0;
        y1 \<leftarrow> allpass_cascade c0 s0 s1 in_data;
        c1 \<leftarrow> rd filter_coefficients 1;
        y2 \<leftarrow> allpass_cascade c1 s2 s3 y1;
        c2 \<leftarrow> rd filter_coefficients 2;
        y \<leftarrow> allpass_cascade c2 s4 s5 y2;
        Some (y2, y, [last in_data, last y1, last y1, last y2, last y2, last y])
      })"
| "WebRtcSpl_AllPassQMF in_data filter_coefficients filter_state = None"

section \<open>Analysis and synthesis\<close>

text \<open>The even or the odd samples in Q10.\<close>

definition half_in :: "nat \<Rightarrow> int list \<Rightarrow> int list option" where
  "half_in k in_data = mapM (\<lambda>i. do { x \<leftarrow> rd in_data (int (2 * i + k)); chk32 (x * 1024) }) [0..<length in_data div 2]"

definition analysis_out :: "int \<times> int \<Rightarrow> (int \<times> int) option" where
  "analysis_out p = do {
     tmp \<leftarrow> chk32 (fst p + snd p);
     tmp \<leftarrow> chk32 (tmp + 1024);
     tmp2 \<leftarrow> chk32 (fst p - snd p);
     tmp2 \<leftarrow> chk32 (tmp2 + 1024);
     Some (WebRtcSpl_SatW32ToW16 (tmp div 2 ^ 11), WebRtcSpl_SatW32ToW16 (tmp2 div 2 ^ 11))
   }"

text \<open>The result holds the low band, the high band and the two filter states; a failed check is \<open>None\<close>.\<close>

definition WebRtcSpl_AnalysisQMF ::
  "int list \<Rightarrow> int list \<Rightarrow> int list \<Rightarrow> (int list \<times> int list \<times> int list \<times> int list) option" where
  "WebRtcSpl_AnalysisQMF in_data filter_state1 filter_state2 =
     (let band_length = length in_data div 2 in
      if 0 \<noteq> length in_data mod 2 then None
      else if \<not> band_length \<le> kMaxBandFrameLength then None
      else do {
        half_in2 \<leftarrow> half_in 0 in_data;
        half_in1 \<leftarrow> half_in 1 in_data;
        (_, filter1, filter_state1) \<leftarrow> WebRtcSpl_AllPassQMF half_in1 WebRtcSpl_kAllPassFilter1 filter_state1;
        (_, filter2, filter_state2) \<leftarrow> WebRtcSpl_AllPassQMF half_in2 WebRtcSpl_kAllPassFilter2 filter_state2;
        bands \<leftarrow> mapM analysis_out (zip filter1 filter2);
        Some (map fst bands, map snd bands, filter_state1, filter_state2)
      })"

definition synthesis_in :: "int \<times> int \<Rightarrow> (int \<times> int) option" where
  "synthesis_in p = do {
     tmp \<leftarrow> chk32 (fst p + snd p);
     half1 \<leftarrow> chk32 (tmp * 1024);
     tmp \<leftarrow> chk32 (fst p - snd p);
     half2 \<leftarrow> chk32 (tmp * 1024);
     Some (half1, half2)
   }"

definition synthesis_out :: "int \<times> int \<Rightarrow> (int \<times> int) option" where
  "synthesis_out p = do {
     tmp \<leftarrow> chk32 (snd p + 512);
     tmp2 \<leftarrow> chk32 (fst p + 512);
     Some (WebRtcSpl_SatW32ToW16 (tmp div 2 ^ 10), WebRtcSpl_SatW32ToW16 (tmp2 div 2 ^ 10))
   }"

text \<open>The result holds the samples and the two filter states. Both bands hold \<open>band_length\<close> samples.\<close>

definition WebRtcSpl_SynthesisQMF ::
  "int list \<Rightarrow> int list \<Rightarrow> nat \<Rightarrow> int list \<Rightarrow> int list \<Rightarrow> (int list \<times> int list \<times> int list) option" where
  "WebRtcSpl_SynthesisQMF low_band high_band band_length filter_state1 filter_state2 =
     (if \<not> band_length \<le> kMaxBandFrameLength then None
      else do {
        low \<leftarrow> rd_block low_band 0 band_length;
        high \<leftarrow> rd_block high_band 0 band_length;
        halves \<leftarrow> mapM synthesis_in (zip low high);
        (_, filter1, filter_state1) \<leftarrow> WebRtcSpl_AllPassQMF (map fst halves) WebRtcSpl_kAllPassFilter2 filter_state1;
        (_, filter2, filter_state2) \<leftarrow> WebRtcSpl_AllPassQMF (map snd halves) WebRtcSpl_kAllPassFilter1 filter_state2;
        out \<leftarrow> mapM synthesis_out (zip filter1 filter2);
        Some (concat (map (\<lambda>p. [fst p, snd p]) out), filter_state1, filter_state2)
      })"

section \<open>The saturated sums are exact\<close>

lemma s32_wrap:
  "2147483648 \<le> x \<Longrightarrow> x \<le> 4294967295 \<Longrightarrow> s32 x = x - 4294967296"
  "-4294967296 \<le> x \<Longrightarrow> x < -2147483648 \<Longrightarrow> s32 x = x + 4294967296"
proof -
  assume "2147483648 \<le> x" "x \<le> 4294967295"
  then have "(x + 2147483648 - 4294967296) mod 4294967296 = x + 2147483648 - 4294967296" by (intro mod_pos_pos_trivial) linarith+
  then show "s32 x = x - 4294967296" unfolding s32_def minus_mod_self2 by linarith
next
  assume "-4294967296 \<le> x" "x < -2147483648"
  then have "(x + 2147483648 + 4294967296) mod 4294967296 = x + 2147483648 + 4294967296" by (intro mod_pos_pos_trivial) linarith+
  then show "s32 x = x + 4294967296" unfolding s32_def mod_add_self2 by linarith
qed

lemma s32_sum: "s32 (u32 a + u32 b) = s32 (a + b)" "s32 (u32 a - u32 b) = s32 (a - b)"
proof -
  have u: "u32 (u32 a + u32 b) = u32 (a + b)" "u32 (u32 a - u32 b) = u32 (a - b)" by (simp_all add: u32_def mod_simps)
  from arg_cong [OF u(1), of s32] show "s32 (u32 a + u32 b) = s32 (a + b)" by simp
  from arg_cong [OF u(2), of s32] show "s32 (u32 a - u32 b) = s32 (a - b)" by simp
qed

text \<open>The wrapped value \<open>w\<close> of an exact sum \<open>e\<close> of two 32-bit numbers, in the three cases.\<close>

lemma wrapped_cases:
  assumes "-4294967296 \<le> e" "e \<le> 4294967295"
  obtains (fits) "in_s32 e" "s32 e = e" | (above) "2147483647 < e" "s32 e < 0" | (below) "e < -2147483648" "0 \<le> s32 e"
proof (cases "in_s32 e")
  case True
  then show ?thesis using fits s32_id by blast
next
  case False
  then consider "2147483648 \<le> e" | "e < -2147483648" by (fastforce simp: in_s32_def)
  then show ?thesis
  proof cases
    case 1
    with s32_wrap(1) [OF 1 assms(2)] assms above show ?thesis by linarith
  next
    case 2
    with s32_wrap(2) [OF assms(1) 2] assms below show ?thesis by linarith
  qed
qed

lemma AddSatW32_clamp:
  assumes "in_s32 a" "in_s32 b"
  shows "WebRtcSpl_AddSatW32 a b = max (-2147483648) (min 2147483647 (a + b))"
proof -
  have r: "-2147483648 \<le> a" "a \<le> 2147483647" "-2147483648 \<le> b" "b \<le> 2147483647" using assms by (simp_all add: in_s32_def)
  have w: "s32 (u32 (u32 a + u32 b)) = s32 (a + b)" by (simp add: s32_sum)
  from r have "-4294967296 \<le> a + b" "a + b \<le> 4294967295" by linarith+
  then show ?thesis
  proof (cases rule: wrapped_cases)
    case fits
    then have "((a < 0) = (b < 0) \<and> (a < 0) \<noteq> (s32 (a + b) < 0)) = False" by (cases "a < 0"; cases "b < 0") simp_all
    then have "WebRtcSpl_AddSatW32 a b = s32 (a + b)" unfolding WebRtcSpl_AddSatW32_def Let_def w by (simp only: if_False)
    with fits show ?thesis by (simp add: in_s32_def)
  next
    case above
    with r have "\<not> a < 0" "\<not> b < 0" by linarith+
    with above show ?thesis unfolding WebRtcSpl_AddSatW32_def Let_def w by simp
  next
    case below
    with r have "a < 0" "b < 0" by linarith+
    with below show ?thesis unfolding WebRtcSpl_AddSatW32_def Let_def w by simp
  qed
qed

lemma SubSatW32_clamp:
  assumes "in_s32 a" "in_s32 b"
  shows "WebRtcSpl_SubSatW32 a b = max (-2147483648) (min 2147483647 (a - b))"
proof -
  have r: "-2147483648 \<le> a" "a \<le> 2147483647" "-2147483648 \<le> b" "b \<le> 2147483647" using assms by (simp_all add: in_s32_def)
  have w: "s32 (u32 (u32 a - u32 b)) = s32 (a - b)" by (simp add: s32_sum)
  from r have "-4294967296 \<le> a - b" "a - b \<le> 4294967295" by linarith+
  then show ?thesis
  proof (cases rule: wrapped_cases)
    case fits
    then have "((a < 0) \<noteq> (b < 0) \<and> (a < 0) \<noteq> (s32 (a - b) < 0)) = False" by (cases "a < 0"; cases "b < 0") simp_all
    then have "WebRtcSpl_SubSatW32 a b = s32 (a - b)" unfolding WebRtcSpl_SubSatW32_def Let_def w by (simp only: if_False)
    with fits show ?thesis by (simp add: in_s32_def)
  next
    case above
    with r have "\<not> a < 0" "b < 0" by linarith+
    with above show ?thesis unfolding WebRtcSpl_SubSatW32_def Let_def w by simp
  next
    case below
    with r have "a < 0" "\<not> b < 0" by linarith+
    with below show ?thesis unfolding WebRtcSpl_SubSatW32_def Let_def w by simp
  qed
qed

lemma SubSatW32_exact: "in_s32 a \<Longrightarrow> in_s32 b \<Longrightarrow> in_s32 (a - b) \<Longrightarrow> WebRtcSpl_SubSatW32 a b = a - b"
  by (simp add: SubSatW32_clamp in_s32_def)

section \<open>The cascades\<close>


text \<open>A cascade over an array keeps the invariant of its section.\<close>

context allpass_section
begin

lemma cascade_sub:
  assumes "section_inv A M V K x y" "\<bar>x'\<bar> \<le> M"
  shows "WebRtcSpl_SubSatW32 x' y = x' - y"
proof -
  have "in_s32 x'" "in_s32 y" using assms headroom bounds_nonneg by (auto simp: section_inv_def in_s32_def abs_le_iff)
  then show ?thesis using diff_fits [OF assms] by (rule SubSatW32_exact)
qed

lemma cascade_runs:
  assumes "section_inv A M V K xp yp" "\<forall>x \<in> set xs. \<bar>x\<bar> \<le> M"
  shows "runs (allpass_cascade A xp yp xs)
    (\<lambda>ys. length ys = length xs \<and> (\<forall>y \<in> set ys. \<bar>y\<bar> \<le> K) \<and> (xs \<noteq> [] \<longrightarrow> section_inv A M V K (last xs) (last ys)))"
  using assms
proof (induction xs arbitrary: xp yp)
  case (Cons x xs)
  have x: "\<bar>x\<bar> \<le> M" using Cons.prems(2) by simp
  show ?case
  proof (simp only: allpass_cascade.simps cascade_sub [OF Cons.prems(1) x], rule runs_seq [OF section_step [OF Cons.prems(1) x]])
    fix y
    assume y: "section_inv A M V K x y"
    have "runs (allpass_cascade A x y xs)
      (\<lambda>ys. length ys = length xs \<and> (\<forall>y \<in> set ys. \<bar>y\<bar> \<le> K) \<and> (xs \<noteq> [] \<longrightarrow> section_inv A M V K (last xs) (last ys)))"
      using Cons y by simp
    with y show "runs (Option.bind (allpass_cascade A x y xs) (\<lambda>ys. Some (y # ys)))
      (\<lambda>ys. length ys = length (x # xs) \<and> (\<forall>y \<in> set ys. \<bar>y\<bar> \<le> K) \<and> (x # xs \<noteq> [] \<longrightarrow> section_inv A M V K (last (x # xs)) (last ys)))"
      by (auto simp: runs_def section_inv_def)
  qed
qed (simp add: runs_simps)

end

text \<open>
  The six sections. The inputs are at most \<open>2 ^ 26\<close>, as the sum of two 16-bit samples in Q10; each output bound is
  the next input bound.
\<close>

interpretation first0: allpass_section 6418 67108864 4828751207371 80252929
  by unfold_locales simp_all

interpretation first1: allpass_section 36982 80252929 8227369860102 170826473
  by unfold_locales simp_all

interpretation first2: allpass_section 57261 170826473 20976978858475 469340112
  by unfold_locales simp_all

interpretation second0: allpass_section 21333 67108864 5829679938445 110798849
  by unfold_locales simp_all

interpretation second1: allpass_section 49062 110798849 12697326692878 276692808
  by unfold_locales simp_all

interpretation second2: allpass_section 63010 276692808 35567755331936 808748920
  by unfold_locales simp_all

fun first_inv :: "int list \<Rightarrow> bool" where
  "first_inv [s0, s1, s2, s3, s4, s5] \<longleftrightarrow>
     section_inv 6418 67108864 4828751207371 80252929 s0 s1
   \<and> section_inv 36982 80252929 8227369860102 170826473 s2 s3
   \<and> section_inv 57261 170826473 20976978858475 469340112 s4 s5"
| "first_inv _ = False"

fun second_inv :: "int list \<Rightarrow> bool" where
  "second_inv [s0, s1, s2, s3, s4, s5] \<longleftrightarrow>
     section_inv 21333 67108864 5829679938445 110798849 s0 s1
   \<and> section_inv 49062 110798849 12697326692878 276692808 s2 s3
   \<and> section_inv 63010 276692808 35567755331936 808748920 s4 s5"
| "second_inv _ = False"

lemma inv_zero: "first_inv (replicate 6 0)" "second_inv (replicate 6 0)"
  by (simp_all add: eval_nat_numeral section_inv_def)

text \<open>What the filter promises: as many outputs as inputs, bounded by \<open>K\<close>.\<close>

definition filtered :: "int \<Rightarrow> int list \<Rightarrow> int list \<Rightarrow> bool" where
  "filtered K xs ys \<longleftrightarrow> length ys = length xs \<and> (\<forall>y \<in> set ys. \<bar>y\<bar> \<le> K)"

lemma first_runs:
  assumes "first_inv fs" "xs \<noteq> []" "\<forall>x \<in> set xs. \<bar>x\<bar> \<le> 67108864"
  shows "runs (WebRtcSpl_AllPassQMF xs WebRtcSpl_kAllPassFilter1 fs) (\<lambda>(_, ys, fs'). filtered 469340112 xs ys \<and> first_inv fs')"
  using assms(1)
proof (cases fs rule: first_inv.cases)
  case (1 s0 s1 s2 s3 s4 s5)
  with assms(1) have s: "section_inv 6418 67108864 4828751207371 80252929 s0 s1" "section_inv 36982 80252929 8227369860102 170826473 s2 s3"
    "section_inv 57261 170826473 20976978858475 469340112 s4 s5" by simp_all
  from first0.cascade_runs [OF s(1) assms(3)] assms(2) obtain y1 where y1: "allpass_cascade 6418 s0 s1 xs = Some y1" "length y1 = length xs"
    "\<forall>y \<in> set y1. \<bar>y\<bar> \<le> 80252929" "section_inv 6418 67108864 4828751207371 80252929 (last xs) (last y1)" by (auto simp: runs_def)
  from first1.cascade_runs [OF s(2) y1(3)] assms(2) y1(2) obtain y2 where y2: "allpass_cascade 36982 s2 s3 y1 = Some y2" "length y2 = length xs"
    "\<forall>y \<in> set y2. \<bar>y\<bar> \<le> 170826473" "section_inv 36982 80252929 8227369860102 170826473 (last y1) (last y2)" by (auto simp: runs_def)
  from first2.cascade_runs [OF s(3) y2(3)] assms(2) y2(2) obtain y where "allpass_cascade 57261 s4 s5 y2 = Some y" "length y = length xs"
    "\<forall>z \<in> set y. \<bar>z\<bar> \<le> 469340112" "section_inv 57261 170826473 20976978858475 469340112 (last y2) (last y)" by (auto simp: runs_def)
  with y1(1,4) y2(1,4) assms(2) show ?thesis by (simp add: 1 runs_simps WebRtcSpl_kAllPassFilter1_def filtered_def)
qed simp_all

lemma second_runs:
  assumes "second_inv fs" "xs \<noteq> []" "\<forall>x \<in> set xs. \<bar>x\<bar> \<le> 67108864"
  shows "runs (WebRtcSpl_AllPassQMF xs WebRtcSpl_kAllPassFilter2 fs) (\<lambda>(_, ys, fs'). filtered 808748920 xs ys \<and> second_inv fs')"
  using assms(1)
proof (cases fs rule: second_inv.cases)
  case (1 s0 s1 s2 s3 s4 s5)
  with assms(1) have s: "section_inv 21333 67108864 5829679938445 110798849 s0 s1" "section_inv 49062 110798849 12697326692878 276692808 s2 s3"
    "section_inv 63010 276692808 35567755331936 808748920 s4 s5" by simp_all
  from second0.cascade_runs [OF s(1) assms(3)] assms(2) obtain y1 where y1: "allpass_cascade 21333 s0 s1 xs = Some y1" "length y1 = length xs"
    "\<forall>y \<in> set y1. \<bar>y\<bar> \<le> 110798849" "section_inv 21333 67108864 5829679938445 110798849 (last xs) (last y1)" by (auto simp: runs_def)
  from second1.cascade_runs [OF s(2) y1(3)] assms(2) y1(2) obtain y2 where y2: "allpass_cascade 49062 s2 s3 y1 = Some y2" "length y2 = length xs"
    "\<forall>y \<in> set y2. \<bar>y\<bar> \<le> 276692808" "section_inv 49062 110798849 12697326692878 276692808 (last y1) (last y2)" by (auto simp: runs_def)
  from second2.cascade_runs [OF s(3) y2(3)] assms(2) y2(2) obtain y where "allpass_cascade 63010 s4 s5 y2 = Some y" "length y = length xs"
    "\<forall>z \<in> set y. \<bar>z\<bar> \<le> 808748920" "section_inv 63010 276692808 35567755331936 808748920 (last y2) (last y)" by (auto simp: runs_def)
  with y1(1,4) y2(1,4) assms(2) show ?thesis by (simp add: 1 runs_simps WebRtcSpl_kAllPassFilter2_def filtered_def)
qed simp_all

declare first_inv.simps [simp del] second_inv.simps [simp del] WebRtcSpl_AllPassQMF.simps [simp del]


section \<open>Frames\<close>

lemma half_in_runs:
  assumes "\<forall>x \<in> set xs. in_s16 x" "k \<le> 1"
  shows "runs (half_in k xs) (\<lambda>h. length h = length xs div 2 \<and> (\<forall>x \<in> set h. \<bar>x\<bar> \<le> 67108864))"
proof -
  have "runs (do { x \<leftarrow> rd xs (int (2 * i + k)); chk32 (x * 1024) }) (\<lambda>x. \<bar>x\<bar> \<le> 67108864)" if "i \<in> set [0..<length xs div 2]" for i
  proof -
    from that assms(2) have "2 * i + k < length xs" by auto
    moreover from this have "in_s16 (xs ! (2 * i + k))" using assms(1) nth_mem by blast
    moreover have "nat (2 * int i + int k) = 2 * i + k" by (simp add: nat_add_distrib nat_mult_distrib)
    ultimately show ?thesis by (simp add: runs_simps in_s16_def in_s32_def abs_le_iff)
  qed
  then have "runs (half_in k xs) (\<lambda>h. length h = length [0..<length xs div 2] \<and> (\<forall>x \<in> set h. \<bar>x\<bar> \<le> 67108864))"
    unfolding half_in_def by (rule runs_mapM)
  then show ?thesis by simp
qed

lemma mapM_zip_runs:
  assumes "filtered K as xs" "filtered L bs ys" "length as = length bs" "\<And>x y. \<bar>x\<bar> \<le> K \<Longrightarrow> \<bar>y\<bar> \<le> L \<Longrightarrow> runs (f (x, y)) Q"
  shows "runs (mapM f (zip xs ys)) (\<lambda>zs. length zs = length as \<and> (\<forall>z \<in> set zs. Q z))"
proof -
  have "runs (f p) Q" if "p \<in> set (zip xs ys)" for p
  proof -
    obtain x y where p: "p = (x, y)" by force
    with that have "x \<in> set xs" "y \<in> set ys" by (auto dest: set_zip_leftD set_zip_rightD)
    with assms(1,2,4) show ?thesis by (simp add: p filtered_def)
  qed
  then have "runs (mapM f (zip xs ys)) (\<lambda>zs. length zs = length (zip xs ys) \<and> (\<forall>z \<in> set zs. Q z))" by (rule runs_mapM)
  then show ?thesis using assms(1-3) by (simp add: filtered_def)
qed

lemma analysis_out_runs:
  "\<bar>x\<bar> \<le> 469340112 \<Longrightarrow> \<bar>y\<bar> \<le> 808748920 \<Longrightarrow> runs (analysis_out (x, y)) (\<lambda>p. in_s16 (fst p) \<and> in_s16 (snd p))"
  by (auto simp: analysis_out_def runs_simps in_s32_def abs_le_iff)

lemma synthesis_out_runs:
  "\<bar>x\<bar> \<le> 808748920 \<Longrightarrow> \<bar>y\<bar> \<le> 469340112 \<Longrightarrow> runs (synthesis_out (x, y)) (\<lambda>p. in_s16 (fst p) \<and> in_s16 (snd p))"
  by (auto simp: synthesis_out_def runs_simps in_s32_def abs_le_iff)

lemma synthesis_in_runs:
  "in_s16 x \<Longrightarrow> in_s16 y \<Longrightarrow> runs (synthesis_in (x, y)) (\<lambda>p. \<bar>fst p\<bar> \<le> 67108864 \<and> \<bar>snd p\<bar> \<le> 67108864)"
  by (auto simp: synthesis_in_def runs_simps in_s16_def in_s32_def abs_le_iff)

text \<open>The analysis and the synthesis as components called frame by frame.\<close>

definition analysis_step :: "int list \<Rightarrow> int list \<times> int list \<Rightarrow> ((int list \<times> int list) \<times> int list \<times> int list) option" where
  "analysis_step x s = do { (low, high, s1, s2) \<leftarrow> WebRtcSpl_AnalysisQMF x (fst s) (snd s); Some ((s1, s2), low, high) }"

definition synthesis_step :: "int list \<times> int list \<Rightarrow> int list \<times> int list \<Rightarrow> ((int list \<times> int list) \<times> int list) option" where
  "synthesis_step b s = do { (x, s1, s2) \<leftarrow> WebRtcSpl_SynthesisQMF (fst b) (snd b) (length (fst b)) (fst s) (snd s); Some ((s1, s2), x) }"

definition analysis_inv :: "int list \<times> int list \<Rightarrow> bool" where
  "analysis_inv s \<longleftrightarrow> first_inv (fst s) \<and> second_inv (snd s)"

definition synthesis_inv :: "int list \<times> int list \<Rightarrow> bool" where
  "synthesis_inv s \<longleftrightarrow> second_inv (fst s) \<and> first_inv (snd s)"

definition full_frame :: "int list \<Rightarrow> bool" where
  "full_frame x \<longleftrightarrow> even (length x) \<and> 0 < length x \<and> length x \<le> 640 \<and> (\<forall>v \<in> set x. in_s16 v)"

definition two_bands :: "nat \<Rightarrow> int list \<times> int list \<Rightarrow> bool" where
  "two_bands n b \<longleftrightarrow> length (fst b) = n \<and> length (snd b) = n \<and> (\<forall>v \<in> set (fst b) \<union> set (snd b). in_s16 v)"

definition band_frames :: "int list \<times> int list \<Rightarrow> bool" where
  "band_frames b \<longleftrightarrow> two_bands (length (fst b)) b \<and> 0 < length (fst b) \<and> length (fst b) \<le> 320"

lemma analysis_step_runs:
  assumes "analysis_inv s" "full_frame x"
  shows "runs (analysis_step x s) (\<lambda>(s', b). analysis_inv s' \<and> two_bands (length x div 2) b)"
proof -
  have x: "\<forall>v \<in> set x. in_s16 v" "length x mod 2 = 0" "length x div 2 \<le> kMaxBandFrameLength" "even (length x)" "length x > 0"
    using assms(2) by (auto simp: full_frame_def kMaxBandFrameLength_def)
  then have x4: "length x div 2 > 0" by presburger
  from half_in_runs [OF x(1), of 0] obtain h2 where h2: "half_in 0 x = Some h2" "length h2 = length x div 2" "\<forall>v \<in> set h2. \<bar>v\<bar> \<le> 67108864"
    by (auto simp: runs_def)
  from half_in_runs [OF x(1), of 1] obtain h1 where h1: "half_in 1 x = Some h1" "length h1 = length x div 2" "\<forall>v \<in> set h1. \<bar>v\<bar> \<le> 67108864"
    by (auto simp: runs_def)
  have ne: "h1 \<noteq> []" "h2 \<noteq> []" using h1(2) h2(2) x4 by auto
  from first_runs [OF _ ne(1) h1(3), of "fst s"] assms(1) obtain i1 f1 s1 where f1: "WebRtcSpl_AllPassQMF h1 WebRtcSpl_kAllPassFilter1 (fst s) = Some (i1, f1, s1)"
    "filtered 469340112 h1 f1" "first_inv s1" by (auto simp: runs_def analysis_inv_def)
  from second_runs [OF _ ne(2) h2(3), of "snd s"] assms(1) obtain i2 f2 s2 where f2: "WebRtcSpl_AllPassQMF h2 WebRtcSpl_kAllPassFilter2 (snd s) = Some (i2, f2, s2)"
    "filtered 808748920 h2 f2" "second_inv s2" by (auto simp: runs_def analysis_inv_def)
  from mapM_zip_runs [where f = analysis_out and Q = "\<lambda>p. in_s16 (fst p) \<and> in_s16 (snd p)", OF f1(2) f2(2) _ analysis_out_runs] h1(2) h2(2)
  obtain bs where "mapM analysis_out (zip f1 f2) = Some bs" "length bs = length x div 2" "\<forall>p \<in> set bs. in_s16 (fst p) \<and> in_s16 (snd p)"
    by (auto simp: runs_def)
  with h1(1) h2(1) f1(1,3) f2(1,3) x(2,3) show ?thesis
    by (auto simp: analysis_step_def WebRtcSpl_AnalysisQMF_def runs_simps analysis_inv_def two_bands_def)
qed

lemma synthesis_step_runs:
  assumes "synthesis_inv s" "band_frames b"
  shows "runs (synthesis_step b s) (\<lambda>(s', x). synthesis_inv s' \<and> length x = 2 * length (fst b) \<and> (\<forall>v \<in> set x. in_s16 v))"
proof -
  have b: "length (snd b) = length (fst b)" "length (fst b) \<le> kMaxBandFrameLength" "length (fst b) > 0" "\<forall>v \<in> set (fst b) \<union> set (snd b). in_s16 v"
    using assms(2) by (auto simp: band_frames_def two_bands_def kMaxBandFrameLength_def)
  have "runs (synthesis_in p) (\<lambda>p. \<bar>fst p\<bar> \<le> 67108864 \<and> \<bar>snd p\<bar> \<le> 67108864)" if "p \<in> set (zip (fst b) (snd b))" for p
  proof -
    obtain x y where p: "p = (x, y)" by force
    with that have "x \<in> set (fst b)" "y \<in> set (snd b)" by (auto dest: set_zip_leftD set_zip_rightD)
    with b(4) synthesis_in_runs [of x y] show ?thesis by (simp add: p)
  qed
  then have "runs (mapM synthesis_in (zip (fst b) (snd b)))
      (\<lambda>h. length h = length (zip (fst b) (snd b)) \<and> (\<forall>p \<in> set h. \<bar>fst p\<bar> \<le> 67108864 \<and> \<bar>snd p\<bar> \<le> 67108864))" by (rule runs_mapM)
  with b(1) obtain h where h: "mapM synthesis_in (zip (fst b) (snd b)) = Some h" "length h = length (fst b)"
    "\<forall>p \<in> set h. \<bar>fst p\<bar> \<le> 67108864 \<and> \<bar>snd p\<bar> \<le> 67108864" by (auto simp: runs_def)
  have ne: "map fst h \<noteq> []" "map snd h \<noteq> []" "\<forall>x \<in> set (map fst h). \<bar>x\<bar> \<le> 67108864" "\<forall>x \<in> set (map snd h). \<bar>x\<bar> \<le> 67108864"
    using h(2,3) b(3) by auto
  from second_runs [OF _ ne(1,3), of "fst s"] assms(1) obtain i1 f1 s1 where
    f1: "WebRtcSpl_AllPassQMF (map fst h) WebRtcSpl_kAllPassFilter2 (fst s) = Some (i1, f1, s1)"
    "filtered 808748920 (map fst h) f1" "second_inv s1" by (auto simp: runs_def synthesis_inv_def)
  from first_runs [OF _ ne(2,4), of "snd s"] assms(1) obtain i2 f2 s2 where
    f2: "WebRtcSpl_AllPassQMF (map snd h) WebRtcSpl_kAllPassFilter1 (snd s) = Some (i2, f2, s2)"
    "filtered 469340112 (map snd h) f2" "first_inv s2" by (auto simp: runs_def synthesis_inv_def)
  from mapM_zip_runs [where f = synthesis_out and Q = "\<lambda>p. in_s16 (fst p) \<and> in_s16 (snd p)", OF f1(2) f2(2) _ synthesis_out_runs] h(2)
  obtain out where o: "mapM synthesis_out (zip f1 f2) = Some out" "length out = length (fst b)" "\<forall>p \<in> set out. in_s16 (fst p) \<and> in_s16 (snd p)"
    by (auto simp: runs_def)
  have "length (concat (map (\<lambda>p. [fst p, snd p]) out)) = 2 * length out" by (induction out) simp_all
  with h(1) f1(1,3) f2(1,3) b(1,2) o show ?thesis
    by (auto simp: synthesis_step_def WebRtcSpl_SynthesisQMF_def runs_simps synthesis_inv_def rd_block_def)
qed

lemma bands_of_frame: "full_frame x \<Longrightarrow> two_bands (length x div 2) b \<Longrightarrow> band_frames b"
proof -
  assume x: "full_frame x" "two_bands (length x div 2) b"
  then have "0 < length x div 2 \<and> length x div 2 \<le> 320" unfolding full_frame_def by (elim conjE) presburger
  with x(2) show "band_frames b" by (simp add: two_bands_def band_frames_def)
qed

interpretation analysis: total_frame_processor analysis_step analysis_inv full_frame "\<lambda>x. two_bands (length x div 2)"
  by unfold_locales (auto dest!: analysis_step_runs simp: runs_def)

interpretation synthesis: total_frame_processor synthesis_step synthesis_inv band_frames
    "\<lambda>b x. length x = 2 * length (fst b) \<and> (\<forall>v \<in> set x. in_s16 v)"
  by unfold_locales (auto dest!: synthesis_step_runs simp: runs_def)

section \<open>Properties\<close>

text \<open>C21. A stream of frames of 16-bit samples, each of an even number of at most 640 samples, is split into bands of
  half the length and joined again without any 32-bit overflow, both filters started on zero states: every frame
  gives two bands of 16-bit samples, and the bands give a frame of 16-bit samples of the original length.\<close>

theorem split_and_join_safe:
  assumes "\<forall>x \<in> set frames. even (length x) \<and> 0 < length x \<and> length x \<le> 640 \<and> (\<forall>v \<in> set x. in_s16 v)"
  shows "\<exists>s bands t joined. stream analysis_step frames (replicate 6 0, replicate 6 0) = Some (s, bands)
    \<and> list_all2 (\<lambda>x b. length (fst b) = length x div 2 \<and> length (snd b) = length x div 2 \<and> (\<forall>v \<in> set (fst b) \<union> set (snd b). in_s16 v)) frames bands
    \<and> stream synthesis_step bands (replicate 6 0, replicate 6 0) = Some (t, joined)
    \<and> list_all2 (\<lambda>x y. length y = length x \<and> (\<forall>v \<in> set y. in_s16 v)) frames joined"
proof -
  have f: "\<forall>x \<in> set frames. full_frame x" using assms by (simp add: full_frame_def)
  have a: "analysis_inv (replicate 6 0, replicate 6 0)" "synthesis_inv (replicate 6 0, replicate 6 0)"
    by (simp_all add: analysis_inv_def synthesis_inv_def inv_zero)
  from analysis.stream_total [OF a(1) f] obtain s bands where b: "stream analysis_step frames (replicate 6 0, replicate 6 0) = Some (s, bands)"
    "list_all2 (\<lambda>x. two_bands (length x div 2)) frames bands" by (auto simp: runs_def)
  have e: "list_all2 (\<lambda>x b. full_frame x \<and> two_bands (length x div 2) b) frames bands"
    by (rule list.rel_mono_strong [OF b(2)]) (use f in simp)
  then have "\<forall>b \<in> set bands. band_frames b"
    by (induction rule: list_all2_induct) (auto intro: bands_of_frame)
  from synthesis.stream_total [OF a(2) this] obtain t joined where j: "stream synthesis_step bands (replicate 6 0, replicate 6 0) = Some (t, joined)"
    "list_all2 (\<lambda>b x. length x = 2 * length (fst b) \<and> (\<forall>v \<in> set x. in_s16 v)) bands joined" by (auto simp: runs_def)
  have "list_all2 (\<lambda>x y. length y = length x \<and> (\<forall>v \<in> set y. in_s16 v)) frames joined"
    by (rule list_all2_trans [OF _ e j(2)]) (auto simp: two_bands_def full_frame_def)
  with b j(1) show ?thesis unfolding two_bands_def by blast
qed

theorem split_and_join_safe_witness:
  "\<exists>s b t y. stream analysis_step [[32767, -32768, 5, 6]] (replicate 6 0, replicate 6 0) = Some (s, [b])
    \<and> stream synthesis_step [b] (replicate 6 0, replicate 6 0) = Some (t, [y]) \<and> length (fst b) = 2 \<and> length y = 4"
  using split_and_join_safe [of "[[32767, -32768, 5, 6]]"]
  by (auto simp: in_s16_def list_all2_Cons1 simp del: stream.simps)

end
