(* ===== verification/Spl_Common.thy ===== *)
theory Spl_Common
  imports Spl
begin

text \<open>
  The routines of \<open>common_audio\<close> that the copy of the library in \<open>digital_agc\<close> does not have: the divisions
  (\<open>division_operations.c\<close>), the integer square root (\<open>spl_sqrt_floor.c\<close>) and the array operations
  (\<open>copy_set_operations.c\<close>). The theorems show that the bitwise square root is the integer square root and that
  the bitwise division is exact for divisors up to \<open>2 ^ 30\<close>.
\<close>

section \<open>Divisions\<close>

definition WebRtcSpl_DivU32U16 :: "int \<Rightarrow> int \<Rightarrow> int" where
  "WebRtcSpl_DivU32U16 num den = (if den \<noteq> 0 then num div den else 0xFFFFFFFF)"

text \<open>The loop \<open>while (k--)\<close> on \<open>div\<close> and \<open>L_num\<close>.\<close>

fun q31_loop :: "nat \<Rightarrow> int \<Rightarrow> int \<Rightarrow> int \<Rightarrow> int option" where
  "q31_loop 0 L_den q L_num = Some q"
| "q31_loop (Suc k) L_den q L_num = do {
     q \<leftarrow> shl32 q 1;
     L_num \<leftarrow> shl32 L_num 1;
     if L_num \<ge> L_den then do {
       L_num \<leftarrow> chk32 (L_num - L_den);
       q \<leftarrow> chk32 (q + 1);
       q31_loop k L_den q L_num
     } else q31_loop k L_den q L_num
   }"

definition WebRtcSpl_DivResultInQ31 :: "int \<Rightarrow> int \<Rightarrow> int option" where
  "WebRtcSpl_DivResultInQ31 num den =
     (if num = 0 then Some 0
      else do {
        L_num \<leftarrow> (if num < 0 then chk32 (- num) else Some num);
        L_den \<leftarrow> (if den < 0 then chk32 (- den) else Some den);
        q \<leftarrow> q31_loop 31 L_den 0 L_num;
        if (num < 0) \<noteq> (den < 0) then chk32 (- q) else Some q
      })"

text \<open>
  The function is exempt from overflow checks (\<open>RTC_NO_SANITIZE\<close>); an overflow is undefined nevertheless. A shift of
  a negative value to the left, undefined as well, is \<open>None\<close>.
\<close>

definition hi_low :: "int \<Rightarrow> (int \<times> int) option" where
  "hi_low w = do {
     let hi = s16 (w div 2 ^ 16);
     t \<leftarrow> shl32 hi 16;
     d \<leftarrow> chk32 (w - t);
     Some (hi, s16 (d div 2))
   }"

definition WebRtcSpl_DivW32HiLow :: "int \<Rightarrow> int \<Rightarrow> int \<Rightarrow> int option" where
  "WebRtcSpl_DivW32HiLow num den_hi den_low = do {
     a \<leftarrow> WebRtcSpl_DivW32W16 0x1FFFFFFF den_hi;
     let approx = s16 a;
     p \<leftarrow> chk32 (den_hi * approx);
     p \<leftarrow> shl32 p 1;
     r \<leftarrow> chk32 (den_low * approx);
     r \<leftarrow> shl32 (r div 2 ^ 15) 1;
     tmpW32 \<leftarrow> chk32 (p + r);
     tmpW32 \<leftarrow> chk32 (0x7fffffff - tmpW32);
     (tmp_hi, tmp_low) \<leftarrow> hi_low tmpW32;
     p \<leftarrow> chk32 (tmp_hi * approx);
     r \<leftarrow> chk32 (tmp_low * approx);
     p \<leftarrow> chk32 (p + r div 2 ^ 15);
     tmpW32 \<leftarrow> shl32 p 1;
     (tmp_hi, tmp_low) \<leftarrow> hi_low tmpW32;
     (num_hi, num_low) \<leftarrow> hi_low num;
     p \<leftarrow> chk32 (num_hi * tmp_hi);
     q \<leftarrow> chk32 (num_hi * tmp_low);
     p \<leftarrow> chk32 (p + q div 2 ^ 15);
     q \<leftarrow> chk32 (num_low * tmp_hi);
     tmpW32 \<leftarrow> chk32 (p + q div 2 ^ 15);
     shl32 tmpW32 3
   }"

section \<open>The integer square root\<close>

text \<open>\<open>WEBRTC_SPL_SQRT_ITER\<close> on \<open>root\<close> and \<open>value\<close>.\<close>

definition WEBRTC_SPL_SQRT_ITER :: "nat \<Rightarrow> int \<times> int \<Rightarrow> (int \<times> int) option" where
  "WEBRTC_SPL_SQRT_ITER n s = do {
     let (root, v) = s;
     d \<leftarrow> shl32 1 (int n);
     try1 \<leftarrow> chk32 (root + d);
     t \<leftarrow> shl32 try1 (int n);
     if v \<ge> t then do {
       v \<leftarrow> chk32 (v - t);
       b \<leftarrow> shl32 2 (int n);
       Some (root OR b, v)
     } else Some (root, v)
   }"

definition WebRtcSpl_SqrtFloor :: "int \<Rightarrow> int option" where
  "WebRtcSpl_SqrtFloor v = do {
     (root, v) \<leftarrow> foldM WEBRTC_SPL_SQRT_ITER [15, 14, 13, 12, 11, 10, 9, 8, 7, 6, 5, 4, 3, 2, 1, 0] (0, v);
     Some (root div 2)
   }"

section \<open>Arrays\<close>

definition WebRtcSpl_MemSetW16 :: "int list \<Rightarrow> int \<Rightarrow> nat \<Rightarrow> int list option" where
  "WebRtcSpl_MemSetW16 ptr set_value len = foldM (\<lambda>j arr. wr arr (int j) set_value) [0..<len] ptr"

text \<open>\<open>dest\<close> is the index in the array that the destination pointer points to; it moves down.\<close>

definition WebRtcSpl_MemCpyReversedOrder :: "int list \<Rightarrow> int \<Rightarrow> int list \<Rightarrow> nat \<Rightarrow> int list option" where
  "WebRtcSpl_MemCpyReversedOrder arr dest source len =
     foldM (\<lambda>j arr. do { v \<leftarrow> rd source (int j); wr arr (dest - int j) v }) [0..<len] arr"

definition WebRtcSpl_CopyFromEndW16 :: "int list \<Rightarrow> nat \<Rightarrow> nat \<Rightarrow> int list \<Rightarrow> int list option" where
  "WebRtcSpl_CopyFromEndW16 vector_in len samples vector_out =
     (if samples \<le> len \<and> samples \<le> length vector_out then do {
        v \<leftarrow> rd_block vector_in (len - samples) samples;
        Some (v @ drop samples vector_out)
      } else None)"

definition WebRtcSpl_ZerosArrayW16 :: "int list \<Rightarrow> nat \<Rightarrow> int list option" where
  "WebRtcSpl_ZerosArrayW16 vector len = WebRtcSpl_MemSetW16 vector 0 len"

definition WebRtcSpl_ZerosArrayW32 :: "int list \<Rightarrow> nat \<Rightarrow> int list option" where
  "WebRtcSpl_ZerosArrayW32 vector len = WebRtcSpl_MemSetW32 vector 0 len"

section \<open>The division loop\<close>

lemma q31_loop_exact:
  assumes "0 \<le> r" "r < den" "den \<le> 1073741824" "0 \<le> q" "q < 2 ^ (31 - k)" "k \<le> 31"
  shows "q31_loop k den q r = Some (q * 2 ^ k + r * 2 ^ k div den)"
  using assms
proof (induction k arbitrary: q r)
  case (Suc k)
  define b where "b = (if r * 2 \<ge> den then 1 else 0 :: int)"
  have e: "(2::int) ^ (31 - k) = 2 * 2 ^ (31 - Suc k)" using Suc.prems(6) by (simp flip: power_Suc add: Suc_diff_Suc)
  have "(2::int) ^ (31 - k) \<le> 2 ^ 31" by (rule power_increasing) simp_all
  with e Suc.prems(5) have q: "q * 2 + b < 2 ^ (31 - k)" "q * 2 + b \<le> 2147483647" by (simp_all add: b_def)
  have r: "0 \<le> r * 2 - b * den" "r * 2 - b * den < den" using Suc.prems(1,2) by (simp_all add: b_def)
  have "q31_loop (Suc k) den q r = q31_loop k den (q * 2 + b) (r * 2 - b * den)"
    using Suc.prems(1-4) q(2) by (cases "den \<le> r * 2") (simp_all add: shl32_def chk32_def in_s32_def b_def)
  also have "\<dots> = Some ((q * 2 + b) * 2 ^ k + (r * 2 - b * den) * 2 ^ k div den)"
    using Suc.prems q r by (intro Suc.IH) (simp_all add: b_def)
  also have "(q * 2 + b) * 2 ^ k + (r * 2 - b * den) * 2 ^ k div den = q * 2 ^ Suc k + r * 2 ^ Suc k div den"
  proof -
    have "r * 2 ^ Suc k = (r * 2 - b * den) * 2 ^ k + b * 2 ^ k * den" by (simp add: algebra_simps)
    then have "r * 2 ^ Suc k div den = (r * 2 - b * den) * 2 ^ k div den + b * 2 ^ k" using Suc.prems(1,2) by simp
    then show ?thesis by (simp add: algebra_simps)
  qed
  finally show ?case .
qed simp

section \<open>The square root loop\<close>

text \<open>
  Before the step for \<open>2 ^ n\<close>: \<open>root\<close> is twice a multiple \<open>R\<close> of \<open>2 ^ (n + 1)\<close>, the rest is \<open>x - R\<^sup>2\<close>, and the
  square root lies less than \<open>2 ^ (n + 1)\<close> above \<open>R\<close>.
\<close>

definition sqrt_inv :: "int \<Rightarrow> nat \<Rightarrow> int \<times> int \<Rightarrow> bool" where
  "sqrt_inv x n s \<longleftrightarrow> (\<exists>R. fst s = 2 * (R * 2 ^ n) \<and> snd s = x - (R * 2 ^ n) * (R * 2 ^ n)
     \<and> 0 \<le> R \<and> (R * 2 ^ n) * (R * 2 ^ n) \<le> x \<and> x < (R * 2 ^ n + 2 ^ n) * (R * 2 ^ n + 2 ^ n))"


lemma square_le: "0 \<le> a \<Longrightarrow> 0 \<le> b \<Longrightarrow> a * a \<le> b * b \<Longrightarrow> a \<le> (b::int)"
  by (rule power2_le_imp_le) (simp_all add: power2_eq_square)

text \<open>The trial value of the step for \<open>D = 2 ^ n\<close> stays within 32 bits.\<close>

lemma sqrt_trial_fits:
  fixes R :: int
  assumes "0 \<le> R" "(R * 2 ^ Suc n) * (R * 2 ^ Suc n) \<le> 2147483647" "n \<le> 15"
  shows "(2 * (R * 2 ^ Suc n) + 2 ^ n) * 2 ^ n \<le> 2147483647 \<and> 2 * (R * 2 ^ Suc n) + 2 ^ n \<le> 2147483647"
proof -
  define P D where "P = R * 2 ^ Suc n" and "D = (2::int) ^ n"
  have "0 \<le> P" using assms(1) by (simp add: P_def)
  have "P * P \<le> 2147483647" unfolding P_def by (rule assms(2))
  then have "P * P \<le> 46341 * 46341" by simp
  from square_le [OF \<open>0 \<le> P\<close> _ this] have P: "P \<le> 46341" by simp
  consider "n \<le> 13" | "n = 14" | "n = 15" using assms(3) by linarith
  then have "2 * P + D \<le> 100874 \<and> D \<le> 8192 \<or> 2 * P + D \<le> 81920 \<and> D \<le> 16384 \<or> 2 * P + D \<le> 32768 \<and> D \<le> 32768"
  proof cases
    case 1
    then have "D \<le> 2 ^ 13" unfolding D_def by (intro power_increasing) simp_all
    then have "D \<le> 8192" by simp
    then show ?thesis using P by linarith
  next
    case 2
    then have "D = 16384" "P = R * 32768" by (simp_all add: P_def D_def)
    moreover from this P have "R \<le> 1" by linarith
    ultimately show ?thesis by linarith
  next
    case 3
    then have "D = 32768" "P = R * 65536" by (simp_all add: P_def D_def)
    moreover from this P have "R \<le> 0" by linarith
    ultimately show ?thesis by linarith
  qed
  moreover have "0 < D" by (simp add: D_def)
  ultimately have "(2 * P + D) * D \<le> 2147483647" "2 * P + D \<le> 2147483647"
    using mult_mono [of "2 * P + D" 100874 D 8192] mult_mono [of "2 * P + D" 81920 D 16384] mult_mono [of "2 * P + D" 32768 D 32768] \<open>0 \<le> P\<close>
    by fastforce+
  then show ?thesis unfolding P_def D_def by blast
qed

lemma or_disjoint:
  fixes R :: int
  shows "2 * (R * 2 ^ Suc n) OR 2 * 2 ^ n = 2 * (R * 2 ^ Suc n) + 2 * 2 ^ n"
proof -
  have "concat_bit (Suc (Suc n)) (2 * 2 ^ n) R = 2 * 2 ^ n OR push_bit (Suc (Suc n)) R"
    by (simp add: concat_bit_def take_bit_int_eq_self)
  moreover have "concat_bit (Suc (Suc n)) (2 * 2 ^ n) R = 2 * 2 ^ n + push_bit (Suc (Suc n)) R"
    by (simp add: concat_bit_eq take_bit_int_eq_self)
  ultimately have "2 * 2 ^ n OR R * (2 * (2 * 2 ^ n)) = 2 * 2 ^ n + R * (2 * (2 * 2 ^ n))" by (simp add: push_bit_eq_mult)
  then show ?thesis by (simp add: or.commute mult.left_commute)
qed

lemma sqrt_iter_eq:
  assumes "n \<le> 15" "D = 2 ^ n" "t = (y + D) * D" "0 \<le> y" "y + D \<le> 2147483647" "0 \<le> t" "t \<le> 2147483647" "v \<le> 2147483647"
  shows "WEBRTC_SPL_SQRT_ITER n (y, v) = (if v \<ge> t then Some (y OR 2 * D, v - t) else Some (y, v))"
proof -
  have "(2::int) ^ n \<le> 2 ^ 15" using assms(1) by (intro power_increasing) simp_all
  then have D: "0 < D" "D \<le> 32768" by (simp_all add: assms(2))
  have e: "shl32 1 (int n) = Some D" "shl32 2 (int n) = Some (2 * D)" "shl32 (y + D) (int n) = Some t"
    using assms(1,4-7) D by (simp_all add: shl32_def chk32_def in_s32_def assms(2) [symmetric] assms(3) [symmetric])
  have c: "chk32 (y + D) = Some (y + D)" using assms(4,5) D by (simp add: chk32_def in_s32_def)
  have "chk32 (v - t) = Some (v - t)" if "t \<le> v" using that assms(6-8) by (simp add: chk32_def in_s32_def)
  then show ?thesis unfolding WEBRTC_SPL_SQRT_ITER_def by (simp add: e c)
qed

lemma sqrt_iter_runs:
  assumes "sqrt_inv x (Suc n) s" "x \<le> 2147483647" "n \<le> 15"
  shows "runs (WEBRTC_SPL_SQRT_ITER n s) (sqrt_inv x n)"
proof -
  obtain R where R: "fst s = 2 * (R * 2 ^ Suc n)" "snd s = x - (R * 2 ^ Suc n) * (R * 2 ^ Suc n)" "0 \<le> R"
    "(R * 2 ^ Suc n) * (R * 2 ^ Suc n) \<le> x" "x < (R * 2 ^ Suc n + 2 ^ Suc n) * (R * 2 ^ Suc n + 2 ^ Suc n)"
    using assms(1) unfolding sqrt_inv_def by blast
  define P D where "P = R * 2 ^ Suc n" and "D = (2::int) ^ n"
  have PD: "P = 2 * R * D" "(2::int) ^ Suc n = 2 * D" by (simp_all add: P_def D_def)
  have fit: "(2 * P + D) * D \<le> 2147483647" "2 * P + D \<le> 2147483647"
    using sqrt_trial_fits [OF R(3) order_trans [OF R(4) assms(2)] assms(3)] unfolding P_def D_def by blast+
  have "(2::int) ^ n \<le> 2 ^ 15" using assms(3) by (intro power_increasing) simp_all
  then have D: "0 < D" "D \<le> 32768" by (simp_all add: D_def)
  have "x < (P + 2 * D) * (P + 2 * D)" unfolding P_def PD(2) [symmetric] by (rule R(5))
  moreover have "P * P \<le> x" unfolding P_def by (rule R(4))
  ultimately have P: "0 \<le> P" "P * P \<le> x" "x < (P + 2 * D) * (P + 2 * D)" using R(3) by (simp_all add: P_def)
  have s: "s = (2 * P, x - P * P)" using R(1,2) by (simp add: P_def prod_eq_iff)
  have "0 \<le> P * P" by simp
  then have v: "x - P * P \<le> 2147483647" using assms(2) by linarith
  have o: "2 * P OR 2 * D = 2 * P + 2 * D" using or_disjoint [of R n] unfolding P_def [symmetric] D_def [symmetric] .
  have "0 \<le> 2 * P" "0 \<le> (2 * P + D) * D" using P(1) D(1) by simp_all
  from sqrt_iter_eq [OF assms(3) D_def refl this(1) fit(2) this(2) fit(1) v]
  have step: "WEBRTC_SPL_SQRT_ITER n s
    = (if x - P * P \<ge> (2 * P + D) * D then Some (2 * P + 2 * D, x - P * P - (2 * P + D) * D) else Some (2 * P, x - P * P))"
    unfolding s o .
  show ?thesis
  proof (cases "x - P * P \<ge> (2 * P + D) * D")
    case True
    have "(P + D) * (P + D) \<le> x" "x < (P + D + D) * (P + D + D)" using True P(3) by (simp_all add: algebra_simps)
    moreover have "P + D = (2 * R + 1) * 2 ^ n" by (simp add: PD(1) D_def algebra_simps)
    moreover have "x - P * P - (2 * P + D) * D = x - (P + D) * (P + D)" by (simp add: algebra_simps)
    ultimately have "sqrt_inv x n (2 * P + 2 * D, x - P * P - (2 * P + D) * D)"
      unfolding sqrt_inv_def D_def [symmetric] using R(3) by (intro exI [of _ "2 * R + 1"]) (simp add: algebra_simps)
    with True show ?thesis by (simp add: step runs_simps)
  next
    case False
    have "x < (P + D) * (P + D)" using False by (simp add: algebra_simps)
    moreover have "P = (2 * R) * 2 ^ n" by (simp add: PD(1) D_def)
    ultimately have "sqrt_inv x n (2 * P, x - P * P)"
      unfolding sqrt_inv_def D_def [symmetric] using R(3) P(2) by (intro exI [of _ "2 * R"]) simp
    with False show ?thesis by (simp add: step runs_simps)
  qed
qed

lemma sqrt_loop_runs:
  assumes "sqrt_inv x n s" "x \<le> 2147483647" "n \<le> 16"
  shows "runs (foldM WEBRTC_SPL_SQRT_ITER (rev [0..<n]) s) (sqrt_inv x 0)"
  using assms
proof (induction n arbitrary: s)
  case (Suc n)
  have "runs (WEBRTC_SPL_SQRT_ITER n s) (sqrt_inv x n)" using Suc.prems by (intro sqrt_iter_runs) simp_all
  then have "runs (Option.bind (WEBRTC_SPL_SQRT_ITER n s) (foldM WEBRTC_SPL_SQRT_ITER (rev [0..<n]))) (sqrt_inv x 0)"
    by (rule runs_seq) (use Suc in simp)
  then show ?case by simp
qed (simp add: runs_simps)

lemma sqrt_negative:
  assumes "x < 0" "n \<le> 16"
  shows "foldM WEBRTC_SPL_SQRT_ITER (rev [0..<n]) (0, x) = Some (0, x)"
  using assms(2)
proof (induction n)
  case (Suc n)
  define D where "D = (2::int) ^ n"
  have "(2::int) ^ n \<le> 2 ^ 15" using Suc.prems by (intro power_increasing) simp_all
  then have d: "0 < D" "D \<le> 32768" by (simp_all add: D_def)
  then have d2: "D * D \<le> 32768 * 32768" by (intro mult_mono) simp_all
  have d3: "0 < D * D" using d(1) by simp
  have "\<not> D * D \<le> x" using d3 assms(1) by linarith
  then have "WEBRTC_SPL_SQRT_ITER n (0, x) = Some (0, x)"
    using sqrt_iter_eq [OF _ D_def, of "D * D" 0 x] d d2 assms(1) Suc.prems by simp
  with Suc show ?case by simp
qed simp

section \<open>The division\<close>

text \<open>The bitwise division: where the numerator is smaller than the denominator in absolute value and the
  denominator is at most \<open>2 ^ 30\<close>, the result is the quotient in Q31, rounded towards zero, with the sign of the
  quotient. Above \<open>2 ^ 30\<close> the condition on the arguments that is documented is not enough: a shift may overflow.\<close>

lemma DivResultInQ31_exact:
  assumes "\<bar>num\<bar> < \<bar>den\<bar>" "\<bar>den\<bar> \<le> 1073741824"
  shows "WebRtcSpl_DivResultInQ31 num den = Some (sgn num * sgn den * (\<bar>num\<bar> * 2 ^ 31 div \<bar>den\<bar>))
    \<and> WebRtcSpl_DivResultInQ31 1200000000 1300000000 = None"
proof -
  have l: "q31_loop 31 \<bar>den\<bar> 0 \<bar>num\<bar> = Some (\<bar>num\<bar> * 2 ^ 31 div \<bar>den\<bar>)" using q31_loop_exact [of "\<bar>num\<bar>" "\<bar>den\<bar>" 0 31] assms by simp
  define q where "q = \<bar>num\<bar> * 2 ^ 31 div \<bar>den\<bar>"
  have "0 \<le> q" using assms(1) by (simp add: q_def pos_imp_zdiv_nonneg_iff)
  have "q * \<bar>den\<bar> \<le> \<bar>num\<bar> * 2 ^ 31"
    using div_mult_mod_eq [of "\<bar>num\<bar> * 2 ^ 31" "\<bar>den\<bar>"] pos_mod_sign [of "\<bar>den\<bar>" "\<bar>num\<bar> * 2 ^ 31"] assms(1) unfolding q_def by linarith
  also have "\<dots> < 2 ^ 31 * \<bar>den\<bar>" using assms(1) by simp
  finally have "q < 2 ^ 31" using assms(1) mult_less_cancel_right_pos [of "\<bar>den\<bar>" q "2 ^ 31"] by simp
  then have n: "chk32 (- q) = Some (- q)" using \<open>0 \<le> q\<close> by (simp add: chk32_def in_s32_def)
  have m: "(if num < 0 then chk32 (- num) else Some num) = Some \<bar>num\<bar>" "(if den < 0 then chk32 (- den) else Some den) = Some \<bar>den\<bar>"
    using assms by (auto simp: chk32_def in_s32_def)
  have "WebRtcSpl_DivResultInQ31 num den = Some (sgn num * sgn den * q)"
  proof (cases "num = 0")
    case False
    then show ?thesis unfolding WebRtcSpl_DivResultInQ31_def m bind.bind_lunit l q_def [symmetric] using n assms by (auto simp: sgn_if)
  qed (simp add: WebRtcSpl_DivResultInQ31_def)
  moreover have "q31_loop 31 1300000000 0 1200000000 = None"
    using q31_loop.simps(2) [of 30 1300000000 0 1200000000] by (simp add: shl32_def chk32_def in_s32_def)
  then have "WebRtcSpl_DivResultInQ31 1200000000 1300000000 = None" by (simp add: WebRtcSpl_DivResultInQ31_def)
  ultimately show ?thesis unfolding q_def by blast
qed

section \<open>Properties\<close>

text \<open>C26. The bitwise square root returns for every 32-bit argument without overflow: the largest \<open>r\<close> with
  \<open>r\<^sup>2 \<le> x\<close>, and zero for a negative argument.\<close>

theorem SqrtFloor_correct:
  assumes "in_s32 x"
  shows "\<exists>r. WebRtcSpl_SqrtFloor x = Some r \<and> 0 \<le> r \<and> (if x < 0 then r = 0 else r * r \<le> x \<and> x < (r + 1) * (r + 1))"
proof -
  have l: "[15, 14, 13, 12, 11, 10, 9, 8, 7, 6, 5, 4, 3, 2, 1, 0] = rev [0..<16]" by (simp add: upt_rec)
  show ?thesis
  proof (cases "x < 0")
    case True
    then show ?thesis unfolding WebRtcSpl_SqrtFloor_def l sqrt_negative [OF True order_refl] by simp
  next
    case False
    then have "sqrt_inv x 16 (0, x)" "x \<le> 2147483647" using assms by (auto simp: sqrt_inv_def in_s32_def intro!: exI [of _ 0])
    from sqrt_loop_runs [OF this order_refl] obtain s where "foldM WEBRTC_SPL_SQRT_ITER (rev [0..<16]) (0, x) = Some s" "sqrt_inv x 0 s"
      by (auto simp: runs_def)
    with False show ?thesis unfolding WebRtcSpl_SqrtFloor_def l by (cases s) (auto simp: sqrt_inv_def)
  qed
qed

theorem SqrtFloor_correct_witness: "WebRtcSpl_SqrtFloor 2147483647 \<noteq> None \<and> WebRtcSpl_SqrtFloor (-5) = Some 0"
  using SqrtFloor_correct [of 2147483647] SqrtFloor_correct [of "-5"] by (auto simp: in_s32_def)

end
