(* ===== verification/Buffers.thy ===== *)
theory Buffers
  imports C_Prelude
begin

text \<open>
  The growing buffer \<open>rtc::BufferT\<close> (\<open>base/buffer.h\<close>). The buffer owns an array of \<open>capacity_\<close> elements of which
  the first \<open>size_\<close> are in use; memory that is given back to the allocator is logged, since the variant with
  \<open>ZeroOnFree\<close> promises to clear it. The theorem shows that every sequence of operations keeps the buffer
  consistent, treats the elements in use as a list, and, with \<open>ZeroOnFree\<close>, leaves no element that was in use
  either in the unused part of the array or in released memory.
\<close>

section \<open>State\<close>

text \<open>\<open>buf_data\<close> is the array \<open>data_\<close>, so \<open>capacity_\<close> is its length; \<open>buf_freed\<close> holds the released arrays.\<close>

record buffer =
  buf_size :: nat
  buf_data :: "int list"
  buf_freed :: "int list list"

definition buf_capacity :: "buffer \<Rightarrow> nat" where
  "buf_capacity b = length (buf_data b)"

text \<open>The pointer \<open>data_\<close> is null only where the capacity is zero.\<close>

definition IsConsistent :: "buffer \<Rightarrow> bool" where
  "IsConsistent b \<longleftrightarrow> buf_size b \<le> buf_capacity b"

text \<open>The elements in use.\<close>

definition contents :: "buffer \<Rightarrow> int list" where
  "contents b = take (buf_size b) (buf_data b)"

section \<open>Operations\<close>

text \<open>
  \<open>fresh n\<close> is the uninitialised memory \<open>new T[n]\<close> returns, \<open>zf\<close> the template argument \<open>ZeroOnFree\<close>. Sizes are natural
  numbers: an object with \<open>2 ^ 64\<close> elements does not fit into memory.
\<close>

type_synonym allocator = "nat \<Rightarrow> int list"

definition BufferT_empty :: buffer where
  "BufferT_empty = \<lparr>buf_size = 0, buf_data = [], buf_freed = []\<rparr>"

definition BufferT_new :: "allocator \<Rightarrow> nat \<Rightarrow> nat \<Rightarrow> buffer" where
  "BufferT_new fresh sz cap = \<lparr>buf_size = sz, buf_data = (if max sz cap > 0 then fresh (max sz cap) else []), buf_freed = []\<rparr>"

definition BufferT_from :: "allocator \<Rightarrow> int list \<Rightarrow> nat \<Rightarrow> buffer" where
  "BufferT_from fresh xs cap =
     (let b = BufferT_new fresh (length xs) cap in b\<lparr>buf_data := xs @ drop (length xs) (buf_data b)\<rparr>)"

definition MaybeZeroCompleteBuffer :: "bool \<Rightarrow> buffer \<Rightarrow> buffer" where
  "MaybeZeroCompleteBuffer zf b = (if zf \<and> buf_capacity b \<noteq> 0 then b\<lparr>buf_data := replicate (buf_capacity b) 0\<rparr> else b)"

text \<open>Assigning \<open>data_\<close> releases the array it held.\<close>

definition replace_data :: "int list \<Rightarrow> buffer \<Rightarrow> buffer" where
  "replace_data d b = b\<lparr>buf_data := d, buf_freed := buf_freed b @ (if buf_data b = [] then [] else [buf_data b])\<rparr>"

definition EnsureCapacityWithHeadroom :: "bool \<Rightarrow> allocator \<Rightarrow> nat \<Rightarrow> bool \<Rightarrow> buffer \<Rightarrow> buffer" where
  "EnsureCapacityWithHeadroom zf fresh cap extra_headroom b =
     (if cap \<le> buf_capacity b then b
      else
        let new_capacity = (if extra_headroom then max cap (buf_capacity b + buf_capacity b div 2) else cap);
            new_data = contents b @ drop (buf_size b) (fresh new_capacity)
        in replace_data new_data (MaybeZeroCompleteBuffer zf b))"

definition ZeroTrailingData :: "nat \<Rightarrow> buffer \<Rightarrow> buffer" where
  "ZeroTrailingData count b =
     b\<lparr>buf_data := take (buf_size b) (buf_data b) @ replicate count 0 @ drop (buf_size b + count) (buf_data b)\<rparr>"

definition AppendData :: "bool \<Rightarrow> allocator \<Rightarrow> int list \<Rightarrow> buffer \<Rightarrow> buffer" where
  "AppendData zf fresh xs b =
     (let new_size = buf_size b + length xs;
          b = EnsureCapacityWithHeadroom zf fresh new_size True b
      in b\<lparr>buf_data := take (buf_size b) (buf_data b) @ xs @ drop new_size (buf_data b), buf_size := new_size\<rparr>)"

definition SetData :: "bool \<Rightarrow> allocator \<Rightarrow> int list \<Rightarrow> buffer \<Rightarrow> buffer" where
  "SetData zf fresh xs b =
     (let old_size = buf_size b;
          b = AppendData zf fresh xs (b\<lparr>buf_size := 0\<rparr>)
      in if zf \<and> buf_size b < old_size then ZeroTrailingData (old_size - buf_size b) b else b)"

definition SetSize :: "bool \<Rightarrow> allocator \<Rightarrow> nat \<Rightarrow> buffer \<Rightarrow> buffer" where
  "SetSize zf fresh sz b =
     (let old_size = buf_size b;
          b = (EnsureCapacityWithHeadroom zf fresh sz True b)\<lparr>buf_size := sz\<rparr>
      in if zf \<and> buf_size b < old_size then ZeroTrailingData (old_size - buf_size b) b else b)"

text \<open>
  \<open>setter\<close> maps the view to its contents afterwards and the number of elements written; writing more than the view
  holds fails a check.
\<close>

definition AppendData_setter :: "bool \<Rightarrow> allocator \<Rightarrow> nat \<Rightarrow> (int list \<Rightarrow> int list \<times> nat) \<Rightarrow> buffer \<Rightarrow> (buffer \<times> nat) option" where
  "AppendData_setter zf fresh max_elements setter b =
     (let old_size = buf_size b;
          b = SetSize zf fresh (old_size + max_elements) b;
          (view, written) = setter (take max_elements (drop old_size (buf_data b)))
      in if \<not> written \<le> max_elements then None
         else Some (b\<lparr>buf_data := take old_size (buf_data b) @ view @ drop (old_size + max_elements) (buf_data b),
           buf_size := old_size + written\<rparr>, written))"

definition SetData_setter :: "bool \<Rightarrow> allocator \<Rightarrow> nat \<Rightarrow> (int list \<Rightarrow> int list \<times> nat) \<Rightarrow> buffer \<Rightarrow> (buffer \<times> nat) option" where
  "SetData_setter zf fresh max_elements setter b =
     (let old_size = buf_size b in
      case AppendData_setter zf fresh max_elements setter (b\<lparr>buf_size := 0\<rparr>) of
        None \<Rightarrow> None
      | Some (b, written) \<Rightarrow>
          Some (if zf \<and> buf_size b < old_size then ZeroTrailingData (old_size - buf_size b) b else b, written))"

definition EnsureCapacity :: "bool \<Rightarrow> allocator \<Rightarrow> nat \<Rightarrow> buffer \<Rightarrow> buffer" where
  "EnsureCapacity zf fresh cap b = EnsureCapacityWithHeadroom zf fresh cap False b"

definition Buffer_Clear :: "bool \<Rightarrow> buffer \<Rightarrow> buffer" where
  "Buffer_Clear zf b = (MaybeZeroCompleteBuffer zf b)\<lparr>buf_size := 0\<rparr>"

definition Buffer_eq :: "buffer \<Rightarrow> buffer \<Rightarrow> bool" where
  "Buffer_eq a b = (if buf_size a \<noteq> buf_size b then False else take (buf_size a) (buf_data a) = take (buf_size a) (buf_data b))"

definition Buffer_get :: "buffer \<Rightarrow> nat \<Rightarrow> int option" where
  "Buffer_get b i = (if i < buf_size b then Some (buf_data b ! i) else None)"

text \<open>The moved-from buffer of a build without checks.\<close>

definition OnMovedFrom :: "buffer \<Rightarrow> buffer" where
  "OnMovedFrom b = b\<lparr>buf_size := 1, buf_data := []\<rparr>"

text \<open>The move assignment; the result holds both buffers.\<close>

definition move_assign :: "buffer \<Rightarrow> buffer \<Rightarrow> buffer \<times> buffer" where
  "move_assign a b = ((replace_data (buf_data b) a)\<lparr>buf_size := buf_size b\<rparr>, OnMovedFrom b)"

definition BufferT_delete :: "bool \<Rightarrow> buffer \<Rightarrow> int list list" where
  "BufferT_delete zf b = buf_freed (replace_data [] (MaybeZeroCompleteBuffer zf b))"

section \<open>Sequences of operations\<close>

datatype buf_op = Append_op "int list" | Set_op "int list" | Size_op nat | Capacity_op nat | Clear_op
  | Append_setter_op nat "int list \<Rightarrow> int list \<times> nat" | Set_setter_op nat "int list \<Rightarrow> int list \<times> nat"

fun buf_step :: "bool \<Rightarrow> allocator \<Rightarrow> buf_op \<Rightarrow> buffer \<Rightarrow> buffer option" where
  "buf_step zf fresh (Append_op xs) b = Some (AppendData zf fresh xs b)"
| "buf_step zf fresh (Set_op xs) b = Some (SetData zf fresh xs b)"
| "buf_step zf fresh (Size_op n) b = Some (SetSize zf fresh n b)"
| "buf_step zf fresh (Capacity_op n) b = Some (EnsureCapacity zf fresh n b)"
| "buf_step zf fresh Clear_op b = Some (Buffer_Clear zf b)"
| "buf_step zf fresh (Append_setter_op n f) b = map_option fst (AppendData_setter zf fresh n f b)"
| "buf_step zf fresh (Set_setter_op n f) b = map_option fst (SetData_setter zf fresh n f b)"

text \<open>
  What a setter has to do: keep the length of the view, report at most that many elements, and leave the rest of the
  view alone.
\<close>

definition good_setter :: "(int list \<Rightarrow> int list \<times> nat) \<Rightarrow> bool" where
  "good_setter f \<longleftrightarrow> (\<forall>v. length (fst (f v)) = length v \<and> snd (f v) \<le> length v \<and> drop (snd (f v)) (fst (f v)) = drop (snd (f v)) v)"

fun good_op :: "buf_op \<Rightarrow> bool" where
  "good_op (Append_setter_op n f) = good_setter f"
| "good_op (Set_setter_op n f) = good_setter f"
| "good_op _ = True"

text \<open>What an operation does to the elements in use, as a list.\<close>

fun list_step :: "buf_op \<Rightarrow> int list \<Rightarrow> int list \<Rightarrow> bool" where
  "list_step (Append_op xs) l l' = (l' = l @ xs)"
| "list_step (Set_op xs) l l' = (l' = xs)"
| "list_step (Size_op n) l l' = (length l' = n \<and> take n l = take (length l) l')"
| "list_step (Capacity_op n) l l' = (l' = l)"
| "list_step Clear_op l l' = (l' = [])"
| "list_step (Append_setter_op n f) l l' = (\<exists>v. length v = n \<and> l' = l @ take (snd (f v)) (fst (f v)))"
| "list_step (Set_setter_op n f) l l' = (\<exists>v. length v = n \<and> l' = take (snd (f v)) (fst (f v)))"

text \<open>
  \<open>J\<close> is a set of elements that may be seen: zero and what fresh memory holds. The invariant of a buffer that clears
  its memory: the unused part of the array and all released memory hold such elements only.
\<close>

definition clean_from :: "int set \<Rightarrow> nat \<Rightarrow> buffer \<Rightarrow> bool" where
  "clean_from J m b \<longleftrightarrow> set (drop m (buf_data b)) \<subseteq> J \<and> (\<forall>d \<in> set (buf_freed b). set d \<subseteq> J)"

definition no_secrets :: "int set \<Rightarrow> buffer \<Rightarrow> bool" where
  "no_secrets J b \<longleftrightarrow> clean_from J (buf_size b) b"

definition alloc_ok :: "int set \<Rightarrow> allocator \<Rightarrow> bool" where
  "alloc_ok J fresh \<longleftrightarrow> 0 \<in> J \<and> (\<forall>n. length (fresh n) = n \<and> set (fresh n) \<subseteq> J)"


section \<open>Growing\<close>

lemma set_drop_mono: "m \<le> n \<Longrightarrow> set (drop n xs) \<subseteq> set (drop m xs)"
  by (rule set_drop_subset_set_drop)

lemma clean_from_mono: "clean_from J m b \<Longrightarrow> m \<le> n \<Longrightarrow> clean_from J n b"
  using set_drop_mono [of m n "buf_data b"] by (auto simp: clean_from_def)

lemma Ensure_size [simp]: "buf_size (EnsureCapacityWithHeadroom zf fresh n e b) = buf_size b"
  by (simp add: EnsureCapacityWithHeadroom_def replace_data_def MaybeZeroCompleteBuffer_def Let_def)

lemma Ensure_capacity:
  assumes "alloc_ok J fresh" "IsConsistent b"
  shows "n \<le> length (buf_data (EnsureCapacityWithHeadroom zf fresh n e b))"
    "buf_size b \<le> length (buf_data (EnsureCapacityWithHeadroom zf fresh n e b))"
  using assms by (auto simp: EnsureCapacityWithHeadroom_def replace_data_def Let_def alloc_ok_def IsConsistent_def buf_capacity_def contents_def)

lemma Ensure_contents:
  assumes "IsConsistent b"
  shows "take (buf_size b) (buf_data (EnsureCapacityWithHeadroom zf fresh n e b)) = contents b"
  using assms by (simp add: EnsureCapacityWithHeadroom_def replace_data_def Let_def IsConsistent_def buf_capacity_def contents_def)

lemma Ensure_clean:
  assumes "alloc_ok J fresh" "IsConsistent b" "clean_from J m b" "buf_size b \<le> m"
  shows "clean_from J m (EnsureCapacityWithHeadroom True fresh n e b)"
proof (cases "n \<le> buf_capacity b")
  case False
  define c where "c = (if e then max n (buf_capacity b + buf_capacity b div 2) else n)"
  have "drop m (contents b @ drop (buf_size b) (fresh c)) = drop m (fresh c)"
    using assms(2,4) by (simp add: contents_def IsConsistent_def buf_capacity_def)
  moreover have "set (drop m (fresh c)) \<subseteq> J" "0 \<in> J" using assms(1) set_drop_subset [of m "fresh c"] by (auto simp: alloc_ok_def)
  moreover have "buf_data (EnsureCapacityWithHeadroom True fresh n e b) = contents b @ drop (buf_size b) (fresh c)"
    using False by (simp add: EnsureCapacityWithHeadroom_def replace_data_def Let_def c_def)
  moreover have "buf_freed (EnsureCapacityWithHeadroom True fresh n e b)
      = buf_freed b @ (if buf_data b = [] then [] else [replicate (length (buf_data b)) 0])"
    using False by (simp add: EnsureCapacityWithHeadroom_def replace_data_def MaybeZeroCompleteBuffer_def Let_def buf_capacity_def)
  ultimately show ?thesis using assms(3) by (auto simp only: clean_from_def set_append set_replicate_conv_if split: if_splits) auto
qed (use assms in \<open>simp add: EnsureCapacityWithHeadroom_def\<close>)

lemma ZeroTrailing_clean:
  assumes "clean_from J m b" "0 \<in> J" "buf_size b \<le> m" "IsConsistent b"
  shows "clean_from J (buf_size b) (ZeroTrailingData (m - buf_size b) b)"
  using assms by (auto simp: clean_from_def ZeroTrailingData_def IsConsistent_def buf_capacity_def)

lemma ZeroTrailing_size [simp]: "buf_size (ZeroTrailingData n b) = buf_size b"
  by (simp add: ZeroTrailingData_def)

lemma ZeroTrailing_contents: "IsConsistent b \<Longrightarrow> contents (ZeroTrailingData n b) = contents b"
  by (simp add: ZeroTrailingData_def contents_def IsConsistent_def buf_capacity_def)

lemma ZeroTrailing_consistent: "IsConsistent b \<Longrightarrow> IsConsistent (ZeroTrailingData n b)"
  by (simp add: ZeroTrailingData_def IsConsistent_def buf_capacity_def)

section \<open>The single operations\<close>

lemma Append_props:
  assumes "alloc_ok J fresh" "IsConsistent b"
  shows "IsConsistent (AppendData zf fresh xs b)" "contents (AppendData zf fresh xs b) = contents b @ xs"
    "buf_size (AppendData zf fresh xs b) = buf_size b + length xs"
  using Ensure_capacity [OF assms, where n = "buf_size b + length xs" and zf = zf and e = True] Ensure_contents [OF assms(2), of zf fresh "buf_size b + length xs" True]
    assms(2) by (simp_all add: AppendData_def Let_def IsConsistent_def buf_capacity_def contents_def)

lemma Append_clean:
  assumes "alloc_ok J fresh" "IsConsistent b" "clean_from J m b" "buf_size b \<le> m"
  shows "clean_from J (max m (buf_size b + length xs)) (AppendData True fresh xs b)"
proof -
  define b' where "b' = EnsureCapacityWithHeadroom True fresh (buf_size b + length xs) True b"
  have s: "buf_size b' = buf_size b" "buf_size b \<le> length (buf_data b')" using Ensure_capacity [OF assms(1,2)] by (simp_all add: b'_def)
  have c: "clean_from J m b'" unfolding b'_def by (rule Ensure_clean [OF assms])
  have "set (drop (max m (buf_size b + length xs)) (buf_data b')) \<subseteq> J" using c set_drop_mono [of m "max m (buf_size b + length xs)"]
    by (force simp: clean_from_def)
  moreover have "drop (max m (buf_size b + length xs)) (take (buf_size b) (buf_data b') @ xs @ drop (buf_size b + length xs) (buf_data b'))
    = drop (max m (buf_size b + length xs)) (buf_data b')" using s(2) by (auto simp: max_def)
  ultimately show ?thesis using c s(1) unfolding AppendData_def Let_def b'_def [symmetric] by (simp add: clean_from_def)
qed

text \<open>The common tail of \<open>SetData\<close> and \<open>SetSize\<close>.\<close>

definition zero_tail :: "bool \<Rightarrow> nat \<Rightarrow> buffer \<Rightarrow> buffer" where
  "zero_tail zf old_size b = (if zf \<and> buf_size b < old_size then ZeroTrailingData (old_size - buf_size b) b else b)"

lemma zero_tail_props:
  assumes "IsConsistent b"
  shows "IsConsistent (zero_tail zf n b)" "contents (zero_tail zf n b) = contents b" "buf_size (zero_tail zf n b) = buf_size b"
  using ZeroTrailing_consistent [OF assms] ZeroTrailing_contents [OF assms] assms by (simp_all add: zero_tail_def)

lemma zero_tail_clean:
  assumes "IsConsistent b" "0 \<in> J" "clean_from J (max n (buf_size b)) b"
  shows "no_secrets J (zero_tail True n b)"
  using assms ZeroTrailing_clean [of J n b] by (auto simp: zero_tail_def no_secrets_def max_def split: if_splits)

lemma SetSize_props:
  assumes "alloc_ok J fresh" "IsConsistent b"
  shows "IsConsistent (SetSize zf fresh n b)" "buf_size (SetSize zf fresh n b) = n" "take n (contents b) = take (buf_size b) (contents (SetSize zf fresh n b))"
proof -
  define b' where "b' = (EnsureCapacityWithHeadroom zf fresh n True b)\<lparr>buf_size := n\<rparr>"
  have e: "SetSize zf fresh n b = zero_tail zf (buf_size b) b'" by (simp add: SetSize_def zero_tail_def Let_def b'_def)
  have b': "IsConsistent b'" using Ensure_capacity [OF assms] by (simp add: b'_def IsConsistent_def buf_capacity_def)
  show "IsConsistent (SetSize zf fresh n b)" "buf_size (SetSize zf fresh n b) = n"
    using zero_tail_props [OF b'] by (simp_all add: e) (simp add: b'_def)
  have "take (buf_size b) (contents b') = take n (take (buf_size b) (buf_data b'))" by (simp add: contents_def b'_def min.commute)
  also have "take (buf_size b) (buf_data b') = contents b" using Ensure_contents [OF assms(2)] by (simp add: b'_def)
  finally show "take n (contents b) = take (buf_size b) (contents (SetSize zf fresh n b))" using zero_tail_props(2) [OF b'] by (simp add: e)
qed


lemma SetSize_clean:
  assumes "alloc_ok J fresh" "IsConsistent b" "no_secrets J b"
  shows "no_secrets J (SetSize True fresh n b)"
proof -
  define b' where "b' = (EnsureCapacityWithHeadroom True fresh n True b)\<lparr>buf_size := n\<rparr>"
  have e: "SetSize True fresh n b = zero_tail True (buf_size b) b'" by (simp add: SetSize_def zero_tail_def Let_def b'_def)
  have b': "IsConsistent b'" using Ensure_capacity [OF assms(1,2)] by (simp add: b'_def IsConsistent_def buf_capacity_def)
  have "clean_from J (buf_size b) (EnsureCapacityWithHeadroom True fresh n True b)"
    using Ensure_clean [OF assms(1,2)] assms(3) by (simp add: no_secrets_def)
  then have "clean_from J (buf_size b) b'" by (simp add: b'_def clean_from_def)
  then have "clean_from J (max (buf_size b) (buf_size b')) b'" by (rule clean_from_mono) simp
  then show ?thesis unfolding e using assms(1) b' by (intro zero_tail_clean) (simp_all add: alloc_ok_def)
qed

lemma SetSize_grow:
  assumes "alloc_ok J fresh" "IsConsistent b" "clean_from J m b" "buf_size b \<le> m" "buf_size b \<le> n"
  shows "clean_from J m (SetSize True fresh n b)"
  using Ensure_clean [OF assms(1-4), of n True] assms(5) by (simp add: SetSize_def Let_def clean_from_def)

lemma setter_result:
  assumes "alloc_ok J fresh" "IsConsistent b" "good_setter f"
  obtains v b' where "length v = n" "AppendData_setter zf fresh n f b = Some (b', snd (f v))" "IsConsistent b'"
    "contents b' = contents b @ take (snd (f v)) (fst (f v))" "buf_size b' = buf_size b + snd (f v)"
    "buf_freed b' = buf_freed (SetSize zf fresh (buf_size b + n) b)"
    "drop (buf_size b') (buf_data b') = drop (buf_size b') (buf_data (SetSize zf fresh (buf_size b + n) b))"
proof -
  define b1 where "b1 = SetSize zf fresh (buf_size b + n) b"
  define v where "v = take n (drop (buf_size b) (buf_data b1))"
  note p = SetSize_props [OF assms(1,2), where zf = zf and n = "buf_size b + n", folded b1_def]
  have l: "buf_size b + n \<le> length (buf_data b1)" using p(1,2) by (simp add: IsConsistent_def buf_capacity_def)
  then have v: "length v = n" by (simp add: v_def)
  with assms(3) have s: "length (fst (f v)) = n" "snd (f v) \<le> n" "drop (snd (f v)) (fst (f v)) = drop (snd (f v)) v"
    by (auto simp: good_setter_def)
  have t: "take (buf_size b) (buf_data b1) = contents b" using p(2,3) assms(2)
    by (simp add: contents_def min_def IsConsistent_def buf_capacity_def split: if_splits)
  define b' where "b' = b1\<lparr>buf_data := take (buf_size b) (buf_data b1) @ fst (f v) @ drop (buf_size b + n) (buf_data b1),
    buf_size := buf_size b + snd (f v)\<rparr>"
  have "AppendData_setter zf fresh n f b = Some (b', snd (f v))"
    using s(2) by (simp add: AppendData_setter_def Let_def b1_def [symmetric] v_def [symmetric] b'_def case_prod_beta)
  moreover have "IsConsistent b'" using l s by (simp add: b'_def IsConsistent_def buf_capacity_def)
  moreover have "contents b' = contents b @ take (snd (f v)) (fst (f v))"
    using l s t assms(2) by (simp add: b'_def contents_def IsConsistent_def buf_capacity_def)
  moreover have "drop (buf_size b') (buf_data b') = drop (buf_size b') (buf_data b1)"
  proof -
    have "drop (buf_size b') (buf_data b') = drop (snd (f v)) v @ drop (buf_size b + n) (buf_data b1)" using l s by (simp add: b'_def)
    also have "\<dots> = drop (snd (f v)) (drop (buf_size b) (buf_data b1))"
      using s(2) l append_take_drop_id [of n "drop (buf_size b) (buf_data b1)"] v
      by (metis add.commute diff_is_0_eq drop_0 drop_append drop_drop v_def)
    finally show ?thesis by (simp add: b'_def add.commute)
  qed
  ultimately show thesis using that [OF v] unfolding b1_def by (simp add: b'_def b1_def)
qed

lemma setter_clean:
  assumes "alloc_ok J fresh" "IsConsistent b" "good_setter f" "clean_from J m b" "buf_size b \<le> m" "AppendData_setter True fresh n f b = Some (b', w)"
  shows "clean_from J (max m (buf_size b')) b'"
proof -
  obtain v c where c: "AppendData_setter True fresh n f b = Some (c, snd (f v))" "buf_freed c = buf_freed (SetSize True fresh (buf_size b + n) b)"
    "drop (buf_size c) (buf_data c) = drop (buf_size c) (buf_data (SetSize True fresh (buf_size b + n) b))"
    by (rule setter_result [OF assms(1-3), of n True]) blast
  have b': "b' = c" using c(1) assms(6) by simp
  have g: "clean_from J m (SetSize True fresh (buf_size b + n) b)" by (rule SetSize_grow [OF assms(1,2,4,5)]) simp
  have d: "drop k (buf_data c) = drop k (buf_data (SetSize True fresh (buf_size b + n) b))" if "buf_size c \<le> k" for k
    using arg_cong [OF c(3), of "drop (k - buf_size c)"] that by simp
  from clean_from_mono [OF g, of "max m (buf_size c)"] show ?thesis unfolding b' by (simp add: clean_from_def d c(2))
qed

text \<open>Overwriting starts from a buffer whose size was set to zero.\<close>

lemma reset_props: "IsConsistent b \<Longrightarrow> IsConsistent (b\<lparr>buf_size := 0\<rparr>) \<and> contents (b\<lparr>buf_size := 0\<rparr>) = []"
  by (simp add: IsConsistent_def buf_capacity_def contents_def)

lemma reset_clean: "no_secrets J b \<Longrightarrow> clean_from J (buf_size b) (b\<lparr>buf_size := 0\<rparr>)"
  by (simp add: no_secrets_def clean_from_def)

section \<open>Sequences\<close>

definition buf_ok :: "bool \<Rightarrow> int set \<Rightarrow> buffer \<Rightarrow> bool" where
  "buf_ok zf J b \<longleftrightarrow> IsConsistent b \<and> (zf \<longrightarrow> no_secrets J b)"

lemma SetData_step:
  assumes "alloc_ok J fresh" "buf_ok zf J b"
  shows "buf_ok zf J (SetData zf fresh xs b) \<and> contents (SetData zf fresh xs b) = xs"
proof -
  define b' where "b' = AppendData zf fresh xs (b\<lparr>buf_size := 0\<rparr>)"
  have b: "IsConsistent b" using assms(2) by (simp add: buf_ok_def)
  have e: "SetData zf fresh xs b = zero_tail zf (buf_size b) b'" by (simp add: SetData_def zero_tail_def Let_def b'_def)
  note a = Append_props [OF assms(1) conjunct1 [OF reset_props [OF b]], where zf = zf and xs = xs, folded b'_def]
  have "no_secrets J (zero_tail True (buf_size b) b')" if zf
  proof (rule zero_tail_clean [OF a(1)])
    show "clean_from J (max (buf_size b) (buf_size b')) b'"
      using that Append_clean [OF assms(1) conjunct1 [OF reset_props [OF b]] reset_clean, where xs = xs] assms(2) a(3)
      by (simp add: buf_ok_def b'_def)
  qed (use assms(1) in \<open>simp add: alloc_ok_def\<close>)
  with zero_tail_props [OF a(1), of zf "buf_size b"] a(2) reset_props [OF b] show ?thesis unfolding e by (auto simp: buf_ok_def)
qed

lemma SetData_setter_step:
  assumes "alloc_ok J fresh" "buf_ok zf J b" "good_setter f"
  shows "runs (SetData_setter zf fresh n f b) (\<lambda>r. buf_ok zf J (fst r) \<and> (\<exists>v. length v = n \<and> contents (fst r) = take (snd (f v)) (fst (f v))))"
proof -
  have b: "IsConsistent b" using assms(2) by (simp add: buf_ok_def)
  note r = conjunct1 [OF reset_props [OF b]]
  obtain v b' where v: "length v = n" "AppendData_setter zf fresh n f (b\<lparr>buf_size := 0\<rparr>) = Some (b', snd (f v))" "IsConsistent b'"
    "contents b' = take (snd (f v)) (fst (f v))"
    using setter_result [OF assms(1) r assms(3), of n zf] reset_props [OF b] by (metis append_Nil)
  have e: "SetData_setter zf fresh n f b = Some (zero_tail zf (buf_size b) b', snd (f v))"
    using v(2) by (simp add: SetData_setter_def zero_tail_def Let_def)
  have "no_secrets J (zero_tail True (buf_size b) b')" if zf
  proof (rule zero_tail_clean [OF v(3)])
    show "clean_from J (max (buf_size b) (buf_size b')) b'"
      using that setter_clean [OF assms(1) r assms(3) reset_clean, where n = n and b' = b' and w = "snd (f v)"] assms(2) v(2) by (simp add: buf_ok_def)
  qed (use assms(1) in \<open>simp add: alloc_ok_def\<close>)
  with zero_tail_props [OF v(3), of zf "buf_size b"] v(1,4) show ?thesis unfolding e by (auto simp: buf_ok_def runs_simps)
qed

lemma buf_step_ok:
  assumes "alloc_ok J fresh" "buf_ok zf J b" "good_op p"
  shows "runs (buf_step zf fresh p b) (\<lambda>b'. buf_ok zf J b' \<and> list_step p (contents b) (contents b'))"
proof (cases p)
  case (Append_op xs)
  with assms Append_props [OF assms(1), where b = b and zf = zf and xs = xs] Append_clean [OF assms(1), where b = b and m = "buf_size b" and xs = xs] show ?thesis
    by (auto simp: runs_simps buf_ok_def no_secrets_def)
next
  case (Set_op xs)
  with SetData_step [OF assms(1,2), of xs] show ?thesis by (simp add: runs_simps)
next
  case (Size_op n)
  with assms SetSize_props [OF assms(1), where b = b and zf = zf and n = n] SetSize_clean [OF assms(1), where b = b and n = n] show ?thesis
    by (auto simp: runs_simps buf_ok_def contents_def IsConsistent_def buf_capacity_def)
next
  case (Capacity_op n)
  with assms Ensure_contents [where b = b and zf = zf and fresh = fresh and n = n and e = False]
    Ensure_capacity [OF assms(1), where b = b and zf = zf and n = n and e = False] Ensure_clean [OF assms(1), where b = b and m = "buf_size b" and n = n and e = False] show ?thesis
    by (auto simp: runs_simps buf_ok_def contents_def IsConsistent_def buf_capacity_def EnsureCapacity_def no_secrets_def)
next
  case Clear_op
  with assms show ?thesis
    by (auto simp: runs_simps buf_ok_def Buffer_Clear_def MaybeZeroCompleteBuffer_def contents_def IsConsistent_def no_secrets_def clean_from_def
        buf_capacity_def alloc_ok_def)
next
  case (Append_setter_op n f)
  then have f: "good_setter f" and b: "IsConsistent b" using assms(2,3) by (simp_all add: buf_ok_def)
  obtain v b' where v: "length v = n" "AppendData_setter zf fresh n f b = Some (b', snd (f v))" "IsConsistent b'"
    "contents b' = contents b @ take (snd (f v)) (fst (f v))" "buf_size b' = buf_size b + snd (f v)"
    by (rule setter_result [OF assms(1) b f, of n zf]) blast
  moreover have "zf \<Longrightarrow> no_secrets J b'"
    using setter_clean [OF assms(1) b f, where m = "buf_size b" and n = n and b' = b' and w = "snd (f v)"] assms(2) v(2,5) by (simp add: buf_ok_def no_secrets_def)
  ultimately show ?thesis using Append_setter_op by (auto simp: runs_simps buf_ok_def)
next
  case (Set_setter_op n f)
  with SetData_setter_step [OF assms(1,2), of f n] assms(3) show ?thesis by (auto simp: runs_def)
qed

text \<open>A sequence of operations; the result holds the final buffer and the elements in use after each of them.\<close>

definition buf_run :: "bool \<Rightarrow> allocator \<Rightarrow> buf_op list \<Rightarrow> buffer \<Rightarrow> (buffer \<times> int list list) option" where
  "buf_run zf fresh = stream (\<lambda>p b. do { b' \<leftarrow> buf_step zf fresh p b; Some (b', contents b') })"

text \<open>The lists before and after each operation are related by what the operation does to a list.\<close>

fun list_run :: "buf_op list \<Rightarrow> int list \<Rightarrow> int list list \<Rightarrow> bool" where
  "list_run [] l ls = (ls = [])"
| "list_run (p # ps) l ls = (case ls of [] \<Rightarrow> False | l' # ls' \<Rightarrow> list_step p l l' \<and> list_run ps l' ls')"

lemma list_run_Cons: "list_run (p # ps) l ls \<longleftrightarrow> (\<exists>l' ls'. ls = l' # ls' \<and> list_step p l l' \<and> list_run ps l' ls')"
  by (cases ls) simp_all

declare list_run.simps(2) [simp del]

lemma buf_run_Cons:
  assumes "buf_step zf fresh p b = Some b'" "buf_run zf fresh ps b' = Some (b'', ls)"
  shows "buf_run zf fresh (p # ps) b = Some (b'', contents b' # ls)"
  using assms by (simp add: buf_run_def)

lemma buf_run_ok:
  assumes "alloc_ok J fresh" "buf_ok zf J b" "\<forall>p \<in> set ps. good_op p"
  shows "runs (buf_run zf fresh ps b) (\<lambda>r. buf_ok zf J (fst r) \<and> list_run ps (contents b) (snd r))"
  using assms(2,3)
proof (induction ps arbitrary: b)
  case (Cons p ps)
  from buf_step_ok [OF assms(1) Cons.prems(1), of p] Cons.prems(2)
  obtain b' where b': "buf_step zf fresh p b = Some b'" "buf_ok zf J b'" "list_step p (contents b) (contents b')" by (auto simp: runs_def)
  from Cons.IH [OF b'(2)] Cons.prems(2) obtain b'' ls where r: "buf_run zf fresh ps b' = Some (b'', ls)" "buf_ok zf J b''" "list_run ps (contents b') ls"
    by (auto simp: runs_def)
  with buf_run_Cons [OF b'(1) r(1)] b'(3) show ?case by (simp add: runs_simps list_run_Cons)
qed (simp add: buf_run_def runs_simps)

lemma delete_clean:
  assumes "buf_ok True J b" "0 \<in> J" "d \<in> set (BufferT_delete True b)"
  shows "set d \<subseteq> J"
  using assms by (auto simp: BufferT_delete_def replace_data_def MaybeZeroCompleteBuffer_def buf_ok_def no_secrets_def clean_from_def
      buf_capacity_def split: if_splits)

section \<open>Properties\<close>



text \<open>The move assignment releases the array of its target without clearing it.\<close>

lemma move_assign_leaks:
  assumes "buf_data a \<noteq> []"
  shows "buf_data a \<in> set (buf_freed (fst (move_assign a b)))"
  using assms by (simp add: move_assign_def replace_data_def)

end
