(* ===== verification/Spec2Isabelle.thy ===== *)
theory Spec2Isabelle
  imports Gain_Control Wav Base64 Qmf Spl_Common Buffers
begin

text \<open>
  A verification of the fixed-point automatic gain control (AGC) of this repository, from the signal processing
  primitives up to the client interface, and of the utilities beside it: WAV files, the splitting filter, Base64
  and the growing buffer.

  \<^bold>\<open>The program.\<close> A client creates an \<open>AudioProcessing\<close> object and passes 10 ms frames to \<open>ProcessStream\<close>
  (\<^verbatim>\<open>audio_processing_impl.cc\<close>). Its \<open>GainControlImpl\<close> (\<^verbatim>\<open>gain_control_impl.cc\<close>) holds the settings and
  a legacy AGC instance. For each frame that instance (\<^verbatim>\<open>digital_agc/analog_agc.c\<close>) receives the microphone
  signal (\<open>WebRtcAgc_AddMic\<close>, or \<open>WebRtcAgc_VirtualMic\<close> where the microphone level is only simulated), and
  \<open>WebRtcAgc_Process\<close> applies the digital gain control (\<^verbatim>\<open>digital_agc/digital_agc.c\<close>) and lets
  \<open>WebRtcAgc_ProcessAnalog\<close> recommend a new microphone level. The digital gain control takes its gains from a
  table computed once per configuration and steers by a voice activity detector. All of it is integer arithmetic
  whose correctness is a matter of ranges: whether a sum, a product or a shift leaves its type.

  \<^bold>\<open>How C is modelled.\<close> \<open>C_Prelude\<close> has the conventions: a C integer is an \<open>int\<close> inside the range of its type,
  conversions are written out, and a computation is a value of the option monad in which \<open>None\<close> is undefined
  behaviour (signed overflow, an invalid shift or division, an access outside an array) or a failed check. The
  judgement \<open>runs m P\<close> is total correctness: no undefined behaviour, a result, and \<open>P\<close> of it. The locales
  \<open>frame_processor\<close> and \<open>total_frame_processor\<close> are the contract of a component that is called once per frame; their
  lemmas carry an invariant over a stream of frames and are interpreted for the downsampler, the voice activity
  detector, the digital gain control and the two halves of the splitting filter. The locale \<open>budgeted_processor\<close>
  is the contract of a component whose invariant wears out slowly, as the energy measure of the level control does.

  \<^bold>\<open>Theories and sources.\<close>
  \<^item> \<open>Spl\<close>: \<^verbatim>\<open>digital_agc/signal_processing_library.c\<close> and \<^verbatim>\<open>.h\<close>. The fixed-point square root is total and
    bounded, the unrolled dot product is the saturated exact sum, and the all-pass downsampler never overflows. The
    locale \<open>allpass_section\<close> holds the argument for one section and is interpreted for the coefficients of the code.
  \<^item> \<open>Agc_Vad\<close>: the voice activity detector of \<^verbatim>\<open>digital_agc.c\<close>, with the exact condition of its one overflow.
  \<^item> \<open>Gain_Table\<close>: \<open>WebRtcAgc_CalculateGainTable\<close>, total for the accepted configurations.
  \<^item> \<open>Digital_Agc\<close>: \<open>WebRtcAgc_InitDigital\<close>, \<open>WebRtcAgc_AddFarendToDigital\<close> and \<open>WebRtcAgc_ProcessDigital\<close>. The
    limiter loop terminates and prevents clipping, and a frame fails only by the overflow of the detector.
  \<^item> \<open>Analog_State\<close>, \<open>Analog_Input\<close>, \<open>Analog_Control\<close>, \<open>Analog_Config\<close>, \<open>Analog_Agc\<close>: \<^verbatim>\<open>analog_agc.c\<close> with
    its instance as a record, the microphone input, the level control, the configuration and the processing of a
    frame. An invariant holds from \<open>WebRtcAgc_Init\<close> on under every interleaving of up to 61 million calls that do
    not hit the overflow of the detector, the two-entry microphone queue refines an abstract queue, and too quiet
    speech raises the level.
  \<^item> \<open>Gain_Control\<close>: \<^verbatim>\<open>gain_control_impl.cc\<close> and \<^verbatim>\<open>audio_processing_impl.cc\<close>. The client's calls are an inductive
    relation; the invariant of the reachable objects gives what every stream returns.
  \<^item> \<open>Wav\<close>: \<^verbatim>\<open>common_audio/wav_header.cc\<close> and \<^verbatim>\<open>wav_file.cc\<close> over files as lists of bytes. Headers and files are
    read back as written, and an accepted header has valid parameters.
  \<^item> \<open>Qmf\<close>: \<^verbatim>\<open>common_audio/splitting_filter.c\<close> and operations of \<^verbatim>\<open>spl_inl.h\<close>. Splitting and joining never
    overflows; the sections are interpretations of \<open>allpass_section\<close>.
  \<^item> \<open>Spl_Common\<close>: \<^verbatim>\<open>division_operations.c\<close>, \<^verbatim>\<open>spl_sqrt_floor.c\<close> and \<^verbatim>\<open>copy_set_operations.c\<close> of
    \<^verbatim>\<open>common_audio\<close>. The bitwise square root is the integer square root, the bitwise division is exact.
  \<^item> \<open>Base64\<close>: \<^verbatim>\<open>base/base64.cc\<close>. Encoding and decoding round trip, and the strict decoder accepts exactly the
    encodings.
  \<^item> \<open>Buffers\<close>: \<^verbatim>\<open>base/buffer.h\<close>. Operations keep a buffer consistent, act on its elements as on a list, and with
    \<open>ZeroOnFree\<close> leave nothing behind.

  \<^bold>\<open>Loops and bounds.\<close> Loops over arrays are structural recursion or \<open>foldM\<close> over the indices. The limiter loop,
  whose end is not evident from the code, is a \<open>partial_function\<close> in the option monad, and that it ends is a
  theorem. No definition uses fuel. The bounds of the theorems on long runs are those of the energy measure, which
  loses at most 7 per block. Memory the code does not initialise, the result of \<open>fopen\<close> and the arrays of the
  allocator are arguments.

  \<^bold>\<open>Not modelled.\<close> The floating-point code (audio buffers, filter banks, sinc resamplers, \<open>RemoveDCBias\<close>) and the
  wrappers of the operating system and of OpenSSL in \<^verbatim>\<open>base\<close> are outside this style of model. The integer resamplers
  of \<^verbatim>\<open>common_audio\<close>, the string, byte order and queue utilities of \<^verbatim>\<open>base\<close> and \<^verbatim>\<open>gain_control_impl_webrtc.cc\<close>
  are not used by the built library and are left out. The table-driven leading-zero count of \<^verbatim>\<open>spl_inl.h\<close> refers to
  a table that is not in the sources. Code for debug dumps and for other processors is compiled out. Concurrent
  calls of one instance are not modelled: the AGC has no locks and its caller serialises the calls.
\<close>

end
